(* ===== verification/PL_Prelude.thy ===== *)
theory PL_Prelude
  imports Main "HOL-Library.Word" "HOL-Library.Monad_Syntax"
begin

text \<open>
  Shared vocabulary of the development: the machine types of the Windows headers the program
  uses, little-endian memory images of integers, memory blocks with the two copying primitives
  the source calls (\<open>memcpy\<close> out of a block and into a block), the result codes of
  \<^verbatim>\<open>_framework/_common.h\<close>, and the ordered map that stands for \<open>std::map\<close>.

  A result of type \<open>'a option\<close> is used for one purpose: \<open>None\<close> means that the C++ code
  performs an access outside the memory block it works on (or dereferences a null pointer), so
  its behaviour is undefined from there on.  Errors the code reports are ordinary values.
\<close>

unbundle bit_operations_syntax

named_theorems mem_simps \<open>facts about memory blocks\<close>
named_theorems word_conv \<open>conversions between words, naturals and integers\<close>

subsection \<open>Machine types\<close>

type_synonym byte = "8 word"
type_synonym bytes = "8 word list"
type_synonym u16 = "16 word"
type_synonym u32 = "32 word"
type_synonym u64 = "64 word"

text \<open>
  \<open>INT32\<close>, \<open>INT64\<close> and \<open>FLOAT\<close> values are kept as their bit patterns, words of the same width;
  \<open>sint\<close> reads a word as the signed value.
\<close>

subsection \<open>Result codes\<close>

datatype eResultCode = succ | fail | invalid_packet | socket_disconnected | pending

subsection \<open>Little-endian memory images\<close>

primrec le_bytes :: "nat \<Rightarrow> 'a::len word \<Rightarrow> bytes" where
  "le_bytes 0 w = []"
| "le_bytes (Suc n) w = ucast w # le_bytes n (drop_bit 8 w)"

primrec le_word :: "bytes \<Rightarrow> 'a::len word" where
  "le_word [] = 0"
| "le_word (b # bs) = ucast b OR push_bit 8 (le_word bs)"

lemma length_le_bytes [simp]: "length (le_bytes n w) = n"
  by (induction n arbitrary: w) auto

lemma bit_le_word:
  "bit (le_word bs :: 'a::len word) k \<longleftrightarrow>
     k < LENGTH('a) \<and> k div 8 < length bs \<and> bit (bs ! (k div 8)) (k mod 8)"
proof (induction bs arbitrary: k)
  case Nil
  then show ?case by simp
next
  case (Cons b bs)
  show ?case
  proof (cases "k < 8")
    case True
    then show ?thesis
      by (auto simp: bit_or_iff bit_push_bit_iff bit_ucast_iff dest: bit_imp_le_length)
  next
    case False
    then obtain j where j: "k = j + 8" by (metis add.commute le_add_diff_inverse not_less)
    have "\<not> bit b k" using False by (auto dest: bit_imp_le_length)
    moreover have "k div 8 = Suc (j div 8)" "k mod 8 = j mod 8" using j by auto
    ultimately show ?thesis using Cons.IH[of j] j
      by (auto simp: bit_or_iff bit_push_bit_iff bit_ucast_iff)
  qed
qed

lemma nth_le_bytes: "i < n \<Longrightarrow> le_bytes n w ! i = ucast (drop_bit (8 * i) w)"
proof (induction n arbitrary: i w)
  case 0
  then show ?case by simp
next
  case (Suc n)
  then show ?case by (cases i) (auto simp: algebra_simps)
qed

lemma le_word_le_bytes [simp]:
  fixes w :: "'a::len word"
  assumes "LENGTH('a) \<le> 8 * n"
  shows "le_word (le_bytes n w) = w"
proof (rule bit_word_eqI)
  fix k
  assume k: "k < LENGTH('a)"
  have "k div 8 < n" using k assms by (simp add: less_mult_imp_div_less mult.commute)
  moreover have "8 * (k div 8) + k mod 8 = k" by simp
  ultimately show "bit (le_word (le_bytes n w) :: 'a word) k = bit w k"
    using k by (simp add: bit_le_word nth_le_bytes bit_ucast_iff bit_drop_bit_eq)
qed

lemma le_bytes_le_word [simp]:
  assumes "8 * length bs \<le> LENGTH('a::len)"
  shows "le_bytes (length bs) (le_word bs :: 'a word) = bs"
proof (rule nth_equalityI)
  show "length (le_bytes (length bs) (le_word bs :: 'a word)) = length bs" by simp
next
  fix i
  assume "i < length (le_bytes (length bs) (le_word bs :: 'a word))"
  then have i: "i < length bs" by simp
  show "le_bytes (length bs) (le_word bs :: 'a word) ! i = bs ! i"
  proof (rule bit_word_eqI)
    fix k
    assume k: "k < LENGTH(8)"
    have "8 * i + k < LENGTH('a)" using i k assms by (simp)
    moreover have "(8 * i + k) div 8 = i" "(8 * i + k) mod 8 = k" using k by auto
    ultimately show "bit (le_bytes (length bs) (le_word bs :: 'a word) ! i) k = bit (bs ! i) k"
      using i k by (simp add: nth_le_bytes bit_ucast_iff bit_drop_bit_eq bit_le_word)
  qed
qed

lemma le_bytes_inj: "LENGTH('a::len) \<le> 8 * n \<Longrightarrow> le_bytes n (v :: 'a word) = le_bytes n w \<Longrightarrow> v = w"
  by (metis le_word_le_bytes)

subsection \<open>Memory blocks\<close>

text \<open>
  A block is the list of its bytes.  \<open>mem_read m off len\<close> is a \<open>memcpy\<close> whose source is
  \<open>m + off\<close>, \<open>mem_write m off xs\<close> one whose destination is \<open>m + off\<close>.
\<close>

definition mem_read :: "bytes \<Rightarrow> nat \<Rightarrow> nat \<Rightarrow> bytes option" where
  "mem_read m off len = (if off + len \<le> length m then Some (take len (drop off m)) else None)"

definition mem_write :: "bytes \<Rightarrow> nat \<Rightarrow> bytes \<Rightarrow> bytes option" where
  "mem_write m off xs =
     (if off + length xs \<le> length m
      then Some (take off m @ xs @ drop (off + length xs) m) else None)"

lemma mem_read_Some [mem_simps]:
  "off + len \<le> length m \<Longrightarrow> mem_read m off len = Some (take len (drop off m))"
  by (simp add: mem_read_def)

lemma mem_write_Some [mem_simps]:
  "off + length xs \<le> length m \<Longrightarrow>
   mem_write m off xs = Some (take off m @ xs @ drop (off + length xs) m)"
  by (simp add: mem_write_def)

lemma mem_write_None [mem_simps]: "length m < off + length xs \<Longrightarrow> mem_write m off xs = None"
  by (simp add: mem_write_def)

lemma mem_read_None [mem_simps]: "length m < off + len \<Longrightarrow> mem_read m off len = None"
  by (simp add: mem_read_def)

lemma mem_write_length: "mem_write m off xs = Some m' \<Longrightarrow> length m' = length m"
  by (auto simp: mem_write_def split: if_splits)

lemma mem_read_length: "mem_read m off len = Some xs \<Longrightarrow> length xs = len"
  by (auto simp: mem_read_def split: if_splits)

lemma mem_write_nth:
  assumes "mem_write m off xs = Some m'" and "k < length m"
  shows "m' ! k = (if off \<le> k \<and> k < off + length xs then xs ! (k - off) else m ! k)"
  using assms by (auto simp: mem_write_def nth_append min_def split: if_splits)

lemma mem_read_write_same:
  "mem_write m off xs = Some m' \<Longrightarrow> mem_read m' off (length xs) = Some xs"
  by (auto simp: mem_write_def mem_read_def split: if_splits)

lemma mem_read_nth:
  "mem_read m off len = Some xs \<Longrightarrow> i < len \<Longrightarrow> xs ! i = m ! (off + i)"
  by (auto simp: mem_read_def split: if_splits)

text \<open>A signed 64-bit count passed where \<open>size_t\<close> is expected.\<close>

definition to_size_t :: "int \<Rightarrow> nat" where
  "to_size_t i = nat (i mod 2 ^ 64)"

lemma to_size_t_nonneg [word_conv]: "0 \<le> i \<Longrightarrow> i < 2 ^ 64 \<Longrightarrow> to_size_t i = nat i"
  by (simp add: to_size_t_def)

subsection \<open>Ordered maps\<close>

text \<open>
  \<open>std::map\<close> iterates in key order and \<open>insert\<close> leaves an existing entry alone; both matter to
  the code, so a map is an association list sorted by key.
\<close>

type_synonym ('k, 'v) omap = "('k \<times> 'v) list"

fun omap_insert :: "'k::linorder \<Rightarrow> 'v \<Rightarrow> ('k, 'v) omap \<Rightarrow> ('k, 'v) omap" where
  "omap_insert k v [] = [(k, v)]"
| "omap_insert k v ((a, b) # m) =
     (if k < a then (k, v) # (a, b) # m
      else if k = a then (a, b) # m
      else (a, b) # omap_insert k v m)"

definition omap_erase :: "'k \<Rightarrow> ('k, 'v) omap \<Rightarrow> ('k, 'v) omap" where
  "omap_erase k m = filter (\<lambda>p. fst p \<noteq> k) m"

definition omap_ok :: "('k::linorder, 'v) omap \<Rightarrow> bool" where
  "omap_ok m = sorted_wrt (<) (map fst m)"

lemma omap_ok_Nil [simp]: "omap_ok []"
  by (simp add: omap_ok_def)

lemma omap_insert_keys: "fst ` set (omap_insert k v m) = insert k (fst ` set m)"
  by (induction k v m rule: omap_insert.induct) auto

lemma omap_ok_insert [simp]: "omap_ok m \<Longrightarrow> omap_ok (omap_insert k v m)"
proof (induction k v m rule: omap_insert.induct)
  case (1 k v)
  then show ?case by (simp add: omap_ok_def)
next
  case (2 k v a b m)
  have keys: "set (map fst (omap_insert k v m)) = insert k (set (map fst m))"
    using omap_insert_keys[of k v m] by simp
  from "2" show ?case
    using keys by (auto simp: omap_ok_def)
qed

lemma omap_ok_erase [simp]: "omap_ok m \<Longrightarrow> omap_ok (omap_erase k m)"
  by (induction m) (auto simp: omap_ok_def omap_erase_def)

lemma omap_ok_distinct: "omap_ok m \<Longrightarrow> distinct (map fst m)"
  by (auto simp: omap_ok_def strict_sorted_iff)

lemma map_of_omap_insert:
  "map_of (omap_insert k v m) = (if map_of m k = None then (map_of m)(k \<mapsto> v) else map_of m)"
  if "omap_ok m"
  using that
proof (induction k v m rule: omap_insert.induct)
  case (1 k v)
  then show ?case by auto
next
  case (2 k v a b m)
  have rest: "omap_ok m" using "2.prems" by (simp add: omap_ok_def)
  have above: "k < a \<Longrightarrow> map_of m k = None"
    using "2.prems" by (fastforce simp: omap_ok_def map_of_eq_None_iff)
  show ?case using "2.IH" rest above by (auto simp: fun_eq_iff)
qed

lemma map_of_omap_erase: "map_of (omap_erase k m) = (map_of m)(k := None)"
  by (induction m) (auto simp: omap_erase_def fun_eq_iff)

lemma set_omap_erase: "set (omap_erase k m) = {p \<in> set m. fst p \<noteq> k}"
  by (auto simp: omap_erase_def)

lemma omap_insert_present: "omap_ok m \<Longrightarrow> map_of m k \<noteq> None \<Longrightarrow> omap_insert k v m = m"
proof (induction k v m rule: omap_insert.induct)
  case (1 k v)
  then show ?case by simp
next
  case (2 k v a b m)
  have rest: "omap_ok m" using "2.prems" by (simp add: omap_ok_def)
  have "\<not> k < a" using "2.prems" by (fastforce simp: omap_ok_def map_of_eq_Some_iff dest: map_of_SomeD)
  then show ?case using "2" rest by (auto split: if_splits)
qed

lemma set_omap_insert_absent:
  "map_of m k = None \<Longrightarrow> set (omap_insert k v m) = insert (k, v) (set m)"
  by (induction k v m rule: omap_insert.induct) (auto split: if_splits)

subsection \<open>Lists\<close>

lemma list_update_numeral: "(x # xs)[numeral k := y] = x # xs[pred_numeral k := y]"
  by (simp add: numeral_eq_Suc)

subsection \<open>C strings\<close>

definition chars :: "string \<Rightarrow> bytes" where
  "chars s = map (\<lambda>c. of_nat (of_char c)) s"

text \<open>Whether \<open>strncmp\<close> of \<open>n\<close> characters finds the strings equal.\<close>

fun strncmp_equal :: "nat \<Rightarrow> bytes \<Rightarrow> bytes \<Rightarrow> bool" where
  "strncmp_equal 0 xs ys = True"
| "strncmp_equal (Suc n) (x # xs) (y # ys) = (x = y \<and> (x = 0 \<or> strncmp_equal n xs ys))"
| "strncmp_equal (Suc n) xs ys = False"

lemma unat_char_byte: "unat (of_nat (of_char c) :: byte) = of_char c"
proof -
  have "(of_char c :: nat) < 256" by simp
  then show ?thesis by (simp add: unat_of_nat)
qed

lemma inj_char_byte: "inj (\<lambda>c. of_nat (of_char c) :: byte)"
  by (rule injI) (metis unat_char_byte of_char_eq_iff)

lemma distinct_chars: "distinct s \<Longrightarrow> distinct (chars s)"
  using inj_char_byte by (auto simp: chars_def distinct_map intro: inj_on_subset)

lemma chars_eq_iff [simp]: "chars s = chars t \<longleftrightarrow> s = t"
  using inj_char_byte by (auto simp: chars_def inj_map_eq_map)

lemma length_chars [simp]: "length (chars s) = length s"
  by (simp add: chars_def)

lemma take_chars: "take n (chars s) = chars (take n s)"
  by (simp add: chars_def take_map)

lemma chars_no_zero: "CHR 0x00 \<notin> set s \<Longrightarrow> 0 \<notin> set (chars s)"
proof
  assume n: "CHR 0x00 \<notin> set s" and "0 \<in> set (chars s)"
  then obtain c where c: "c \<in> set s" "(of_nat (of_char c) :: byte) = 0" by (auto simp: chars_def)
  then have "(of_char c :: nat) = 0" using unat_char_byte [of c] by simp
  then have "(of_char c :: nat) = of_char (CHR 0x00)" by simp
  then show False using c(1) n by (simp only: of_char_eq_iff)
qed

lemma strncmp_equal_take:
  "0 \<notin> set ys \<Longrightarrow> length ys = n \<Longrightarrow> strncmp_equal n xs (ys @ zs) \<longleftrightarrow> take n xs = ys"
proof (induction n arbitrary: xs ys)
  case (Suc n)
  then obtain y ys' where "ys = y # ys'" by (cases ys) auto
  then show ?case using Suc by (cases xs) auto
qed simp

lemma strncmp_equal_sym: "strncmp_equal n xs ys \<longleftrightarrow> strncmp_equal n ys xs"
  by (induction n xs ys rule: strncmp_equal.induct) auto

subsection \<open>Printing\<close>

text \<open>A signed integer as the formatting functions print it.\<close>

fun digits :: "nat \<Rightarrow> string" where
  "digits n = (if n < 10 then [char_of (48 + n)] else digits (n div 10) @ [char_of (48 + n mod 10)])"

definition show_int :: "int \<Rightarrow> string" where
  "show_int i = (if i < 0 then CHR ''-'' # digits (nat (- i)) else digits (nat i))"

lemma digits_bounds: "n < 10 ^ Suc k \<Longrightarrow> length (digits n) \<le> Suc k" "10 ^ k \<le> n \<Longrightarrow> Suc k \<le> length (digits n)"
proof -
  show "n < 10 ^ Suc k \<Longrightarrow> length (digits n) \<le> Suc k"
  proof (induction k arbitrary: n)
    case (Suc k)
    then have "n div 10 < 10 ^ Suc k" by (simp add: less_mult_imp_div_less mult.commute)
    then show ?case using Suc.IH [of "n div 10"] by (subst digits.simps) simp
  qed simp
  show "10 ^ k \<le> n \<Longrightarrow> Suc k \<le> length (digits n)"
  proof (induction k arbitrary: n)
    case (Suc k)
    then have "10 ^ k \<le> n div 10" by (simp add: less_eq_div_iff_mult_less_eq mult.commute)
    moreover have "\<not> n < 10" using Suc.prems by (metis one_le_numeral one_le_power le_trans mult_le_mono2 not_less nat_mult_1_right power_Suc)
    ultimately show ?case using Suc.IH [of "n div 10"] by (subst digits.simps) simp
  qed (subst digits.simps, simp)
qed

declare digits.simps [simp del]

lemma digits_not_empty [simp]: "digits n \<noteq> []"
  by (subst digits.simps) simp

text \<open>\<open>%0nd\<close> and \<open>%-ns\<close>.\<close>

definition zero_pad :: "nat \<Rightarrow> int \<Rightarrow> string" where
  "zero_pad w i = (let s = show_int i in replicate (w - length s) CHR ''0'' @ s)"

definition left_pad :: "nat \<Rightarrow> string \<Rightarrow> string" where
  "left_pad w s = s @ replicate (w - length s) CHR '' ''"

end
