(* ===== verification/Buffer.thy ===== *)
theory Buffer
  imports PL_Prelude
begin

text \<open>
  \<^verbatim>\<open>_framework/buffer.h\<close>: the byte buffers.  \<open>BufferBase\<close> is a linear buffer, \<open>CircleBuffer\<close> the
  ring the received stream is collected in, \<open>NetworkBuffer\<close> the block handed to the socket calls.
  Pointers into the block are offsets from \<open>_pBuffer\<close>; \<open>ULONG\<close> counters are 32-bit words.  The ring
  is shown to refine a byte queue, stated as the locale \<open>byte_ring\<close> the connector relies on.
\<close>

subsection \<open>BufferBase\<close>

record buffer =
  pBuffer :: bytes
  nDataSize :: u32
  nBufferSize :: u32
  pHead :: nat
  pTail :: nat
  pRead :: nat
  pWrite :: nat

definition MAX_PACKET_BUFFER_SIZE :: u32 where
  "MAX_PACKET_BUFFER_SIZE = 1024 * 10"

text \<open>\<open>junk\<close> is the content \<open>new char[size + 1]\<close> happens to have.\<close>

definition BufferBase :: "(nat \<Rightarrow> byte) \<Rightarrow> u32 \<Rightarrow> buffer" where
  "BufferBase junk sz =
     \<lparr>pBuffer = map junk [0..<unat (sz + 1)], nDataSize = 0, nBufferSize = sz,
      pHead = 0, pTail = unat sz, pRead = 0, pWrite = 0\<rparr>"

definition Reset :: "'a buffer_scheme \<Rightarrow> 'a buffer_scheme option" where
  "Reset b = do {
     m \<leftarrow> mem_write (pBuffer b) 0 (replicate (unat (nBufferSize b)) 0);
     Some (b\<lparr>nDataSize := 0, pRead := pHead b, pWrite := pHead b, pBuffer := m\<rparr>) }"

definition GetDataSize :: "buffer \<Rightarrow> u32" where
  "GetDataSize b = nDataSize b"

definition GetEmptySize :: "buffer \<Rightarrow> u32" where
  "GetEmptySize b = nBufferSize b - nDataSize b"

definition BufferBase_Write :: "buffer \<Rightarrow> bytes \<Rightarrow> u64 \<Rightarrow> (u32 \<times> buffer) option" where
  "BufferBase_Write b src len =
     (if ucast (GetEmptySize b) < len then Some (- 1, b)
      else do {
        xs \<leftarrow> mem_read src 0 (unat len);
        m \<leftarrow> mem_write (pBuffer b) (pWrite b) xs;
        let b' = b\<lparr>pBuffer := m, pWrite := pWrite b + unat len,
                   nDataSize := nDataSize b + ucast len\<rparr>;
        Some (GetEmptySize b', b') })"

text \<open>\<open>Read\<close> yields the copied bytes beside its result; the caller owns the destination.\<close>

definition BufferBase_Read :: "buffer \<Rightarrow> u64 \<Rightarrow> (u32 \<times> bytes \<times> buffer) option" where
  "BufferBase_Read b len =
     (if ucast (GetDataSize b) < len then Some (- 1, [], b)
      else do {
        xs \<leftarrow> mem_read (pBuffer b) (pRead b) (unat len);
        let b' = b\<lparr>pRead := pRead b + unat len, nDataSize := nDataSize b - ucast len\<rparr>;
        Some (GetDataSize b', xs, b') })"

subsection \<open>CircleBuffer\<close>

definition CircleBuffer_Write :: "buffer \<Rightarrow> bytes \<Rightarrow> u32 \<Rightarrow> (u32 \<times> buffer) option" where
  "CircleBuffer_Write b src nLen =
     (let empty = nBufferSize b - nDataSize b in
      if nDataSize b > nBufferSize b \<or> empty < nLen then Some (- 1, b)
      else
        let gap = int (pTail b) - int (pWrite b) in
        if gap < uint nLen then do {
          xs \<leftarrow> mem_read src 0 (to_size_t gap);
          m \<leftarrow> mem_write (pBuffer b) (pWrite b) xs;
          ys \<leftarrow> mem_read src (nat gap) (to_size_t (uint nLen - gap));
          m' \<leftarrow> mem_write m (pHead b) ys;
          let b' = b\<lparr>pBuffer := m', pWrite := pHead b + nat (uint nLen - gap),
                     nDataSize := nDataSize b + nLen\<rparr>;
          Some (nDataSize b', b') }
        else do {
          xs \<leftarrow> mem_read src 0 (unat nLen);
          m \<leftarrow> mem_write (pBuffer b) (pWrite b) xs;
          let b' = b\<lparr>pBuffer := m, pWrite := pWrite b + unat nLen,
                     nDataSize := nDataSize b + nLen\<rparr>;
          Some (nDataSize b', b') })"

text \<open>\<open>Read\<close> copies without consuming; \<open>Erase\<close> consumes.\<close>

definition CircleBuffer_Read :: "buffer \<Rightarrow> u32 \<Rightarrow> (u32 \<times> bytes) option" where
  "CircleBuffer_Read b nReqSize =
     (if nDataSize b < nReqSize then Some (- 1, [])
      else
        let pMark = pRead b; gap = int (pTail b) - int pMark in
        if gap < uint nReqSize then do {
          xs \<leftarrow> mem_read (pBuffer b) pMark (to_size_t gap);
          ys \<leftarrow> mem_read (pBuffer b) (pHead b) (to_size_t (uint nReqSize - gap));
          Some (nReqSize, xs @ ys) }
        else do {
          xs \<leftarrow> mem_read (pBuffer b) (pRead b) (unat nReqSize);
          Some (nReqSize, xs) })"

definition CircleBuffer_Erase :: "buffer \<Rightarrow> u32 \<Rightarrow> u32 \<times> buffer" where
  "CircleBuffer_Erase b releaseSize =
     (if nDataSize b < releaseSize then (- 1, b)
      else
        let gap = int (pTail b) - int (pRead b) in
        if gap < uint releaseSize then
          let b' = b\<lparr>pRead := pHead b + nat (uint releaseSize - gap),
                     nDataSize := nDataSize b - releaseSize\<rparr>
          in (nDataSize b', b')
        else
          let b' = b\<lparr>pRead := pRead b + unat releaseSize,
                     nDataSize := nDataSize b - releaseSize\<rparr>
          in (nDataSize b', b'))"

subsection \<open>NetworkBuffer\<close>

text \<open>
  \<open>_WSABuffer.buf\<close> is a pointer into the block (\<open>None\<close> while null); connectors are named by number.
\<close>

record network_buffer = buffer +
  WSABuffer_buf :: "nat option"
  WSABuffer_len :: u32
  nb_pConnector :: "nat option"

definition NetworkBuffer :: "(nat \<Rightarrow> byte) \<Rightarrow> network_buffer" where
  "NetworkBuffer junk =
     buffer.extend (BufferBase junk MAX_PACKET_BUFFER_SIZE)
       \<lparr>WSABuffer_buf = None, WSABuffer_len = 0, nb_pConnector = None\<rparr>"

definition SetSendData ::
  "network_buffer \<Rightarrow> nat option \<Rightarrow> bytes option \<Rightarrow> u32 \<Rightarrow> (int \<times> network_buffer) option" where
  "SetSendData nb pConnector pData n =
     (case pData of
        None \<Rightarrow> Some (- 1, nb)
      | Some src \<Rightarrow>
          if nBufferSize nb < n then Some (- 1, nb)
          else do {
            xs \<leftarrow> mem_read src 0 (unat n);
            m \<leftarrow> mem_write (pBuffer nb) 0 xs;
            Some (sint n, nb\<lparr>pBuffer := m, nDataSize := n, WSABuffer_buf := Some 0,
                             WSABuffer_len := n, nb_pConnector := pConnector\<rparr>) })"

definition SetRecvData :: "network_buffer \<Rightarrow> nat option \<Rightarrow> int \<times> network_buffer" where
  "SetRecvData nb pConnector =
     (sint (nBufferSize nb),
      nb\<lparr>nDataSize := 0, WSABuffer_buf := Some 0, WSABuffer_len := nBufferSize nb,
         nb_pConnector := pConnector\<rparr>)"

definition SetAcceptData :: "network_buffer \<Rightarrow> nat option \<Rightarrow> int \<times> network_buffer" where
  "SetAcceptData nb pConnector =
     (sint (nBufferSize nb),
      nb\<lparr>nDataSize := 0, WSABuffer_buf := Some 0, WSABuffer_len := nBufferSize nb,
         nb_pConnector := pConnector\<rparr>)"

subsection \<open>The ring as a byte queue\<close>

abbreviation ring_size :: "buffer \<Rightarrow> nat" where
  "ring_size b \<equiv> unat (nBufferSize b)"

abbreviation ring_used :: "buffer \<Rightarrow> nat" where
  "ring_used b \<equiv> unat (nDataSize b)"

definition ring_idx :: "nat \<Rightarrow> nat \<Rightarrow> nat \<Rightarrow> nat" where
  "ring_idx s r i = (if r + i < s then r + i else r + i - s)"

definition circle_ok :: "buffer \<Rightarrow> bool" where
  "circle_ok b \<longleftrightarrow>
     pHead b = 0 \<and> pTail b = ring_size b \<and> length (pBuffer b) = ring_size b + 1 \<and>
     pRead b \<le> ring_size b \<and> ring_used b \<le> ring_size b \<and>
     pWrite b = (if pRead b + ring_used b \<le> ring_size b then pRead b + ring_used b
                 else pRead b + ring_used b - ring_size b)"

definition ring_contents :: "buffer \<Rightarrow> bytes" where
  "ring_contents b =
     map (\<lambda>i. pBuffer b ! ring_idx (ring_size b) (pRead b) i) [0..<ring_used b]"

lemma length_ring_contents [simp]: "length (ring_contents b) = ring_used b"
  by (simp add: ring_contents_def)

lemma nth_ring_contents:
  "i < ring_used b \<Longrightarrow> ring_contents b ! i = pBuffer b ! ring_idx (ring_size b) (pRead b) i"
  by (simp add: ring_contents_def)

lemma gap_less [word_conv]: "int a - int b < uint w \<longleftrightarrow> a < b + unat w"
  using uint_nat [of w] by linarith

lemma nat_uint_diff [word_conv]: "nat (uint w - int g) = unat w - g"
  using uint_nat [of w] by linarith

lemma to_size_t_int [word_conv]: "n < 2 ^ 64 \<Longrightarrow> to_size_t (int n) = n"
  by (simp add: to_size_t_def zmod_int [symmetric] flip: of_nat_mod)

lemma unat_lt_2_32: "unat (w :: u32) < 2 ^ 32"
  using unsigned_less [where 'a = nat, of w] by simp

lemma to_size_t_uint_diff [word_conv]:
  "g \<le> unat (w :: u32) \<Longrightarrow> to_size_t (uint w - int g) = unat w - g"
proof -
  assume g: "g \<le> unat w"
  have "0 \<le> uint w - int g" using uint_nat [of w] g by linarith
  moreover have "uint w < 2 ^ 64" by (rule less_le_trans [OF uint_lt2p]) simp
  then have "uint w - int g < 2 ^ 64" by linarith
  ultimately show ?thesis by (simp add: to_size_t_nonneg word_conv)
qed

lemma unat_suc_u32: "(w :: u32) \<noteq> - 1 \<Longrightarrow> unat (w + 1) = unat w + 1"
  by (metis Suc_eq_plus1 add.commute eq_neg_iff_add_eq_0 unatSuc)

lemma unat_diff_le: "(v :: 'a::len word) \<le> w \<Longrightarrow> unat (w - v) = unat w - unat v"
  by (rule unat_sub)

lemma unat_add_fits: "unat (v :: u32) + unat w < 2 ^ 32 \<Longrightarrow> unat (v + w) = unat v + unat w"
  by (simp add: unat_word_ariths)

lemma circle_ok_fresh:
  "sz \<noteq> - 1 \<Longrightarrow> circle_ok (BufferBase junk sz) \<and> ring_contents (BufferBase junk sz) = []"
  by (simp add: BufferBase_def circle_ok_def ring_contents_def unat_suc_u32)

text \<open>The guard of \<open>Write\<close> under the invariant: refuse exactly what does not fit.\<close>

lemma circle_guard:
  assumes "circle_ok b"
  shows "(nDataSize b > nBufferSize b \<or> nBufferSize b - nDataSize b < nLen) \<longleftrightarrow>
         ring_size b < ring_used b + unat nLen"
proof -
  have le: "nDataSize b \<le> nBufferSize b"
    using assms by (simp add: circle_ok_def word_le_nat_alt)
  then show ?thesis
    using le by (auto simp: word_less_nat_alt word_le_nat_alt unat_diff_le)
qed

lemma CircleBuffer_Write_full:
  assumes "circle_ok b" and "ring_size b < ring_used b + unat nLen"
  shows "CircleBuffer_Write b src nLen = Some (- 1, b)"
  using circle_guard [OF assms(1), of nLen] assms(2) by (auto simp: CircleBuffer_Write_def Let_def)

lemma CircleBuffer_Write_fits:
  assumes ok: "circle_ok b" and fits: "ring_used b + unat nLen \<le> ring_size b"
    and src: "unat nLen \<le> length src"
  shows "\<exists>b'. CircleBuffer_Write b src nLen = Some (nDataSize b + nLen, b') \<and> circle_ok b' \<and>
    ring_contents b' = ring_contents b @ take (unat nLen) src \<and> nBufferSize b' = nBufferSize b"
proof -
  let ?S = "ring_size b" and ?n = "ring_used b" and ?l = "unat nLen" and ?r = "pRead b"
  let ?w = "pWrite b"
  have hd: "pHead b = 0" and tl: "pTail b = ?S" and len: "length (pBuffer b) = ?S + 1"
    and r: "?r \<le> ?S" and n: "?n \<le> ?S"
    and w: "?w = (if ?r + ?n \<le> ?S then ?r + ?n else ?r + ?n - ?S)"
    using ok by (simp_all add: circle_ok_def)
  have S32: "?S < 2 ^ 32" by (rule unat_lt_2_32)
  have used: "unat (nDataSize b + nLen) = ?n + ?l"
    using fits S32 by (intro unat_add_fits) simp
  have guard: "\<not> (nDataSize b > nBufferSize b \<or> nBufferSize b - nDataSize b < nLen)"
    using circle_guard [OF ok, of nLen] fits by simp
  have wS: "?w \<le> ?S" using w r n by (auto split: if_splits)
  show ?thesis
  proof (cases "int (pTail b) - int ?w < uint nLen")
    case False
    then have room: "?w + ?l \<le> ?S" using tl unfolding gap_less by simp
    define m where "m = take ?w (pBuffer b) @ take ?l src @ drop (?w + ?l) (pBuffer b)"
    define b' where "b' = b\<lparr>pBuffer := m, pWrite := ?w + ?l, nDataSize := nDataSize b + nLen\<rparr>"
    have wr: "mem_write (pBuffer b) ?w (take ?l src) = Some m"
      using room len src by (simp add: m_def mem_simps min_def)
    have "CircleBuffer_Write b src nLen = Some (nDataSize b + nLen, b')"
      using guard False src wr by (simp add: CircleBuffer_Write_def Let_def mem_simps b'_def)
    moreover have "circle_ok b'"
      using hd tl len r w used fits room mem_write_length [OF wr]
      by (auto simp: circle_ok_def b'_def)
    moreover have "ring_contents b' = ring_contents b @ take ?l src"
    proof (rule nth_equalityI)
      show "length (ring_contents b') = length (ring_contents b @ take ?l src)"
        using used src by (simp add: b'_def)
    next
      fix i assume "i < length (ring_contents b')"
      then have i: "i < ?n + ?l" using used by (simp add: b'_def)
      let ?k = "ring_idx ?S ?r i"
      have idx: "?k < length (pBuffer b)"
        using r len i fits by (auto simp: ring_idx_def)
      have "m ! ?k = (if ?w \<le> ?k \<and> ?k < ?w + ?l then src ! (?k - ?w) else pBuffer b ! ?k)"
        using mem_write_nth [OF wr idx] src by auto
      then show "ring_contents b' ! i = (ring_contents b @ take ?l src) ! i"
        using i used r w room fits src
        by (auto simp: b'_def nth_ring_contents nth_append ring_idx_def split: if_splits)
    qed
    ultimately show ?thesis by (auto simp: b'_def)
  next
    case True
    then have wrap: "?S < ?w + ?l" using tl unfolding gap_less by simp
    let ?g = "?S - ?w"
    have g: "int (pTail b) - int ?w = int ?g" using tl wS by simp
    have gl: "?g < ?l" using wrap wS by simp
    have l32: "?l < 2 ^ 32" by (rule unat_lt_2_32)
    have cnv: "to_size_t (int ?g) = ?g" "to_size_t (uint nLen - int ?g) = ?l - ?g"
      "nat (uint nLen - int ?g) = ?l - ?g"
      using gl l32 S32 by (simp_all add: word_conv)
    obtain m where wr: "mem_write (pBuffer b) ?w (take ?g src) = Some m"
      using len wS gl src by (simp add: mem_simps)
    have lm: "length m = ?S + 1" using mem_write_length [OF wr] len by simp
    let ?ys = "take (?l - ?g) (drop ?g src)"
    have ys: "length ?ys = ?l - ?g" using src by simp
    obtain m' where wr': "mem_write m 0 ?ys = Some m'"
      using lm ys fits by (simp add: mem_simps)
    have lm': "length m' = ?S + 1" using mem_write_length [OF wr'] lm by simp
    define b' where "b' = b\<lparr>pBuffer := m', pWrite := ?l - ?g, nDataSize := nDataSize b + nLen\<rparr>"
    have rd: "mem_read src 0 ?g = Some (take ?g src)" "mem_read src ?g (?l - ?g) = Some ?ys"
      using src gl by (simp_all add: mem_simps)
    have "CircleBuffer_Write b src nLen = Some (nDataSize b + nLen, b')"
      using guard True hd
      by (simp add: CircleBuffer_Write_def Let_def g cnv rd wr wr' b'_def)
    moreover have "circle_ok b'"
      using hd tl r w used fits wrap lm' wS by (auto simp: circle_ok_def b'_def split: if_splits)
    moreover have "ring_contents b' = ring_contents b @ take ?l src"
    proof (rule nth_equalityI)
      show "length (ring_contents b') = length (ring_contents b @ take ?l src)"
        using used src by (simp add: b'_def)
    next
      fix i assume "i < length (ring_contents b')"
      then have i: "i < ?n + ?l" using used by (simp add: b'_def)
      let ?k = "ring_idx ?S ?r i"
      have idx: "?k < length (pBuffer b)" "?k < length m"
        using r len i fits lm by (auto simp: ring_idx_def)
      have "m' ! ?k = (if ?k < ?l - ?g then src ! (?g + ?k)
            else if ?w \<le> ?k \<and> ?k < ?w + ?g then src ! (?k - ?w) else pBuffer b ! ?k)"
        using mem_write_nth [OF wr' idx(2)] mem_write_nth [OF wr idx(1)] ys src gl by auto
      then show "ring_contents b' ! i = (ring_contents b @ take ?l src) ! i"
        using i used r w wrap fits src gl
        by (auto simp: b'_def nth_ring_contents nth_append ring_idx_def split: if_splits)
    qed
    ultimately show ?thesis by (auto simp: b'_def)
  qed
qed

lemma CircleBuffer_Read_short:
  "ring_used b < unat nReq \<Longrightarrow> CircleBuffer_Read b nReq = Some (- 1, [])"
  by (simp add: CircleBuffer_Read_def word_less_nat_alt)

lemma CircleBuffer_Read_ok:
  assumes ok: "circle_ok b" and req: "unat nReq \<le> ring_used b"
  shows "CircleBuffer_Read b nReq = Some (nReq, take (unat nReq) (ring_contents b))"
proof -
  let ?S = "ring_size b" and ?l = "unat nReq" and ?r = "pRead b"
  have hd: "pHead b = 0" and tl: "pTail b = ?S" and len: "length (pBuffer b) = ?S + 1"
    and r: "?r \<le> ?S" and n: "ring_used b \<le> ?S"
    using ok by (simp_all add: circle_ok_def)
  have S32: "?S < 2 ^ 32" by (rule unat_lt_2_32)
  have guard: "\<not> nDataSize b < nReq" using req by (simp add: word_less_nat_alt)
  show ?thesis
  proof (cases "int (pTail b) - int ?r < uint nReq")
    case False
    then have room: "?r + ?l \<le> ?S" using tl unfolding gap_less by simp
    have "take ?l (drop ?r (pBuffer b)) = take ?l (ring_contents b)"
      using room len req
      by (intro nth_equalityI) (auto simp: nth_ring_contents ring_idx_def)
    then show ?thesis
      using guard False room len by (simp add: CircleBuffer_Read_def Let_def mem_simps)
  next
    case True
    then have wrap: "?S < ?r + ?l" using tl unfolding gap_less by simp
    let ?g = "?S - ?r"
    have g: "int (pTail b) - int ?r = int ?g" using tl r by simp
    have cnv: "to_size_t (int ?g) = ?g" "to_size_t (uint nReq - int ?g) = ?l - ?g"
      using wrap S32 by (simp_all add: word_conv)
    have "take ?g (drop ?r (pBuffer b)) @ take (?l - ?g) (pBuffer b) = take ?l (ring_contents b)"
    proof (rule nth_equalityI)
      show "length (take ?g (drop ?r (pBuffer b)) @ take (?l - ?g) (pBuffer b)) =
            length (take ?l (ring_contents b))"
        using len req n wrap r by simp
    next
      fix i
      assume "i < length (take ?g (drop ?r (pBuffer b)) @ take (?l - ?g) (pBuffer b))"
      then have "i < ?l" using len req n wrap r by simp
      then show "(take ?g (drop ?r (pBuffer b)) @ take (?l - ?g) (pBuffer b)) ! i =
                 take ?l (ring_contents b) ! i"
        using len req n wrap r by (auto simp: nth_append nth_ring_contents ring_idx_def ac_simps)
    qed
    moreover have "mem_read (pBuffer b) ?r ?g = Some (take ?g (drop ?r (pBuffer b)))"
      "mem_read (pBuffer b) 0 (?l - ?g) = Some (take (?l - ?g) (pBuffer b))"
      using len r req n by (simp_all add: mem_simps)
    ultimately show ?thesis
      using guard True hd by (simp add: CircleBuffer_Read_def Let_def g cnv)
  qed
qed

lemma CircleBuffer_Erase_short:
  "ring_used b < unat k \<Longrightarrow> CircleBuffer_Erase b k = (- 1, b)"
  by (simp add: CircleBuffer_Erase_def word_less_nat_alt)

lemma CircleBuffer_Erase_ok:
  assumes ok: "circle_ok b" and k: "unat k \<le> ring_used b"
  shows "\<exists>b'. CircleBuffer_Erase b k = (nDataSize b', b') \<and> circle_ok b' \<and>
    ring_contents b' = drop (unat k) (ring_contents b) \<and> nBufferSize b' = nBufferSize b"
proof -
  let ?S = "ring_size b" and ?n = "ring_used b" and ?l = "unat k" and ?r = "pRead b"
  have hd: "pHead b = 0" and tl: "pTail b = ?S" and len: "length (pBuffer b) = ?S + 1"
    and r: "?r \<le> ?S" and n: "?n \<le> ?S"
    and w: "pWrite b = (if ?r + ?n \<le> ?S then ?r + ?n else ?r + ?n - ?S)"
    using ok by (simp_all add: circle_ok_def)
  have guard: "\<not> nDataSize b < k" using k by (simp add: word_less_nat_alt)
  have used: "unat (nDataSize b - k) = ?n - ?l" using k by (simp add: unat_diff_le word_le_nat_alt)
  define r' where "r' = (if ?S < ?r + ?l then ?l - (?S - ?r) else ?r + ?l)"
  define b' where "b' = b\<lparr>pRead := r', nDataSize := nDataSize b - k\<rparr>"
  have "CircleBuffer_Erase b k = (nDataSize b', b')"
  proof (cases "?S < ?r + ?l")
    case True
    then have "int (pTail b) - int ?r < uint k" using tl unfolding gap_less by simp
    moreover have "nat (uint k - (int (pTail b) - int ?r)) = ?l - (?S - ?r)"
      using tl r nat_uint_diff [of k "?S - ?r"] by (simp add: of_nat_diff)
    ultimately show ?thesis
      using guard True hd by (simp add: CircleBuffer_Erase_def Let_def b'_def r'_def)
  next
    case False
    then have "\<not> int (pTail b) - int ?r < uint k" using tl unfolding gap_less by simp
    then show ?thesis using guard False by (simp add: CircleBuffer_Erase_def Let_def b'_def r'_def)
  qed
  moreover have "circle_ok b'"
    using hd tl len r n w used k by (auto simp: circle_ok_def b'_def r'_def)
  moreover have "ring_contents b' = drop ?l (ring_contents b)"
    using r n used k
    by (intro nth_equalityI) (auto simp: b'_def r'_def nth_ring_contents ring_idx_def ac_simps)
  ultimately show ?thesis by (auto simp: b'_def)
qed

subsection \<open>The interface the stream reader relies on\<close>

text \<open>
  Appending a sequence of chunks, as successive receive completions do.
\<close>

primrec feed :: "('b \<Rightarrow> bytes \<Rightarrow> u32 \<Rightarrow> (u32 \<times> 'b) option) \<Rightarrow> 'b \<Rightarrow> bytes list \<Rightarrow> 'b option"
where
  "feed put b [] = Some b"
| "feed put b (c # cs) = do { (r, b') \<leftarrow> put b c (of_nat (length c)); feed put b' cs }"

locale byte_ring =
  fixes invar :: "'b \<Rightarrow> bool"
    and contents :: "'b \<Rightarrow> bytes"
    and capacity :: "'b \<Rightarrow> nat"
    and put :: "'b \<Rightarrow> bytes \<Rightarrow> u32 \<Rightarrow> (u32 \<times> 'b) option"
    and peek :: "'b \<Rightarrow> u32 \<Rightarrow> (u32 \<times> bytes) option"
    and discard :: "'b \<Rightarrow> u32 \<Rightarrow> u32 \<times> 'b"
  assumes within: "invar b \<Longrightarrow> length (contents b) \<le> capacity b"
    and capacity_32: "capacity b < 2 ^ 32"
    and put_fits: "invar b \<Longrightarrow> length (contents b) + unat n \<le> capacity b \<Longrightarrow> unat n \<le> length src \<Longrightarrow>
      \<exists>b'. put b src n = Some (of_nat (length (contents b')), b') \<and> invar b' \<and>
           contents b' = contents b @ take (unat n) src \<and> capacity b' = capacity b"
    and put_full: "invar b \<Longrightarrow> capacity b < length (contents b) + unat n \<Longrightarrow>
      put b src n = Some (- 1, b)"
    and peek_ok: "invar b \<Longrightarrow> unat n \<le> length (contents b) \<Longrightarrow>
      peek b n = Some (n, take (unat n) (contents b))"
    and peek_short: "invar b \<Longrightarrow> length (contents b) < unat n \<Longrightarrow> peek b n = Some (- 1, [])"
    and discard_ok: "invar b \<Longrightarrow> unat n \<le> length (contents b) \<Longrightarrow>
      \<exists>b'. discard b n = (of_nat (length (contents b')), b') \<and> invar b' \<and>
           contents b' = drop (unat n) (contents b) \<and> capacity b' = capacity b"
    and discard_short: "invar b \<Longrightarrow> length (contents b) < unat n \<Longrightarrow> discard b n = (- 1, b)"
begin

lemma feed_concat:
  assumes "invar b" and "length (contents b) + length (concat cs) \<le> capacity b"
  shows "\<exists>b'. feed put b cs = Some b' \<and> invar b' \<and> contents b' = contents b @ concat cs \<and>
    capacity b' = capacity b"
  using assms
proof (induction cs arbitrary: b)
  case Nil
  then show ?case by simp
next
  case (Cons c cs)
  have n: "unat (of_nat (length c) :: u32) = length c"
    using Cons.prems(2) capacity_32 [of b] by (simp add: unat_of_nat)
  obtain b1 where "put b c (of_nat (length c)) = Some (of_nat (length (contents b1)), b1)"
    and ok: "invar b1" and cont: "contents b1 = contents b @ c" and cap: "capacity b1 = capacity b"
    using put_fits [OF Cons.prems(1), of "of_nat (length c)" c] Cons.prems(2) n by auto
  moreover have "length (contents b1) + length (concat cs) \<le> capacity b1"
    using Cons.prems(2) cont cap by simp
  ultimately show ?case using Cons.IH [OF ok] cont cap by auto
qed

lemma peek_discard_split:
  assumes "invar b" and "unat n \<le> length (contents b)"
  shows "\<exists>xs b'. peek b n = Some (n, xs) \<and> discard b n = (of_nat (length (contents b')), b') \<and>
    invar b' \<and> length xs = unat n \<and> contents b = xs @ contents b' \<and> capacity b' = capacity b"
  using peek_ok [OF assms] discard_ok [OF assms] assms(2) by (auto simp: min_def)

lemma put_total: "invar b \<Longrightarrow> unat n \<le> length src \<Longrightarrow> \<exists>r b'. put b src n = Some (r, b') \<and> invar b'"
  by (metis put_fits put_full not_less)

lemma peek_total: "invar b \<Longrightarrow> \<exists>r xs. peek b n = Some (r, xs)"
  by (metis peek_ok peek_short not_less)

end

interpretation circle: byte_ring circle_ok ring_contents ring_size
  CircleBuffer_Write CircleBuffer_Read CircleBuffer_Erase
proof (unfold_locales, goal_cases)
  case (1 b)
  then show ?case by (simp add: circle_ok_def)
next
  case (2 b)
  show ?case by (rule unat_lt_2_32)
next
  case (3 b n src)
  then obtain b' where b': "CircleBuffer_Write b src n = Some (nDataSize b + n, b')" "circle_ok b'"
    "ring_contents b' = ring_contents b @ take (unat n) src" "nBufferSize b' = nBufferSize b"
    using CircleBuffer_Write_fits [of b n src] by auto
  moreover have "nDataSize b + n = of_nat (length (ring_contents b'))"
    using b'(3) 3 by (simp add: min_def)
  ultimately show ?case by (intro exI [of _ b']) simp
next
  case (4 b n src)
  then show ?case by (simp add: CircleBuffer_Write_full)
next
  case (5 b n)
  then show ?case by (simp add: CircleBuffer_Read_ok)
next
  case (6 b n)
  then show ?case by (simp add: CircleBuffer_Read_short)
next
  case (7 b n)
  then show ?case using CircleBuffer_Erase_ok [of b n] by fastforce
next
  case (8 b n)
  then show ?case by (simp add: CircleBuffer_Erase_short)
qed

subsection \<open>BufferBase as a linear buffer\<close>

definition linear_ok :: "buffer \<Rightarrow> bool" where
  "linear_ok b \<longleftrightarrow>
     length (pBuffer b) = ring_size b + 1 \<and> pRead b \<le> pWrite b \<and> pWrite b \<le> ring_size b \<and>
     ring_used b = pWrite b - pRead b"

definition linear_contents :: "buffer \<Rightarrow> bytes" where
  "linear_contents b = take (ring_used b) (drop (pRead b) (pBuffer b))"

lemma length_linear_contents [simp]: "linear_ok b \<Longrightarrow> length (linear_contents b) = ring_used b"
  by (auto simp: linear_ok_def linear_contents_def)

lemma unat_ucast_64 [simp]: "unat (ucast (w :: u32) :: u64) = unat w"
  using unat_lt_2_32 [of w] by (simp add: unsigned_ucast_eq take_bit_nat_eq_self)

lemma unat_ucast_32_fits: "unat (w :: u64) < 2 ^ 32 \<Longrightarrow> unat (ucast w :: u32) = unat w"
  by (simp add: unsigned_ucast_eq take_bit_nat_eq_self)

lemma linear_ok_fresh:
  "sz \<noteq> - 1 \<Longrightarrow> linear_ok (BufferBase junk sz) \<and> linear_contents (BufferBase junk sz) = []"
  by (simp add: BufferBase_def linear_ok_def linear_contents_def unat_suc_u32)

lemma empty_size_linear:
  "linear_ok b \<Longrightarrow> unat (GetEmptySize b) = ring_size b - ring_used b"
  unfolding linear_ok_def GetEmptySize_def by (rule unat_diff_le) (auto simp: word_le_nat_alt)

lemma BufferBase_Write_full:
  "linear_ok b \<Longrightarrow> ring_size b < ring_used b + unat len \<Longrightarrow> BufferBase_Write b src len = Some (- 1, b)"
  by (auto simp: BufferBase_Write_def word_less_nat_alt empty_size_linear linear_ok_def)

lemma BufferBase_Write_fits:
  assumes ok: "linear_ok b" and room: "pWrite b + unat len \<le> ring_size b"
    and src: "unat len \<le> length src"
  shows "\<exists>b'. BufferBase_Write b src len = Some (GetEmptySize b', b') \<and> linear_ok b' \<and>
    linear_contents b' = linear_contents b @ take (unat len) src \<and>
    nBufferSize b' = nBufferSize b \<and> pRead b' = pRead b \<and> pWrite b' = pWrite b + unat len"
proof -
  let ?l = "unat len" and ?w = "pWrite b" and ?S = "ring_size b"
  have S32: "?S < 2 ^ 32" by (rule unat_lt_2_32)
  have len: "length (pBuffer b) = ?S + 1" and r: "pRead b \<le> ?w" and n: "ring_used b = ?w - pRead b"
    using ok by (simp_all add: linear_ok_def)
  have l: "unat (ucast len :: u32) = ?l"
    using room S32 by (intro unat_ucast_32_fits) simp
  have guard: "\<not> ucast (GetEmptySize b) < len"
    using room n by (simp add: word_less_nat_alt empty_size_linear [OF ok])
  define m where "m = take ?w (pBuffer b) @ take ?l src @ drop (?w + ?l) (pBuffer b)"
  define b' where "b' = b\<lparr>pBuffer := m, pWrite := ?w + ?l, nDataSize := nDataSize b + ucast len\<rparr>"
  have wr: "mem_write (pBuffer b) ?w (take ?l src) = Some m"
    using room len src by (simp add: m_def mem_simps min_def)
  have used: "unat (nDataSize b + ucast len) = ring_used b + ?l"
    using l n room S32 by (subst unat_add_fits) auto
  have "BufferBase_Write b src len = Some (GetEmptySize b', b')"
    using guard src wr by (simp add: BufferBase_Write_def Let_def mem_simps b'_def)
  moreover have "linear_ok b'"
    using len r n room used mem_write_length [OF wr] by (simp add: linear_ok_def b'_def)
  moreover have "linear_contents b' = linear_contents b @ take ?l src"
    using used n r room len src by (simp add: linear_contents_def b'_def m_def drop_take)
  ultimately show ?thesis by (auto simp: b'_def)
qed

lemma BufferBase_Read_short:
  "ring_used b < unat len \<Longrightarrow> BufferBase_Read b len = Some (- 1, [], b)"
  by (simp add: BufferBase_Read_def GetDataSize_def word_less_nat_alt)

lemma BufferBase_Read_ok:
  assumes ok: "linear_ok b" and len: "unat len \<le> ring_used b"
  shows "\<exists>b'. BufferBase_Read b len = Some (nDataSize b', take (unat len) (linear_contents b), b') \<and>
    linear_ok b' \<and> linear_contents b' = drop (unat len) (linear_contents b) \<and>
    nBufferSize b' = nBufferSize b"
proof -
  let ?l = "unat len"
  define b' where "b' = b\<lparr>pRead := pRead b + ?l, nDataSize := nDataSize b - ucast len\<rparr>"
  have n32: "ring_used b < 2 ^ 32" by (rule unat_lt_2_32)
  have l: "unat (ucast len :: u32) = ?l" using len n32 by (intro unat_ucast_32_fits) simp
  have used: "unat (nDataSize b - ucast len) = ring_used b - ?l"
    using len l by (simp add: unat_diff_le word_le_nat_alt)
  have "BufferBase_Read b len = Some (nDataSize b', take ?l (linear_contents b), b')"
    using ok len by (auto simp: BufferBase_Read_def GetDataSize_def word_less_nat_alt mem_simps
        linear_ok_def linear_contents_def b'_def min_def)
  moreover have "linear_ok b'"
    using ok len used by (auto simp: linear_ok_def b'_def)
  moreover have "linear_contents b' = drop ?l (linear_contents b)"
    using used by (simp add: linear_contents_def b'_def drop_take add.commute)
  ultimately show ?thesis by (auto simp: b'_def)
qed

text \<open>
  The guard of \<open>BufferBase::Write\<close> compares with the free count, not with the room behind the write
  pointer: once bytes have been read, a write that the guard lets through can leave the block.
\<close>

lemma BufferBase_Write_overflow:
  assumes "linear_ok b" and "ring_used b + unat len \<le> ring_size b"
    and "ring_size b + 1 < pWrite b + unat len" and "unat len \<le> length src"
  shows "BufferBase_Write b src len = None"
proof -
  have "\<not> ucast (GetEmptySize b) < len"
    using assms(1,2) by (simp add: word_less_nat_alt empty_size_linear [OF assms(1)])
  moreover have "length (pBuffer b) = ring_size b + 1" using assms(1) by (simp add: linear_ok_def)
  ultimately show ?thesis
    using assms(3,4) by (simp add: BufferBase_Write_def mem_simps min_def)
qed

subsection \<open>Properties\<close>

text \<open>
  C5: \<open>CircleBuffer\<close> is a bounded byte queue.  However a byte stream is cut into receive chunks, as
  long as they fit the free space, writing them one by one succeeds inside the block, and afterwards
  reading and erasing any available count yields exactly the oldest bytes and leaves the rest, in
  order, across every wrap-around of the ring.
\<close>

theorem circle_buffer_is_fifo:
  assumes "circle_ok b" and "length (ring_contents b) + length (concat cs) \<le> ring_size b"
    and "unat n \<le> length (ring_contents b) + length (concat cs)"
  shows "\<exists>b1 b2. feed CircleBuffer_Write b cs = Some b1 \<and> circle_ok b1 \<and>
    CircleBuffer_Read b1 n = Some (n, take (unat n) (ring_contents b @ concat cs)) \<and>
    CircleBuffer_Erase b1 n = (nDataSize b2, b2) \<and> circle_ok b2 \<and>
    ring_contents b2 = drop (unat n) (ring_contents b @ concat cs)"
proof -
  obtain b1 where b1: "feed CircleBuffer_Write b cs = Some b1" "circle_ok b1"
    "ring_contents b1 = ring_contents b @ concat cs"
    using circle.feed_concat [OF assms(1,2)] by auto
  have n: "unat n \<le> ring_used b1" using assms(3) b1(3) length_ring_contents [of b1] by simp
  show ?thesis
    using b1 CircleBuffer_Read_ok [OF b1(2) n] CircleBuffer_Erase_ok [OF b1(2) n] by auto
qed

theorem circle_buffer_is_fifo_witness:
  "\<exists>b1 b2. feed CircleBuffer_Write (BufferBase (\<lambda>_. 0) 4) [[1, 2], [3]] = Some b1 \<and> circle_ok b1 \<and>
    CircleBuffer_Read b1 2 = Some (2, [1, 2]) \<and>
    CircleBuffer_Erase b1 2 = (nDataSize b2, b2) \<and> circle_ok b2 \<and> ring_contents b2 = [3]"
proof -
  have fresh: "circle_ok (BufferBase (\<lambda>_. 0) 4)" "ring_contents (BufferBase (\<lambda>_. 0) 4) = []"
    using circle_ok_fresh [of 4 "\<lambda>_. 0"] by auto
  show ?thesis
    using circle_buffer_is_fifo [of "BufferBase (\<lambda>_. 0) 4" "[[1, 2], [3]]" 2] fresh
    by (simp add: BufferBase_def)
qed

text \<open>
  C32: \<open>CircleBuffer::Write\<close> keeps the ring invariant on every call, never touches memory outside its
  block, refuses exactly the writes that do not fit (returning \<open>-1\<close> and changing nothing), and
  otherwise returns the new fill level and appends the bytes.
\<close>

theorem circle_write_total:
  assumes "circle_ok b" and "unat nLen \<le> length src"
  shows "\<exists>r b'. CircleBuffer_Write b src nLen = Some (r, b') \<and> circle_ok b' \<and>
    (if ring_size b < ring_used b + unat nLen then r = - 1 \<and> b' = b
     else unat r = ring_used b + unat nLen \<and> r = nDataSize b' \<and>
          ring_contents b' = ring_contents b @ take (unat nLen) src)"
proof (cases "ring_size b < ring_used b + unat nLen")
  case True
  then show ?thesis using assms(1) by (simp add: CircleBuffer_Write_full)
next
  case False
  then obtain b' where b': "CircleBuffer_Write b src nLen = Some (nDataSize b', b')"
    "circle_ok b'" "ring_contents b' = ring_contents b @ take (unat nLen) src"
    using circle.put_fits [OF assms(1), of nLen src] assms(2) by auto
  have "ring_used b' = ring_used b + unat nLen"
    using arg_cong [OF b'(3), of length] assms(2) by simp
  then show ?thesis using b' False by simp
qed

theorem circle_write_total_witness:
  "\<exists>r b'. CircleBuffer_Write (BufferBase (\<lambda>_. 0) 2) [7, 8, 9] 3 = Some (r, b') \<and> r = - 1"
proof -
  have "circle_ok (BufferBase (\<lambda>_. 0) 2)" using circle_ok_fresh [of 2 "\<lambda>_. 0"] by auto
  then show ?thesis
    using circle_write_total [of "BufferBase (\<lambda>_. 0) 2" 3 "[7, 8, 9]"]
    by (auto simp: BufferBase_def split: if_splits)
qed

text \<open>
  \<open>BufferBase::Write\<close> after \<open>BufferBase::Read\<close> can leave its block: with \<open>r\<close> bytes already read,
  every write longer than the room behind the write pointer but within the free count passes the
  guard and copies past the end of the allocation.
\<close>

theorem base_write_after_read_overflows:
  assumes "linear_ok b" and "ring_used b + unat len \<le> ring_size b"
    and "ring_size b + 1 < pWrite b + unat len" and "unat len \<le> length src"
  shows "BufferBase_Write b src len = None"
  using assms by (rule BufferBase_Write_overflow)

theorem base_write_after_read_overflows_witness:
  "\<exists>b1 b2. BufferBase_Write (BufferBase (\<lambda>_. 0) 4) [1, 2, 3, 4] 4 = Some (0, b1) \<and>
     BufferBase_Read b1 4 = Some (0, [1, 2, 3, 4], b2) \<and>
     BufferBase_Write b2 [5, 6] 2 = None"
proof -
  define b1 where "b1 = \<lparr>pBuffer = [1, 2, 3, 4, 0], nDataSize = 4, nBufferSize = 4, pHead = 0,
    pTail = 4, pRead = 0, pWrite = 4\<rparr>"
  define b2 where "b2 = b1\<lparr>pRead := 4, nDataSize := 0\<rparr>"
  have "BufferBase_Write (BufferBase (\<lambda>_. 0) 4) [1, 2, 3, 4] 4 = Some (0, b1)"
    by (simp add: BufferBase_Write_def BufferBase_def GetEmptySize_def mem_write_def mem_read_def
        b1_def Let_def upt_rec)
  moreover have "BufferBase_Read b1 4 = Some (0, [1, 2, 3, 4], b2)"
    by (simp add: BufferBase_Read_def GetDataSize_def mem_read_def b1_def b2_def)
  moreover have "BufferBase_Write b2 [5, 6] 2 = None"
    by (rule base_write_after_read_overflows) (simp_all add: linear_ok_def b1_def b2_def)
  ultimately show ?thesis by blast
qed

end
