(* ===== verification/Serializer.thy ===== *)
theory Serializer
  imports Buffer
begin

text \<open>
  \<open>Serializer\<close> of \<^verbatim>\<open>_framework/buffer.h\<close>: one linear buffer that either collects the fields of a
  packet (\<open>forSend\<close>) or hands them out again.  Every overload of \<open>Value\<close> is a definition: it takes
  the field's present value and yields the value afterwards, because the receiving direction assigns
  to the reference it was given and leaves it alone when too few bytes are left.
\<close>

record serializer = buffer +
  forSend :: bool

text \<open>\<open>ser_base\<close> views the buffer part, \<open>with_base\<close> puts a changed one back.\<close>

definition ser_base :: "serializer \<Rightarrow> buffer" where
  "ser_base s = buffer.truncate s"

definition with_base :: "serializer \<Rightarrow> buffer \<Rightarrow> serializer" where
  "with_base s b = buffer.extend b \<lparr>forSend = forSend s\<rparr>"

definition Serializer_send :: "(nat \<Rightarrow> byte) \<Rightarrow> serializer" where
  "Serializer_send junk =
     buffer.extend (BufferBase junk MAX_PACKET_BUFFER_SIZE) \<lparr>forSend = True\<rparr>"

definition ser_Write :: "serializer \<Rightarrow> bytes \<Rightarrow> u64 \<Rightarrow> serializer option" where
  "ser_Write s src len = map_option (\<lambda>(r, b). with_base s b) (BufferBase_Write (ser_base s) src len)"

definition ser_Read :: "serializer \<Rightarrow> u64 \<Rightarrow> (u32 \<times> bytes \<times> serializer) option" where
  "ser_Read s len =
     map_option (\<lambda>(r, xs, b). (r, xs, with_base s b)) (BufferBase_Read (ser_base s) len)"

definition Serializer_recv :: "(nat \<Rightarrow> byte) \<Rightarrow> bytes \<Rightarrow> u32 \<Rightarrow> serializer option" where
  "Serializer_recv junk src len =
     ser_Write (buffer.extend (BufferBase junk MAX_PACKET_BUFFER_SIZE) \<lparr>forSend = False\<rparr>)
       src (ucast len)"

text \<open>
  A failed \<open>Read\<close> returns before its \<open>memcpy\<close>; that is the only case in which no bytes come back.
\<close>

definition Value_sized :: "nat \<Rightarrow> serializer \<Rightarrow> 'a::len word \<Rightarrow> ('a word \<times> serializer) option" where
  "Value_sized k s v =
     (if forSend s then map_option (Pair v) (ser_Write s (le_bytes k v) (of_nat k))
      else do {
        (r, xs, s') \<leftarrow> ser_Read s (of_nat k);
        Some (if length xs = k then le_word xs else v, s') })"

definition Value_INT8 :: "serializer \<Rightarrow> 8 word \<Rightarrow> (8 word \<times> serializer) option" where
  "Value_INT8 = Value_sized 1"

definition Value_INT16 :: "serializer \<Rightarrow> u16 \<Rightarrow> (u16 \<times> serializer) option" where
  "Value_INT16 = Value_sized 2"

definition Value_INT32 :: "serializer \<Rightarrow> u32 \<Rightarrow> (u32 \<times> serializer) option" where
  "Value_INT32 = Value_sized 4"

definition Value_UINT32 :: "serializer \<Rightarrow> u32 \<Rightarrow> (u32 \<times> serializer) option" where
  "Value_UINT32 = Value_sized 4"

definition Value_INT64 :: "serializer \<Rightarrow> u64 \<Rightarrow> (u64 \<times> serializer) option" where
  "Value_INT64 = Value_sized 8"

definition Value_FLOAT :: "serializer \<Rightarrow> u32 \<Rightarrow> (u32 \<times> serializer) option" where
  "Value_FLOAT = Value_sized 4"

definition Value_DOUBLE :: "serializer \<Rightarrow> u64 \<Rightarrow> (u64 \<times> serializer) option" where
  "Value_DOUBLE = Value_sized 8"

text \<open>
  \<open>Value(char*, int)\<close>: \<open>arr\<close> is the array the pointer refers to.  The signed length is widened to
  \<open>size_t\<close> by sign extension.  Receiving copies the bytes into the array without looking at its
  capacity.
\<close>

definition Value_bytes :: "serializer \<Rightarrow> bytes \<Rightarrow> u32 \<Rightarrow> (bytes \<times> serializer) option" where
  "Value_bytes s arr len =
     (if forSend s then map_option (Pair arr) (ser_Write s arr (scast len))
      else do {
        (r, xs, s') \<leftarrow> ser_Read s (scast len);
        arr' \<leftarrow> mem_write arr 0 xs;
        Some (arr', s') })"

subsection \<open>What a serializer holds\<close>

definition ser_out :: "serializer \<Rightarrow> bytes \<Rightarrow> bool" where
  "ser_out s xs \<longleftrightarrow> forSend s \<and> linear_ok (ser_base s) \<and> pRead s = 0 \<and>
     nBufferSize s = MAX_PACKET_BUFFER_SIZE \<and> linear_contents (ser_base s) = xs"

definition ser_in :: "serializer \<Rightarrow> bytes \<Rightarrow> bool" where
  "ser_in s xs \<longleftrightarrow> \<not> forSend s \<and> linear_ok (ser_base s) \<and> linear_contents (ser_base s) = xs"

abbreviation max_packet :: nat where
  "max_packet \<equiv> 10240"

lemma unat_MAX [simp]: "unat MAX_PACKET_BUFFER_SIZE = max_packet"
  by (simp add: MAX_PACKET_BUFFER_SIZE_def)

lemma MAX_ne: "MAX_PACKET_BUFFER_SIZE \<noteq> - 1"
  by (simp add: MAX_PACKET_BUFFER_SIZE_def)

lemma ser_base_sel [simp]:
  "pBuffer (ser_base s) = pBuffer s" "nDataSize (ser_base s) = nDataSize s"
  "nBufferSize (ser_base s) = nBufferSize s" "pRead (ser_base s) = pRead s"
  "pWrite (ser_base s) = pWrite s"
  by (simp_all add: ser_base_def buffer.truncate_def)

lemma ser_base_with [simp]: "ser_base (with_base s b) = b" "forSend (with_base s b) = forSend s"
  "nBufferSize (with_base s b) = nBufferSize b" "pRead (with_base s b) = pRead b"
  "pBuffer (with_base s b) = pBuffer b" "nDataSize (with_base s b) = nDataSize b"
  by (simp_all add: ser_base_def with_base_def buffer.extend_def buffer.truncate_def)

lemma ser_base_extend [simp]:
  "ser_base (buffer.extend b \<lparr>forSend = f\<rparr>) = b"
  "forSend (buffer.extend b \<lparr>forSend = f\<rparr>) = f"
  "pRead (buffer.extend b \<lparr>forSend = f\<rparr>) = pRead b"
  "nBufferSize (buffer.extend b \<lparr>forSend = f\<rparr>) = nBufferSize b"
  by (simp_all add: ser_base_def buffer.extend_def buffer.truncate_def)

lemma ser_out_fresh: "ser_out (Serializer_send junk) []"
  using linear_ok_fresh [OF MAX_ne, of junk]
  by (simp add: ser_out_def Serializer_send_def) (simp add: BufferBase_def)

lemma ser_out_data:
  assumes "ser_out s xs"
  shows "take (unat (nDataSize s)) (pBuffer s) = xs \<and> unat (nDataSize s) = length xs \<and>
    length xs \<le> max_packet \<and> length (pBuffer s) = max_packet + 1"
  using assms by (auto simp: ser_out_def linear_contents_def linear_ok_def)

lemma ser_Write_out:
  assumes "ser_out s xs" and "length xs + unat len \<le> max_packet" and "unat len \<le> length src"
  shows "\<exists>s'. ser_Write s src len = Some s' \<and> ser_out s' (xs @ take (unat len) src)"
proof -
  have ok: "linear_ok (ser_base s)" "pRead s = 0" "nBufferSize s = MAX_PACKET_BUFFER_SIZE"
    "linear_contents (ser_base s) = xs" "forSend s"
    using assms(1) by (simp_all add: ser_out_def)
  have "pWrite (ser_base s) = length xs"
    using ok length_linear_contents [OF ok(1)] by (simp add: linear_ok_def)
  then obtain b' where
    "BufferBase_Write (ser_base s) src len = Some (GetEmptySize b', b')" "linear_ok b'"
    "linear_contents b' = xs @ take (unat len) src" "nBufferSize b' = nBufferSize s" "pRead b' = 0"
    using BufferBase_Write_fits [OF ok(1), of len src] ok assms(2,3) by auto
  then show ?thesis using ok by (simp add: ser_Write_def ser_out_def)
qed

lemma ser_Write_out_full:
  assumes "ser_out s xs" and "max_packet < length xs + unat len"
  shows "ser_Write s src len = Some s"
proof -
  have ok: "linear_ok (ser_base s)" "nBufferSize s = MAX_PACKET_BUFFER_SIZE"
    using assms(1) by (simp_all add: ser_out_def)
  have "with_base s (ser_base s) = s"
    by (simp add: with_base_def ser_base_def buffer.extend_def buffer.truncate_def)
  then show ?thesis
    using assms ok BufferBase_Write_full [OF ok(1), of len src] ser_out_data [OF assms(1)]
    by (simp add: ser_Write_def)
qed

lemma ser_Read_in:
  assumes "ser_in s xs" and "unat len \<le> length xs"
  shows "\<exists>r s'. ser_Read s len = Some (r, take (unat len) xs, s') \<and> ser_in s' (drop (unat len) xs)"
proof -
  have ok: "linear_ok (ser_base s)" "linear_contents (ser_base s) = xs" "\<not> forSend s"
    using assms(1) by (simp_all add: ser_in_def)
  have "unat len \<le> ring_used (ser_base s)"
    using assms(2) ok length_linear_contents [OF ok(1)] by simp
  from BufferBase_Read_ok [OF ok(1) this] show ?thesis
    using ok by (auto simp: ser_Read_def ser_in_def)
qed

lemma ser_Read_in_short:
  assumes "ser_in s xs" and "length xs < unat len"
  shows "ser_Read s len = Some (- 1, [], s)"
proof -
  have "ring_used (ser_base s) < unat len"
    using assms length_linear_contents [of "ser_base s"] by (simp add: ser_in_def)
  moreover have "with_base s (ser_base s) = s"
    by (simp add: with_base_def ser_base_def buffer.extend_def buffer.truncate_def)
  ultimately show ?thesis by (simp add: ser_Read_def BufferBase_Read_short)
qed

lemma Serializer_recv_ok:
  assumes "unat len \<le> max_packet" and "unat len \<le> length src"
  shows "\<exists>s. Serializer_recv junk src len = Some s \<and> ser_in s (take (unat len) src)"
proof -
  let ?b = "BufferBase junk MAX_PACKET_BUFFER_SIZE"
  have ok: "linear_ok ?b" "linear_contents ?b = []" using linear_ok_fresh [OF MAX_ne] by auto
  obtain b' where "BufferBase_Write ?b src (ucast len) = Some (GetEmptySize b', b')" "linear_ok b'"
    "linear_contents b' = take (unat len) src"
    using BufferBase_Write_fits [OF ok(1), of "ucast len" src] ok assms
    by (auto simp: BufferBase_def)
  then show ?thesis by (simp add: Serializer_recv_def ser_Write_def ser_in_def)
qed

text \<open>A length beyond the buffer is refused by the guard: the serializer stays empty.\<close>

lemma Serializer_recv_long:
  assumes "max_packet < unat len"
  shows "\<exists>s. Serializer_recv junk src len = Some s \<and> ser_in s []"
proof -
  let ?b = "BufferBase junk MAX_PACKET_BUFFER_SIZE"
  have ok: "linear_ok ?b" "linear_contents ?b = []" using linear_ok_fresh [OF MAX_ne] by auto
  have "BufferBase_Write ?b src (ucast len) = Some (- 1, ?b)"
    using assms by (intro BufferBase_Write_full ok) (simp add: BufferBase_def)
  then show ?thesis using ok by (simp add: Serializer_recv_def ser_Write_def ser_in_def)
qed

subsection \<open>Specifications of serializing steps\<close>

text \<open>
  \<open>sends f v img\<close>: in the sending direction the step \<open>f\<close> appends exactly the bytes \<open>img\<close> and yields
  \<open>v\<close>.  \<open>recvs f v img\<close>: in the receiving direction, with \<open>img\<close> in front of the unread bytes, \<open>f\<close>
  consumes exactly \<open>img\<close> and yields \<open>v\<close>.
\<close>

definition sends :: "(serializer \<Rightarrow> ('v \<times> serializer) option) \<Rightarrow> 'v \<Rightarrow> bytes \<Rightarrow> bool" where
  "sends f v img \<longleftrightarrow> (\<forall>s xs. ser_out s xs \<longrightarrow> length xs + length img \<le> max_packet \<longrightarrow>
     (\<exists>s'. f s = Some (v, s') \<and> ser_out s' (xs @ img)))"

definition recvs :: "(serializer \<Rightarrow> ('v \<times> serializer) option) \<Rightarrow> 'v \<Rightarrow> bytes \<Rightarrow> bool" where
  "recvs f v img \<longleftrightarrow> (\<forall>s ys. ser_in s (img @ ys) \<longrightarrow>
     (\<exists>s'. f s = Some (v, s') \<and> ser_in s' ys))"

named_theorems wire_intros \<open>introduction rules for \<open>sends\<close> and \<open>recvs\<close>\<close>

lemma sendsD:
  "sends f v img \<Longrightarrow> ser_out s xs \<Longrightarrow> length xs + length img \<le> max_packet \<Longrightarrow>
   \<exists>s'. f s = Some (v, s') \<and> ser_out s' (xs @ img)"
  by (simp add: sends_def)

lemma recvsD: "recvs f v img \<Longrightarrow> ser_in s (img @ ys) \<Longrightarrow> \<exists>s'. f s = Some (v, s') \<and> ser_in s' ys"
  by (simp add: recvs_def)

lemma sends_return [wire_intros]: "sends (\<lambda>s. Some (v, s)) v []"
  by (simp add: sends_def)

lemma recvs_return [wire_intros]: "recvs (\<lambda>s. Some (v, s)) v []"
  by (simp add: recvs_def)

lemma sends_bind [wire_intros]:
  assumes f: "sends f v a" and g: "sends (g v) w b"
  shows "sends (\<lambda>s. Option.bind (f s) (\<lambda>(x, s'). g x s')) w (a @ b)"
  unfolding sends_def
proof (intro allI impI)
  fix s xs
  assume s: "ser_out s xs" and len: "length xs + length (a @ b) \<le> max_packet"
  obtain s1 where s1: "f s = Some (v, s1)" "ser_out s1 (xs @ a)"
    using sendsD [OF f s] len by auto
  obtain s2 where "g v s1 = Some (w, s2)" "ser_out s2 ((xs @ a) @ b)"
    using sendsD [OF g s1(2)] len by auto
  then show "\<exists>s'. Option.bind (f s) (\<lambda>(x, s'). g x s') = Some (w, s') \<and> ser_out s' (xs @ a @ b)"
    using s1 by simp
qed

lemma recvs_bind [wire_intros]:
  assumes f: "recvs f v a" and g: "recvs (g v) w b"
  shows "recvs (\<lambda>s. Option.bind (f s) (\<lambda>(x, s'). g x s')) w (a @ b)"
  unfolding recvs_def
proof (intro allI impI)
  fix s ys
  assume s: "ser_in s ((a @ b) @ ys)"
  obtain s1 where s1: "f s = Some (v, s1)" "ser_in s1 (b @ ys)"
    using recvsD [OF f] s by auto
  obtain s2 where "g v s1 = Some (w, s2)" "ser_in s2 ys"
    using recvsD [OF g s1(2)] by auto
  then show "\<exists>s'. Option.bind (f s) (\<lambda>(x, s'). g x s') = Some (w, s') \<and> ser_in s' ys"
    using s1 by simp
qed

lemma sends_eq: "sends f v a \<Longrightarrow> v = w \<Longrightarrow> a = b \<Longrightarrow> sends f w b"
  by simp

lemma recvs_eq: "recvs f v a \<Longrightarrow> v = w \<Longrightarrow> a = b \<Longrightarrow> recvs f w b"
  by simp

lemma sends_Value_sized: "k \<le> max_packet \<Longrightarrow> sends (\<lambda>s. Value_sized k s v) v (le_bytes k v)"
  unfolding sends_def
proof (intro allI impI)
  fix s xs
  assume k: "k \<le> max_packet" and s: "ser_out s xs"
    and len: "length xs + length (le_bytes k v) \<le> max_packet"
  have u: "unat (of_nat k :: u64) = k" using k by (simp add: unat_of_nat)
  have "forSend s" using s by (simp add: ser_out_def)
  then show "\<exists>s'. Value_sized k s v = Some (v, s') \<and> ser_out s' (xs @ le_bytes k v)"
    using ser_Write_out [OF s, of "of_nat k" "le_bytes k v"] len u by (auto simp: Value_sized_def)
qed

lemma recvs_Value_sized:
  fixes v v0 :: "'a::len word"
  assumes "k \<le> max_packet" and "LENGTH('a) \<le> 8 * k"
  shows "recvs (\<lambda>s. Value_sized k s v0) v (le_bytes k v)"
  unfolding recvs_def
proof (intro allI impI)
  fix s ys
  assume s: "ser_in s (le_bytes k v @ ys)"
  have u: "unat (of_nat k :: u64) = k" using assms(1) by (simp add: unat_of_nat)
  have "\<not> forSend s" using s by (simp add: ser_in_def)
  then show "\<exists>s'. Value_sized k s v0 = Some (v, s') \<and> ser_in s' ys"
    using ser_Read_in [OF s, of "of_nat k"] u assms(2) by (auto simp: Value_sized_def)
qed

lemma Value_sized_short:
  assumes "ser_in s xs" and "length xs < k" and "k \<le> max_packet"
  shows "Value_sized k s v = Some (v, s)"
proof -
  have "unat (of_nat k :: u64) = k" using assms(3) by (simp add: unat_of_nat)
  then show ?thesis
    using ser_Read_in_short [OF assms(1), of "of_nat k"] assms
    by (auto simp: Value_sized_def ser_in_def)
qed

lemmas Value_defs = Value_INT8_def Value_INT16_def Value_INT32_def Value_UINT32_def
  Value_INT64_def Value_FLOAT_def Value_DOUBLE_def

lemma sends_scalars [wire_intros]:
  "sends (\<lambda>s. Value_INT8 s v1) v1 (le_bytes 1 v1)"
  "sends (\<lambda>s. Value_INT16 s v2) v2 (le_bytes 2 v2)"
  "sends (\<lambda>s. Value_INT32 s v4) v4 (le_bytes 4 v4)"
  "sends (\<lambda>s. Value_UINT32 s v4) v4 (le_bytes 4 v4)"
  "sends (\<lambda>s. Value_INT64 s v8) v8 (le_bytes 8 v8)"
  "sends (\<lambda>s. Value_FLOAT s v4) v4 (le_bytes 4 v4)"
  "sends (\<lambda>s. Value_DOUBLE s v8) v8 (le_bytes 8 v8)"
  by (simp_all only: Value_defs) (rule sends_Value_sized; simp)+

lemma recvs_scalars [wire_intros]:
  "recvs (\<lambda>s. Value_INT8 s u1) v1 (le_bytes 1 v1)"
  "recvs (\<lambda>s. Value_INT16 s u2) v2 (le_bytes 2 v2)"
  "recvs (\<lambda>s. Value_INT32 s u4) v4 (le_bytes 4 v4)"
  "recvs (\<lambda>s. Value_UINT32 s u4) v4 (le_bytes 4 v4)"
  "recvs (\<lambda>s. Value_INT64 s u8) v8 (le_bytes 8 v8)"
  "recvs (\<lambda>s. Value_FLOAT s u4) v4 (le_bytes 4 v4)"
  "recvs (\<lambda>s. Value_DOUBLE s u8) v8 (le_bytes 8 v8)"
  by (simp_all only: Value_defs) (rule recvs_Value_sized; simp)+

text \<open>Byte arrays: a non-negative length within the array travels as that many bytes.\<close>

lemma sint_nonneg32: "unat (len :: u32) < 2 ^ 31 \<Longrightarrow> sint len = int (unat len)"
proof -
  assume a: "unat len < 2 ^ 31"
  have "uint len < 2 ^ 31" using a uint_nat [of len] by (metis of_nat_less_numeral_power_cancel_iff)
  then have "signed_take_bit 31 (uint len) = uint len"
    by (intro signed_take_bit_int_eq_self) (auto intro: order_trans [OF _ uint_ge_0])
  then show ?thesis by (simp add: sint_uint)
qed

lemma unat_scast_nonneg: "unat (len :: u32) < 2 ^ 31 \<Longrightarrow> unat (scast len :: u64) = unat len"
proof -
  assume a: "unat len < 2 ^ 31"
  have "(scast len :: u64) = word_of_int (sint len)" by simp
  also have "\<dots> = ucast len" using sint_nonneg32 [OF a] by simp
  finally show ?thesis by simp
qed

lemma unat_scast_negative: "sint (len :: u32) < 0 \<Longrightarrow> 2 ^ 63 \<le> unat (scast len :: u64)"
proof -
  assume a: "sint len < 0"
  have l: "- (2 ^ 31) \<le> sint len" using sint_ge [of len] by simp
  have eq: "(scast len :: u64) = word_of_int (sint len)" by simp
  have "uint (scast len :: u64) = sint len mod 2 ^ 64" unfolding eq uint_word_of_int by simp
  also have "\<dots> = sint len + 2 ^ 64"
    using a l by (subst mod_add_self2 [symmetric], subst mod_pos_pos_trivial) auto
  finally have "2 ^ 63 \<le> uint (scast len :: u64)" using l by simp
  then show ?thesis
    by (simp only: uint_nat numeral_power_le_of_nat_cancel_iff)
qed

lemma sends_Value_bytes [wire_intros]:
  assumes "unat len \<le> length arr" and "unat len < 2 ^ 31"
  shows "sends (\<lambda>s. Value_bytes s arr len) arr (take (unat len) arr)"
  unfolding sends_def
proof (intro allI impI)
  fix s xs
  assume s: "ser_out s xs" and len: "length xs + length (take (unat len) arr) \<le> max_packet"
  have "forSend s" using s by (simp add: ser_out_def)
  then show "\<exists>s'. Value_bytes s arr len = Some (arr, s') \<and> ser_out s' (xs @ take (unat len) arr)"
    using ser_Write_out [OF s, of "scast len" arr] len assms unat_scast_nonneg [OF assms(2)]
    by (auto simp: Value_bytes_def)
qed

lemma recvs_Value_bytes [wire_intros]:
  assumes "length ys = unat len" and "unat len \<le> length arr" and "unat len < 2 ^ 31"
  shows "recvs (\<lambda>s. Value_bytes s arr len) (ys @ drop (unat len) arr) ys"
  unfolding recvs_def
proof (intro allI impI)
  fix s zs
  assume s: "ser_in s (ys @ zs)"
  have "\<not> forSend s" using s by (simp add: ser_in_def)
  then show "\<exists>s'. Value_bytes s arr len = Some (ys @ drop (unat len) arr, s') \<and> ser_in s' zs"
    using ser_Read_in [OF s, of "scast len"] assms unat_scast_nonneg [OF assms(3)]
    by (auto simp: Value_bytes_def mem_simps)
qed

text \<open>
  \<open>counted_array cap n arr\<close>: an array of \<open>cap\<close> bytes of which the first \<open>n\<close> are meant and the others
  are still zero, as in a packet whose array starts out zeroed.
\<close>

definition counted_array :: "nat \<Rightarrow> u32 \<Rightarrow> bytes \<Rightarrow> bool" where
  "counted_array cap n arr \<longleftrightarrow> length arr = cap \<and> cap < 2 ^ 31 \<and> unat n \<le> cap \<and>
     drop (unat n) arr = replicate (cap - unat n) 0"

lemma sends_counted:
  "counted_array cap n arr \<Longrightarrow> sends (\<lambda>s. Value_bytes s arr n) arr (take (unat n) arr)"
  by (rule sends_Value_bytes) (auto simp: counted_array_def)

lemma recvs_counted:
  assumes "counted_array cap n arr"
  shows "recvs (\<lambda>s. Value_bytes s (replicate cap 0) n) arr (take (unat n) arr)"
proof -
  have a: "length arr = cap" "unat n \<le> cap" "unat n < 2 ^ 31"
    "drop (unat n) arr = replicate (cap - unat n) 0"
    using assms by (auto simp: counted_array_def)
  then have "take (unat n) arr @ drop (unat n) (replicate cap 0) = arr"
    using append_take_drop_id [of "unat n" arr] by simp
  then show ?thesis
    using recvs_Value_bytes [of "take (unat n) arr" n "replicate cap 0"] a by simp
qed

text \<open>A length the unread bytes cover but the array does not: the copy leaves the array.\<close>

lemma Value_bytes_overflow:
  assumes "ser_in s xs" and "unat len < 2 ^ 31" and "unat len \<le> length xs" and "length arr < unat len"
  shows "Value_bytes s arr len = None"
  using ser_Read_in [OF assms(1), of "scast len"] assms unat_scast_nonneg [OF assms(2)]
  by (auto simp: Value_bytes_def mem_simps ser_in_def)

text \<open>A negative length becomes a huge \<open>size_t\<close>, which both guards refuse.\<close>

lemma Value_bytes_negative:
  assumes "ser_in s xs" and "sint len < 0"
  shows "Value_bytes s arr len = Some (arr, s)"
proof -
  have "length xs < 2 ^ 32"
    using assms(1) unat_lt_2_32 [of "nDataSize s"] length_linear_contents [of "ser_base s"]
    by (auto simp: ser_in_def)
  then have "length xs < unat (scast len :: u64)"
    using unat_scast_negative [OF assms(2)] by simp
  then show ?thesis
    using ser_Read_in_short [OF assms(1)] assms(1) by (auto simp: Value_bytes_def ser_in_def mem_simps)
qed

subsection \<open>Bounded copies\<close>

text \<open>
  \<open>memcpy_s\<close> with a signed size: a size beyond the destination (a negative one is a huge
  \<open>rsize_t\<close>) zeroes the destination, reports an error that nobody reads and, with the default
  invalid-parameter handler, ends the process; that end is \<open>None\<close>.
\<close>

definition memcpy_s :: "bytes \<Rightarrow> bytes \<Rightarrow> u32 \<Rightarrow> bytes option" where
  "memcpy_s dest src n =
     (let k = unat (scast n :: u64) in
      if k \<le> length dest then do { xs \<leftarrow> mem_read src 0 k; mem_write dest 0 xs } else None)"

lemma memcpy_s_fits:
  "unat n < 2 ^ 31 \<Longrightarrow> unat n \<le> length dest \<Longrightarrow> unat n \<le> length src \<Longrightarrow>
   memcpy_s dest src n = Some (take (unat n) src @ drop (unat n) dest)"
  by (simp add: memcpy_s_def unat_scast_nonneg mem_simps Let_def)

end
