(* ===== verification/Packet.thy ===== *)
theory Packet
  imports Serializer
begin

text \<open>
  \<^verbatim>\<open>_framework/packet.h\<close> and \<^verbatim>\<open>_framework/packet.cpp\<close>: the frame around a packet body (head, body,
  tail), \<open>MakeNetworkPacket\<close> and \<open>ParseNetworkData\<close>, and the handler table that turns the bytes of a
  body into a call of the registered function.  The locale \<open>wire_packet\<close> is the contract every packet
  structure meets; the packets of the two protocols are its instances.
\<close>

subsection \<open>Frames\<close>

definition PACKET_CHECK_HEAD_KEY :: u32 where
  "PACKET_CHECK_HEAD_KEY = 0x00000000"

definition PACKET_CHECK_TAIL_KEY :: u32 where
  "PACKET_CHECK_TAIL_KEY = 0x10000000"

record packet_head =
  ui32CheckHead :: u32
  ui32Length :: u32

record packet_tail =
  ui32CheckTail :: u32
  ui32PacketSeq :: u32
  ui32PacketTime :: u32

text \<open>The memory images of the two structures and their inverses (the casts in the source).\<close>

definition head_bytes :: "packet_head \<Rightarrow> bytes" where
  "head_bytes h = le_bytes 4 (ui32CheckHead h) @ le_bytes 4 (ui32Length h)"

definition head_of :: "bytes \<Rightarrow> packet_head" where
  "head_of xs = \<lparr>ui32CheckHead = le_word (take 4 xs), ui32Length = le_word (take 4 (drop 4 xs))\<rparr>"

definition tail_bytes :: "packet_tail \<Rightarrow> bytes" where
  "tail_bytes t =
     le_bytes 4 (ui32CheckTail t) @ le_bytes 4 (ui32PacketSeq t) @ le_bytes 4 (ui32PacketTime t)"

definition tail_of :: "bytes \<Rightarrow> packet_tail" where
  "tail_of xs = \<lparr>ui32CheckTail = le_word (take 4 xs), ui32PacketSeq = le_word (take 4 (drop 4 xs)),
                 ui32PacketTime = le_word (take 4 (drop 8 xs))\<rparr>"

text \<open>\<open>now\<close> is the value of \<open>_time32(NULL)\<close>; \<open>mem_write_at\<close> is \<open>memcpy\<close> to \<open>pSendBuffer + nPos\<close>.\<close>

definition mem_write_at :: "bytes \<Rightarrow> int \<Rightarrow> bytes \<Rightarrow> bytes option" where
  "mem_write_at m p xs = (if p < 0 then None else mem_write m (nat p) xs)"

definition MakeNetworkPacket ::
  "bytes \<Rightarrow> u32 \<Rightarrow> bytes \<Rightarrow> u32 \<Rightarrow> u32 \<Rightarrow> u32 \<Rightarrow> (eResultCode \<times> bytes \<times> u32) option" where
  "MakeNetworkPacket pSendData n pSendBuffer dwSendBufferSize packetSeq now =
     (let head = \<lparr>ui32CheckHead = PACKET_CHECK_HEAD_KEY, ui32Length = 8 + n + 12\<rparr>;
          tail = \<lparr>ui32CheckTail = PACKET_CHECK_TAIL_KEY, ui32PacketSeq = packetSeq,
                  ui32PacketTime = now\<rparr>
      in if ui32Length head > dwSendBufferSize then Some (fail, pSendBuffer, dwSendBufferSize)
         else do {
           m1 \<leftarrow> mem_write_at pSendBuffer 0 (head_bytes head);
           xs \<leftarrow> mem_read pSendData 0 (unat n);
           m2 \<leftarrow> mem_write_at m1 8 xs;
           m3 \<leftarrow> mem_write_at m2 (sint (8 + n)) (tail_bytes tail);
           Some (succ, m3, ui32Length head) })"

text \<open>\<open>len0\<close> is the value the caller's \<open>dwPacketLength\<close> has before the call.\<close>

definition ParseNetworkData :: "buffer \<Rightarrow> u32 \<Rightarrow> (eResultCode \<times> u32) option" where
  "ParseNetworkData buf len0 =
     (let dwDataSize = GetDataSize buf in
      if 8 > dwDataSize then Some (pending, len0)
      else do {
        (r, xs) \<leftarrow> CircleBuffer_Read buf 8;
        let head = head_of xs;
        if PACKET_CHECK_HEAD_KEY \<noteq> ui32CheckHead head then Some (invalid_packet, len0)
        else if ui32Length head > dwDataSize then Some (pending, len0)
        else Some (succ, ui32Length head) })"

subsection \<open>Packet bodies and the handler table\<close>

record packet_body =
  ui32PacketType :: u32

definition SerializeHead ::
  "serializer \<Rightarrow> 'a packet_body_scheme \<Rightarrow> ('a packet_body_scheme \<times> serializer) option" where
  "SerializeHead s p = do {
     (t, s) \<leftarrow> Value_UINT32 s (ui32PacketType p);
     Some (p\<lparr>ui32PacketType := t\<rparr>, s) }"

text \<open>
  A functor takes the body bytes, their count and the state the handlers work on, and yields the
  handler's answer and the new state.  \<open>pack\<close> is \<open>SerializeHead\<close> followed by the packet's
  \<open>Serialize\<close>, \<open>initial\<close> the default-constructed packet.
\<close>

type_synonym 's packet_functor = "bytes \<Rightarrow> u32 \<Rightarrow> 's \<Rightarrow> (bool \<times> 's) option"

definition PacketFunctor_Execute ::
  "(nat \<Rightarrow> byte) \<Rightarrow> (serializer \<Rightarrow> 'p \<Rightarrow> ('p \<times> serializer) option) \<Rightarrow> 'p \<Rightarrow>
   ('s \<Rightarrow> 'p \<Rightarrow> (bool \<times> 's) option) \<Rightarrow> 's packet_functor" where
  "PacketFunctor_Execute junk pack initial func data len st = do {
     unpack \<leftarrow> Serializer_recv junk data len;
     (packet, unpack) \<leftarrow> pack unpack initial;
     func st packet }"

record 's packet_handler =
  packetFunctors :: "'s packet_functor option list"

definition PacketHandler :: "nat \<Rightarrow> 's packet_handler" where
  "PacketHandler PACKET_MAX = \<lparr>packetFunctors = replicate PACKET_MAX None\<rparr>"

definition Register ::
  "'s packet_handler \<Rightarrow> u32 \<Rightarrow> 's packet_functor \<Rightarrow> 's packet_handler option" where
  "Register h type pf =
     (if unat type < length (packetFunctors h)
      then Some (h\<lparr>packetFunctors := (packetFunctors h)[unat type := Some pf]\<rparr>) else None)"

definition PacketHandler_Execute ::
  "(nat \<Rightarrow> byte) \<Rightarrow> 's packet_handler \<Rightarrow> bytes \<Rightarrow> u32 \<Rightarrow> 's \<Rightarrow> (bool \<times> 's) option" where
  "PacketHandler_Execute junk h data len st = do {
     unpack \<leftarrow> Serializer_recv junk data len;
     (base, unpack) \<leftarrow> SerializeHead unpack \<lparr>ui32PacketType = 0\<rparr>;
     let type = ui32PacketType base;
     if unat type < length (packetFunctors h)
     then (case packetFunctors h ! unat type of
             Some pf \<Rightarrow> pf data len st
           | None \<Rightarrow> Some (False, st))
     else None }"

subsection \<open>Frames: lemmas\<close>

lemma length_head_bytes [simp]: "length (head_bytes h) = 8"
  by (simp add: head_bytes_def)

lemma length_tail_bytes [simp]: "length (tail_bytes t) = 12"
  by (simp add: tail_bytes_def)

lemma head_of_bytes [simp]: "head_of (head_bytes h @ xs) = h"
  by (simp add: head_of_def head_bytes_def)

lemma tail_of_bytes [simp]: "tail_of (tail_bytes t @ xs) = t"
  by (simp add: tail_of_def tail_bytes_def)

text \<open>The frame of a body.\<close>

definition frame :: "bytes \<Rightarrow> u32 \<Rightarrow> u32 \<Rightarrow> bytes" where
  "frame body seq now =
     head_bytes \<lparr>ui32CheckHead = PACKET_CHECK_HEAD_KEY, ui32Length = of_nat (length body + 20)\<rparr> @
     body @
     tail_bytes \<lparr>ui32CheckTail = PACKET_CHECK_TAIL_KEY, ui32PacketSeq = seq, ui32PacketTime = now\<rparr>"

lemma length_frame [simp]: "length (frame body seq now) = length body + 20"
  by (simp add: frame_def)

lemma head_of_frame:
  "head_of (frame body seq now @ xs) =
     \<lparr>ui32CheckHead = PACKET_CHECK_HEAD_KEY, ui32Length = of_nat (length body + 20)\<rparr>"
  by (simp add: frame_def)

lemma head_of_take: "8 \<le> k \<Longrightarrow> head_of (take k xs) = head_of xs"
  by (simp add: head_of_def take_drop min_def)

lemma frame_parts:
  "take (length body) (drop 8 (frame body seq now @ xs)) = body"
  "tail_of (drop (length body + 8) (frame body seq now @ xs)) =
     \<lparr>ui32CheckTail = PACKET_CHECK_TAIL_KEY, ui32PacketSeq = seq, ui32PacketTime = now\<rparr>"
  by (simp_all add: frame_def)

lemma MakeNetworkPacket_ok:
  assumes n: "unat n \<le> length src" and room: "unat n + 20 \<le> unat cap" and buf: "unat cap \<le> length out"
    and small: "unat cap < 2 ^ 31"
  shows "\<exists>out'. MakeNetworkPacket src n out cap seq now = Some (succ, out', n + 20) \<and>
    unat (n + 20) = unat n + 20 \<and> length out' = length out \<and>
    take (unat n + 20) out' = frame (take (unat n) src) seq now"
proof -
  let ?body = "take (unat n) src"
  have lenw: "unat (n + 20) = unat n + 20" "unat (8 + n) = unat n + 8"
    using room small by (simp_all add: unat_word_ariths)
  have len: "(8 + n + 12 :: u32) = n + 20" "(of_nat (length ?body + 20) :: u32) = n + 20"
    using n by (simp_all add: min_def)
  have pos: "sint (8 + n) = int (unat n + 8)"
    using sint_nonneg32 [of "8 + n"] lenw room small by simp
  have guard: "\<not> n + 20 > cap" using lenw room by (simp add: word_less_nat_alt)
  have np: "\<not> uint n + 8 < 0" "nat (uint n + 8) = unat n + 8"
    using uint_nat [of n] by linarith+
  define out' where "out' = frame ?body seq now @ drop (unat n + 20) out"
  have "MakeNetworkPacket src n out cap seq now = Some (succ, out', n + 20)"
    unfolding MakeNetworkPacket_def Let_def
    using n room buf guard
    by (simp add: len(1) pos mem_write_at_def mem_write_def mem_read_def min_def frame_def
        len(2) out'_def np add.commute [of 20])
  then show ?thesis using n room buf lenw by (simp add: out'_def)
qed

lemma MakeNetworkPacket_fail:
  "unat cap < unat (n + 20) \<Longrightarrow> MakeNetworkPacket src n out cap seq now = Some (fail, out, cap)"
  by (simp add: MakeNetworkPacket_def word_less_nat_alt add.commute add.left_commute)

text \<open>\<open>ParseNetworkData\<close> as a function of the bytes waiting in the ring.\<close>

definition parse_stream :: "bytes \<Rightarrow> eResultCode" where
  "parse_stream xs =
     (if length xs < 8 then pending
      else if ui32CheckHead (head_of xs) \<noteq> PACKET_CHECK_HEAD_KEY then invalid_packet
      else if length xs < unat (ui32Length (head_of xs)) then pending
      else succ)"

lemma ParseNetworkData_eq:
  assumes "circle_ok b"
  shows "ParseNetworkData b len0 =
    Some (parse_stream (ring_contents b),
          if parse_stream (ring_contents b) = succ then ui32Length (head_of (ring_contents b)) else len0)"
proof (cases "ring_used b < 8")
  case True
  then show ?thesis
    by (simp add: ParseNetworkData_def GetDataSize_def parse_stream_def word_less_nat_alt)
next
  case False
  then have "CircleBuffer_Read b 8 = Some (8, take 8 (ring_contents b))"
    using CircleBuffer_Read_ok [OF assms, of 8] by simp
  then show ?thesis using False
    by (auto simp: ParseNetworkData_def GetDataSize_def parse_stream_def word_less_nat_alt
        head_of_take Let_def)
qed

lemma unat_len20: "m + 20 < 2 ^ 32 \<Longrightarrow> unat (word_of_nat m + 20 :: u32) = m + 20"
  by (simp add: unat_word_ariths unat_of_nat)

lemma parse_stream_frame:
  assumes "length body + 20 < 2 ^ 32"
  shows "parse_stream (frame body seq now @ rest) = succ"
    and "unat (ui32Length (head_of (frame body seq now @ rest))) = length body + 20"
  using assms unat_len20 [OF assms] by (simp_all add: parse_stream_def head_of_frame)

lemma parse_stream_prefix:
  assumes "length body + 20 < 2 ^ 32" and "k < length body + 20"
  shows "parse_stream (take k (frame body seq now)) = pending"
proof (cases "k < 8")
  case True
  then show ?thesis using assms by (simp add: parse_stream_def)
next
  case False
  then have "head_of (take k (frame body seq now)) =
      \<lparr>ui32CheckHead = PACKET_CHECK_HEAD_KEY, ui32Length = of_nat (length body + 20)\<rparr>"
    using head_of_frame [of body seq now "[]"] by (simp add: head_of_take)
  then show ?thesis using assms False unat_len20 [OF assms(1)] by (simp add: parse_stream_def)
qed

subsection \<open>The contract of a packet structure\<close>

lemma collected: "\<exists>s. x = Some (p, s) \<and> P s \<Longrightarrow> \<exists>s. map_option snd x = Some s \<and> P s"
  by auto

lemma sends_SerializeHead [wire_intros]:
  "sends (\<lambda>s. SerializeHead s p) p (le_bytes 4 (ui32PacketType p))"
  unfolding SerializeHead_def
  by (rule sends_eq, (rule wire_intros)+) simp_all

lemma recvs_SerializeHead [wire_intros]:
  "recvs (\<lambda>s. SerializeHead s p) (p\<lparr>ui32PacketType := t\<rparr>) (le_bytes 4 t)"
  unfolding SerializeHead_def
  by (rule recvs_eq, (rule wire_intros)+) simp_all

lemma SerializeHead_short:
  "ser_in s xs \<Longrightarrow> length xs < 4 \<Longrightarrow> SerializeHead s p = Some (p, s)"
  by (simp add: SerializeHead_def Value_UINT32_def Value_sized_short)

lemma SerializeHead_in:
  assumes "ser_in s xs" and "4 \<le> length xs"
  shows "\<exists>s'. SerializeHead s p = Some (p\<lparr>ui32PacketType := le_word (take 4 xs)\<rparr>, s') \<and>
    ser_in s' (drop 4 xs)"
proof -
  have "length (take 4 xs) = 4" using assms(2) by simp
  then have "le_bytes 4 (le_word (take 4 xs) :: u32) = take 4 xs"
    using le_bytes_le_word [of "take 4 xs", where 'a = 32] by simp
  then have "ser_in s (le_bytes 4 (le_word (take 4 xs) :: u32) @ drop 4 xs)" using assms(1) by simp
  from recvsD [OF recvs_SerializeHead this] show ?thesis .
qed

locale wire_packet =
  fixes pack :: "serializer \<Rightarrow> 'p \<Rightarrow> ('p \<times> serializer) option"
    and image :: "'p \<Rightarrow> bytes"
    and valid :: "'p \<Rightarrow> bool"
    and initial :: 'p
  assumes image_fits: "valid p \<Longrightarrow> length (image p) + 20 \<le> max_packet"
    and pack_sends: "valid p \<Longrightarrow> sends (\<lambda>s. pack s p) p (image p)"
    and pack_recvs: "valid p \<Longrightarrow> recvs (\<lambda>s. pack s initial) p (image p)"
begin

lemma packed:
  assumes "valid p"
  shows "\<exists>s. pack (Serializer_send junk) p = Some (p, s) \<and> ser_out s (image p)"
  using sendsD [OF pack_sends [OF assms] ser_out_fresh] image_fits [OF assms] by simp

lemma functor_calls_handler:
  assumes "valid p" and "unat len = length (image p)"
  shows "PacketFunctor_Execute junk pack initial func (image p @ rest) len st = func st p"
proof -
  obtain s where s: "Serializer_recv junk (image p @ rest) len = Some s" "ser_in s (image p)"
    using Serializer_recv_ok [of len "image p @ rest" junk] image_fits [OF assms(1)] assms(2) by auto
  obtain s' where "pack s initial = Some (p, s')"
    using recvsD [OF pack_recvs [OF assms(1)], of s "[]"] s(2) by auto
  then show ?thesis using s(1) by (simp add: PacketFunctor_Execute_def)
qed

text \<open>The bytes the sending side collects, given to the receiving side's functor.\<close>

lemma packed_then_executed:
  assumes "valid p"
  shows "\<exists>s. pack (Serializer_send junk) p = Some (p, s) \<and> unat (nDataSize s) = length (image p) \<and>
    take (length (image p)) (pBuffer s) = image p \<and>
    PacketFunctor_Execute junk' pack initial func (pBuffer s) (nDataSize s) st = func st p"
proof -
  obtain s where s: "pack (Serializer_send junk) p = Some (p, s)" "ser_out s (image p)"
    using packed [OF assms] by blast
  have d: "unat (nDataSize s) = length (image p)" "take (length (image p)) (pBuffer s) = image p"
    using ser_out_data [OF s(2)] by auto
  have "pBuffer s = image p @ drop (length (image p)) (pBuffer s)"
    using d(2) by (metis append_take_drop_id)
  then show ?thesis
    using functor_calls_handler [OF assms d(1), of junk' func _ st] s(1) d by metis
qed

end

text \<open>
  \<open>pack_with\<close> is the pair of calls every user of a packet makes: \<open>SerializeHead\<close>, then the packet's own
  \<open>Serialize\<close>.  A packet structure only has to meet the contract below for its own fields; the
  contract of the whole body follows.
\<close>

definition pack_with ::
  "(serializer \<Rightarrow> 'a packet_body_scheme \<Rightarrow> ('a packet_body_scheme \<times> serializer) option) \<Rightarrow>
   serializer \<Rightarrow> 'a packet_body_scheme \<Rightarrow> ('a packet_body_scheme \<times> serializer) option" where
  "pack_with Serialize s p = do { (p, s) \<leftarrow> SerializeHead s p; Serialize s p }"

definition body_image :: "('a packet_body_scheme \<Rightarrow> bytes) \<Rightarrow> 'a packet_body_scheme \<Rightarrow> bytes" where
  "body_image payload p = le_bytes 4 (ui32PacketType p) @ payload p"

locale packet_struct =
  fixes Serialize :: "serializer \<Rightarrow> 'a packet_body_scheme \<Rightarrow> ('a packet_body_scheme \<times> serializer) option"
    and payload :: "'a packet_body_scheme \<Rightarrow> bytes"
    and valid :: "'a packet_body_scheme \<Rightarrow> bool"
    and initial :: "'a packet_body_scheme"
  assumes payload_fit: "valid p \<Longrightarrow> length (payload p) + 24 \<le> max_packet"
    and payload_send: "valid p \<Longrightarrow> sends (\<lambda>s. Serialize s p) p (payload p)"
    and payload_recv:
      "valid p \<Longrightarrow> recvs (\<lambda>s. Serialize s (initial\<lparr>ui32PacketType := ui32PacketType p\<rparr>)) p (payload p)"

sublocale packet_struct \<subseteq> wire_packet "pack_with Serialize" "body_image payload" valid initial
proof (unfold_locales, goal_cases)
  case (1 p)
  then show ?case using payload_fit by (simp add: body_image_def)
next
  case (2 p)
  show ?case unfolding pack_with_def body_image_def
    by (rule sends_bind, rule sends_SerializeHead, rule payload_send [OF 2])
next
  case (3 p)
  show ?case unfolding pack_with_def body_image_def
    by (rule recvs_bind, rule recvs_SerializeHead, rule payload_recv [OF 3])
qed

subsection \<open>Dispatch\<close>

text \<open>The type the handler table is indexed with: 0 when the body is too short or too long.\<close>

definition body_type :: "bytes \<Rightarrow> u32 \<Rightarrow> u32" where
  "body_type data len =
     (if 4 \<le> unat len \<and> unat len \<le> max_packet then le_word (take 4 data) else 0)"

lemma PacketHandler_Execute_eq:
  assumes "unat len \<le> length data \<or> max_packet < unat len"
  shows "PacketHandler_Execute junk h data len st =
    (if unat (body_type data len) < length (packetFunctors h)
     then (case packetFunctors h ! unat (body_type data len) of
             Some pf \<Rightarrow> pf data len st | None \<Rightarrow> Some (False, st))
     else None)"
proof -
  have "\<exists>s s'. Serializer_recv junk data len = Some s \<and>
    SerializeHead s \<lparr>ui32PacketType = 0\<rparr> = Some (\<lparr>ui32PacketType = body_type data len\<rparr>, s')"
  proof (cases "max_packet < unat len")
    case True
    then obtain s where "Serializer_recv junk data len = Some s" "ser_in s []"
      using Serializer_recv_long by blast
    then show ?thesis using True by (auto simp: body_type_def SerializeHead_short)
  next
    case False
    then obtain s where s: "Serializer_recv junk data len = Some s" "ser_in s (take (unat len) data)"
      using assms Serializer_recv_ok [of len data junk] by auto
    then show ?thesis
      using False assms SerializeHead_in [OF s(2), of "\<lparr>ui32PacketType = 0\<rparr>"]
        SerializeHead_short [OF s(2), of "\<lparr>ui32PacketType = 0\<rparr>"]
      by (cases "4 \<le> unat len") (auto simp: body_type_def)
  qed
  then show ?thesis by (auto simp: PacketHandler_Execute_def Let_def)
qed

subsection \<open>Properties\<close>

text \<open>
  C10: Framing round trip.  For every body and every output buffer with room for it,
  \<open>MakeNetworkPacket\<close> succeeds without leaving the buffer; when the bytes it reports are received in
  any segmentation, with anything behind them, \<open>ParseNetworkData\<close> on the ring answers \<open>succ\<close> with
  exactly the frame's length, and reading that many bytes gives the frame back, with the body
  between the 8-byte head and the 12-byte tail whose check key is in place.
\<close>

theorem make_parse_roundtrip:
  assumes body: "unat n \<le> length src" "unat n + 20 \<le> unat cap" "unat cap \<le> length out"
      "unat cap < 2 ^ 31"
    and ring: "circle_ok b" "ring_contents b = []"
    and wire: "concat chunks = take (unat n + 20) out' @ rest" "length (concat chunks) \<le> ring_size b"
    and made: "MakeNetworkPacket src n out cap seq now = Some (code, out', len)"
  shows "\<exists>b'. code = succ \<and> unat len = unat n + 20 \<and> feed CircleBuffer_Write b chunks = Some b' \<and>
    ParseNetworkData b' 0 = Some (succ, len) \<and>
    CircleBuffer_Read b' len = Some (len, take (unat len) out') \<and>
    take (unat n) (drop 8 out') = take (unat n) src \<and>
    ui32CheckTail (tail_of (drop (unat n + 8) out')) = PACKET_CHECK_TAIL_KEY"
proof -
  let ?body = "take (unat n) src"
  have lb: "length ?body = unat n" using body(1) by simp
  have mk: "code = succ" "len = n + 20" "unat len = unat n + 20"
    "take (unat n + 20) out' = frame ?body seq now"
    using MakeNetworkPacket_ok [OF body, of seq now] made by auto
  obtain b' where b': "feed CircleBuffer_Write b chunks = Some b'" "circle_ok b'"
    "ring_contents b' = frame ?body seq now @ rest"
    using circle.feed_concat [OF ring(1), of chunks] ring(2) wire mk(4) by auto
  have small: "length ?body + 20 < 2 ^ 32" using body lb by simp
  have hl: "unat (ui32Length (head_of (ring_contents b'))) = unat n + 20"
    using parse_stream_frame(2) [OF small] b'(3) lb by simp
  have "ParseNetworkData b' 0 = Some (succ, len)"
    using ParseNetworkData_eq [OF b'(2), of 0] parse_stream_frame(1) [OF small] b'(3) hl mk(2,3)
    by (auto simp: word_unat_eq_iff)
  moreover have "CircleBuffer_Read b' len = Some (len, take (unat len) out')"
    using CircleBuffer_Read_ok [OF b'(2), of len] b'(3) mk lb length_ring_contents [of b'] by simp
  moreover have out': "out' = frame ?body seq now @ drop (unat n + 20) out'"
    using mk(4) by (metis append_take_drop_id)
  then have "take (unat n) (drop 8 out') = ?body" using frame_parts(1) lb by metis
  moreover have "tail_of (drop (unat n + 8) out') =
      \<lparr>ui32CheckTail = PACKET_CHECK_TAIL_KEY, ui32PacketSeq = seq, ui32PacketTime = now\<rparr>"
    using out' frame_parts(2) lb by metis
  ultimately show ?thesis using mk b'(1) by simp
qed

theorem make_parse_roundtrip_witness:
  "\<exists>b'. feed CircleBuffer_Write (BufferBase (\<lambda>_. 0) 30)
          [take 5 (frame [9, 8] 0 5), drop 5 (frame [9, 8] 0 5)] = Some b' \<and>
    ParseNetworkData b' 0 = Some (succ, 22) \<and>
    CircleBuffer_Read b' 22 = Some (22, frame [9, 8] 0 5)"
proof -
  have made: "MakeNetworkPacket [9, 8] 2 (replicate 22 0) 22 0 5 = Some (succ, frame [9, 8] 0 5, 22)"
    using MakeNetworkPacket_ok [of 2 "[9, 8]" 22 "replicate 22 0" 0 5] by auto
  have ring: "circle_ok (BufferBase (\<lambda>_. 0) 30)" "ring_contents (BufferBase (\<lambda>_. 0) 30) = []"
    using circle_ok_fresh [of 30 "\<lambda>_. 0"] by auto
  have wire: "concat [take 5 (frame [9, 8] 0 5), drop 5 (frame [9, 8] 0 5)] =
      take (unat (2 :: u32) + 20) (frame [9, 8] 0 5) @ []" by simp
  from make_parse_roundtrip [OF _ _ _ _ ring wire _ made] show ?thesis
    by (auto simp: BufferBase_def)
qed

text \<open>
  A frame that has arrived only in part is never taken for a packet: while the ring holds a
  proper prefix of a frame, however short, \<open>ParseNetworkData\<close> answers \<open>pending\<close> and leaves the
  caller's length alone.
\<close>

theorem parse_fragment_pending:
  assumes "circle_ok b" and "ring_contents b = take k (frame body seq now)"
    and "k < length body + 20" and "length body + 20 < 2 ^ 32"
  shows "ParseNetworkData b len0 = Some (pending, len0)"
  using ParseNetworkData_eq [OF assms(1), of len0] parse_stream_prefix [OF assms(4,3)] assms(2)
  by simp

theorem parse_fragment_pending_witness:
  "\<exists>b. circle_ok b \<and> ring_contents b = take 9 (frame [1] 0 0) \<and> ParseNetworkData b 7 = Some (pending, 7)"
proof -
  obtain b where b: "circle_ok b" "ring_contents b = take 9 (frame [1] 0 0)"
    using circle.feed_concat [of "BufferBase (\<lambda>_. 0) 30" "[take 9 (frame [1] 0 0)]"]
      circle_ok_fresh [of 30 "\<lambda>_. 0"] by (auto simp: BufferBase_def)
  then show ?thesis using parse_fragment_pending [of b 9 "[1]" 0 0 7] by auto
qed

text \<open>
  The handler table is indexed with the type field as it came from the peer.  A body whose first
  four bytes name a type outside the table makes \<open>PacketHandler::Execute\<close> read past
  \<open>_packetFunctors\<close>, whatever is registered.
\<close>

theorem execute_unknown_type_out_of_bounds:
  assumes "4 \<le> unat len" and "unat len \<le> max_packet" and "unat len \<le> length data"
    and "length (packetFunctors h) \<le> unat (le_word (take 4 data) :: u32)"
  shows "PacketHandler_Execute junk h data len st = None"
  using assms by (simp add: PacketHandler_Execute_eq body_type_def)

theorem execute_unknown_type_out_of_bounds_witness:
  "PacketHandler_Execute (\<lambda>_. 0) (PacketHandler 8 :: unit packet_handler) [8, 0, 0, 0] 4 () = None"
  by (rule execute_unknown_type_out_of_bounds) (simp_all add: PacketHandler_def)

end
