(* ===== verification/Packet_Queue.thy ===== *)
theory Packet_Queue
  imports Buffer
begin

text \<open>
  \<^verbatim>\<open>_framework/packet_data_queue.h\<close>: the queues between the network threads and the process thread.
  First the operations as one thread sees them, then the same operations cut at their atomic actions,
  so that several threads can interleave.  An event created by \<open>CreateEvent(0, 0, 0, 0)\<close> resets itself:
  it is a flag that a successful wait clears.
\<close>

definition MAX_PACKET_QUEUE_PHASE :: int where
  "MAX_PACKET_QUEUE_PHASE = 4"

record PacketStruct = buffer +
  ps_pConnector :: "nat option"

record 'p packet_queue =
  hQueueEvent :: "bool list"
  lstPacketQueue :: "'p list list"

definition PacketDataQueue :: "'p packet_queue" where
  "PacketDataQueue = \<lparr>hQueueEvent = replicate 5 False, lstPacketQueue = replicate 5 []\<rparr>"

definition SetEvent :: "'p packet_queue \<Rightarrow> int \<Rightarrow> 'p packet_queue" where
  "SetEvent q phase = q\<lparr>hQueueEvent := (hQueueEvent q)[nat phase := True]\<rparr>"

definition ForceActivateQueueEvent :: "'p packet_queue \<Rightarrow> 'p packet_queue" where
  "ForceActivateQueueEvent q = fold (\<lambda>idx q. SetEvent q idx) [0 .. MAX_PACKET_QUEUE_PHASE] q"

definition PacketDataQueue_Push :: "'p packet_queue \<Rightarrow> 'p \<Rightarrow> int \<Rightarrow> u64 \<times> 'p packet_queue" where
  "PacketDataQueue_Push q x phase =
     (if 0 > phase \<or> MAX_PACKET_QUEUE_PHASE < phase then (- 1, q)
      else let xs = lstPacketQueue q ! nat phase @ [x]
           in (of_nat (length xs), q\<lparr>lstPacketQueue := (lstPacketQueue q)[nat phase := xs]\<rparr>))"

text \<open>
  \<open>Pop\<close> looks at \<open>empty()\<close> before it takes the lock; under the lock it takes the first element, which is
  undefined when there is none.
\<close>

definition Pop_look :: "'p packet_queue \<Rightarrow> int \<Rightarrow> bool" where
  "Pop_look q phase \<longleftrightarrow> lstPacketQueue q ! nat phase = []"

definition Pop_front :: "'p packet_queue \<Rightarrow> int \<Rightarrow> ('p \<times> 'p packet_queue) option" where
  "Pop_front q phase =
     (case lstPacketQueue q ! nat phase of
        [] \<Rightarrow> None
      | x # xs \<Rightarrow> Some (x, q\<lparr>lstPacketQueue := (lstPacketQueue q)[nat phase := xs]\<rparr>))"

definition PacketDataQueue_Pop :: "'p packet_queue \<Rightarrow> int \<Rightarrow> 'p option \<times> 'p packet_queue" where
  "PacketDataQueue_Pop q phase =
     (if 0 > phase \<or> MAX_PACKET_QUEUE_PHASE < phase then (None, q)
      else if Pop_look q phase then (None, q)
      else case Pop_front q phase of Some (x, q') \<Rightarrow> (Some x, q') | None \<Rightarrow> (None, q))"

definition RecvPacketQueue_Push :: "'p packet_queue \<Rightarrow> 'p option \<Rightarrow> int \<Rightarrow> u64 \<times> 'p packet_queue" where
  "RecvPacketQueue_Push q x phase =
     (case x of
        None \<Rightarrow> (- 1, q)
      | Some p \<Rightarrow>
          if 0 > phase \<or> MAX_PACKET_QUEUE_PHASE \<le> phase then (- 1, q)
          else (case PacketDataQueue_Push q p phase of (n, q') \<Rightarrow> (n, SetEvent q' phase)))"

text \<open>\<open>WaitForSingleObject(\<dots>, INFINITE)\<close> with nobody else around: it goes on when the event is set.\<close>

datatype 'r blocking = Blocks | Returns 'r

definition Wait :: "'p packet_queue \<Rightarrow> int \<Rightarrow> 'p packet_queue blocking" where
  "Wait q phase =
     (if hQueueEvent q ! nat phase
      then Returns (q\<lparr>hQueueEvent := (hQueueEvent q)[nat phase := False]\<rparr>) else Blocks)"

definition RecvPacketQueue_Pop :: "'p packet_queue \<Rightarrow> int \<Rightarrow> ('p option \<times> 'p packet_queue) blocking" where
  "RecvPacketQueue_Pop q phase =
     (if 0 > phase \<or> MAX_PACKET_QUEUE_PHASE \<le> phase then Returns (None, q)
      else case PacketDataQueue_Pop q phase of
             (Some p, q') \<Rightarrow> Returns (Some p, q')
           | (None, q') \<Rightarrow> (case Wait q' phase of
                 Blocks \<Rightarrow> Blocks
               | Returns q'' \<Rightarrow> Returns (PacketDataQueue_Pop q'' phase)))"

definition SendPacketQueue_Push :: "'p packet_queue \<Rightarrow> 'p option \<Rightarrow> u64 \<times> 'p packet_queue" where
  "SendPacketQueue_Push q x =
     (case x of
        None \<Rightarrow> (- 1, q)
      | Some p \<Rightarrow> (case PacketDataQueue_Push q p 0 of (n, q') \<Rightarrow> (n, SetEvent q' 0)))"

definition SendPacketQueue_Pop :: "'p packet_queue \<Rightarrow> ('p option \<times> 'p packet_queue) blocking" where
  "SendPacketQueue_Pop q =
     (case PacketDataQueue_Pop q 0 of
        (Some p, q') \<Rightarrow> Returns (Some p, q')
      | (None, q') \<Rightarrow> (case Wait q' 0 of
            Blocks \<Rightarrow> Blocks
          | Returns q'' \<Rightarrow> Returns (PacketDataQueue_Pop q'' 0)))"

definition GetFreePacketStruct :: "(nat \<Rightarrow> byte) \<Rightarrow> PacketStruct" where
  "GetFreePacketStruct junk =
     buffer.extend (BufferBase junk MAX_PACKET_BUFFER_SIZE) \<lparr>ps_pConnector = None\<rparr>"

subsection \<open>One thread\<close>

definition queue_ok :: "'p packet_queue \<Rightarrow> bool" where
  "queue_ok q \<longleftrightarrow> length (hQueueEvent q) = 5 \<and> length (lstPacketQueue q) = 5"

lemma queue_ok_new: "queue_ok PacketDataQueue"
  by (simp add: queue_ok_def PacketDataQueue_def)

lemma queue_ok_SetEvent: "queue_ok q \<Longrightarrow> queue_ok (SetEvent q phase)"
  by (simp add: queue_ok_def SetEvent_def)

lemma queue_ok_Push: "queue_ok q \<Longrightarrow> queue_ok (snd (PacketDataQueue_Push q x phase))"
  by (simp add: queue_ok_def PacketDataQueue_Push_def Let_def)

lemma queue_ok_Pop: "queue_ok q \<Longrightarrow> queue_ok (snd (PacketDataQueue_Pop q phase))"
  by (auto simp: queue_ok_def PacketDataQueue_Pop_def Pop_look_def Pop_front_def split: list.splits)

lemma queue_ok_Recv_Push: "queue_ok q \<Longrightarrow> queue_ok (snd (RecvPacketQueue_Push q y phase))"
  by (simp add: RecvPacketQueue_Push_def queue_ok_Push queue_ok_SetEvent split_def split: option.splits)

text \<open>What one phase holds, as a list; pushing and popping are enqueuing and dequeuing it.\<close>

abbreviation phase_ok :: "int \<Rightarrow> bool" where
  "phase_ok phase \<equiv> 0 \<le> phase \<and> phase < MAX_PACKET_QUEUE_PHASE"

definition waiting :: "'p packet_queue \<Rightarrow> int \<Rightarrow> 'p list" where
  "waiting q phase = lstPacketQueue q ! nat phase"

lemma Recv_Push_waiting:
  assumes "queue_ok q" and "phase_ok phase" and "RecvPacketQueue_Push q (Some x) phase = (n, q')"
  shows "waiting q' phase = waiting q phase @ [x] \<and> n = of_nat (length (waiting q' phase)) \<and>
    hQueueEvent q' ! nat phase \<and>
    (\<forall>other. phase_ok other \<longrightarrow> other \<noteq> phase \<longrightarrow> waiting q' other = waiting q other)"
  using assms
  by (auto simp: RecvPacketQueue_Push_def PacketDataQueue_Push_def SetEvent_def waiting_def Let_def
      queue_ok_def MAX_PACKET_QUEUE_PHASE_def nth_list_update split: if_splits)

lemma Recv_Pop_waiting:
  assumes "queue_ok q" and "phase_ok phase" and "waiting q phase = x # xs"
  shows "\<exists>q'. RecvPacketQueue_Pop q phase = Returns (Some x, q') \<and> waiting q' phase = xs \<and>
    (\<forall>other. phase_ok other \<longrightarrow> other \<noteq> phase \<longrightarrow> waiting q' other = waiting q other)"
  using assms
  by (auto simp: RecvPacketQueue_Pop_def PacketDataQueue_Pop_def Pop_look_def Pop_front_def waiting_def queue_ok_def
      MAX_PACKET_QUEUE_PHASE_def nth_list_update)

subsection \<open>Interleaving threads\<close>

text \<open>
  Any number of producers and the consumers whose positions \<open>pcs\<close> lists share one phase of the queue.  A
  producer in \<open>RecvPacketQueue::Push\<close> pushes under the lock and sets the event later; \<open>signals\<close> counts the
  producers in between.  A consumer in \<open>RecvPacketQueue::Pop\<close> looks at \<open>empty()\<close> without the lock and takes
  the first element under it, waits, and tries once more.  \<open>ForceActivateQueueEvent\<close> may run at any time.
  \<open>broken\<close> records that an element was taken from an empty list; \<open>sent\<close> and \<open>got\<close> record what was pushed
  and what \<open>Pop\<close> returned.
\<close>

datatype pc = Check | Locked_pop | Waiting | Recheck | Locked_repop

record 'p threads =
  queue :: "'p packet_queue"
  signals :: nat
  pcs :: "pc list"
  sent :: "'p list"
  got :: "'p list"
  broken :: bool

definition threads_init :: "nat \<Rightarrow> 'p threads" where
  "threads_init n = \<lparr>queue = PacketDataQueue, signals = 0, pcs = replicate n Check, sent = [], got = [], broken = False\<rparr>"

definition pop_step :: "int \<Rightarrow> 'p threads \<Rightarrow> nat \<Rightarrow> 'p threads" where
  "pop_step phase s c = (case Pop_front (queue s) phase of
       None \<Rightarrow> s\<lparr>broken := True, pcs := (pcs s)[c := Check]\<rparr>
     | Some (x, q) \<Rightarrow> s\<lparr>queue := q, got := got s @ [x], pcs := (pcs s)[c := Check]\<rparr>)"

inductive consume :: "int \<Rightarrow> 'p threads \<Rightarrow> 'p threads \<Rightarrow> bool" for phase where
  see_some: "c < length (pcs s) \<Longrightarrow> pcs s ! c = Check \<Longrightarrow> \<not> Pop_look (queue s) phase \<Longrightarrow>
     consume phase s (s\<lparr>pcs := (pcs s)[c := Locked_pop]\<rparr>)"
| see_none: "c < length (pcs s) \<Longrightarrow> pcs s ! c = Check \<Longrightarrow> Pop_look (queue s) phase \<Longrightarrow>
     consume phase s (s\<lparr>pcs := (pcs s)[c := Waiting]\<rparr>)"
| pop: "c < length (pcs s) \<Longrightarrow> pcs s ! c = Locked_pop \<Longrightarrow> consume phase s (pop_step phase s c)"
| woken: "c < length (pcs s) \<Longrightarrow> pcs s ! c = Waiting \<Longrightarrow> Wait (queue s) phase = Returns q \<Longrightarrow>
     consume phase s (s\<lparr>queue := q, pcs := (pcs s)[c := Recheck]\<rparr>)"
| again_some: "c < length (pcs s) \<Longrightarrow> pcs s ! c = Recheck \<Longrightarrow> \<not> Pop_look (queue s) phase \<Longrightarrow>
     consume phase s (s\<lparr>pcs := (pcs s)[c := Locked_repop]\<rparr>)"
| again_none: "c < length (pcs s) \<Longrightarrow> pcs s ! c = Recheck \<Longrightarrow> Pop_look (queue s) phase \<Longrightarrow>
     consume phase s (s\<lparr>pcs := (pcs s)[c := Check]\<rparr>)"
| repop: "c < length (pcs s) \<Longrightarrow> pcs s ! c = Locked_repop \<Longrightarrow> consume phase s (pop_step phase s c)"

inductive produce :: "int \<Rightarrow> 'p threads \<Rightarrow> 'p threads \<Rightarrow> bool" for phase where
  push: "PacketDataQueue_Push (queue s) x phase = (n, q) \<Longrightarrow>
     produce phase s (s\<lparr>queue := q, sent := sent s @ [x], signals := signals s + 1\<rparr>)"
| signal: "0 < signals s \<Longrightarrow> produce phase s (s\<lparr>queue := SetEvent (queue s) phase, signals := signals s - 1\<rparr>)"
| force: "produce phase s (s\<lparr>queue := ForceActivateQueueEvent (queue s)\<rparr>)"

inductive queue_reachable :: "int \<Rightarrow> nat \<Rightarrow> 'p threads \<Rightarrow> bool" for phase n where
  start: "queue_reachable phase n (threads_init n)"
| consumer: "queue_reachable phase n s \<Longrightarrow> consume phase s s' \<Longrightarrow> queue_reachable phase n s'"
| producer: "queue_reachable phase n s \<Longrightarrow> produce phase s s' \<Longrightarrow> queue_reachable phase n s'"

inductive_cases consumeE: "consume phase s s'"
inductive_cases produceE: "produce phase s s'"

text \<open>The atomic actions in terms of what the phase holds and of its event.\<close>

definition set_event :: "'p packet_queue \<Rightarrow> int \<Rightarrow> bool" where
  "set_event q phase = hQueueEvent q ! nat phase"

lemma ForceActivateQueueEvent_eq:
  "queue_ok q \<Longrightarrow> ForceActivateQueueEvent q = q\<lparr>hQueueEvent := replicate 5 True\<rparr>"
proof -
  assume "queue_ok q"
  then obtain a b c d e where h: "hQueueEvent q = [a, b, c, d, e]"
    by (auto simp: queue_ok_def numeral_eq_Suc length_Suc_conv)
  have i: "[0 .. MAX_PACKET_QUEUE_PHASE] = [0, 1, 2, 3, 4]" by (simp add: MAX_PACKET_QUEUE_PHASE_def upto.simps)
  show ?thesis unfolding ForceActivateQueueEvent_def i by (simp add: SetEvent_def h numeral_eq_Suc)
qed

lemma atomic_push:
  assumes "queue_ok q" and "phase_ok phase" and "PacketDataQueue_Push q x phase = (n, q')"
  shows "queue_ok q'" "waiting q' phase = waiting q phase @ [x]" "set_event q' phase = set_event q phase"
  using assms
  by (auto simp: queue_ok_def PacketDataQueue_Push_def waiting_def set_event_def MAX_PACKET_QUEUE_PHASE_def Let_def split: if_splits)

lemma atomic_event:
  assumes "queue_ok q" and "phase_ok phase"
  shows "queue_ok (SetEvent q phase)" "waiting (SetEvent q phase) phase = waiting q phase" "set_event (SetEvent q phase) phase"
    "queue_ok (ForceActivateQueueEvent q)" "waiting (ForceActivateQueueEvent q) phase = waiting q phase"
    "set_event (ForceActivateQueueEvent q) phase"
proof -
  have "nat phase < 5" using assms(2) unfolding MAX_PACKET_QUEUE_PHASE_def by linarith
  then show "queue_ok (SetEvent q phase)" "waiting (SetEvent q phase) phase = waiting q phase" "set_event (SetEvent q phase) phase"
    "queue_ok (ForceActivateQueueEvent q)" "waiting (ForceActivateQueueEvent q) phase = waiting q phase"
    "set_event (ForceActivateQueueEvent q) phase"
    using assms(1) ForceActivateQueueEvent_eq [OF assms(1)]
    by (simp_all add: queue_ok_def SetEvent_def waiting_def set_event_def)
qed

lemma atomic_wait:
  assumes "queue_ok q" and "Wait q phase = Returns q'"
  shows "queue_ok q'" "waiting q' phase = waiting q phase"
  using assms by (auto simp: Wait_def queue_ok_def waiting_def split: if_splits)

lemma Wait_set: "Wait q phase = (if set_event q phase then Returns (q\<lparr>hQueueEvent := (hQueueEvent q)[nat phase := False]\<rparr>) else Blocks)"
  by (simp add: Wait_def set_event_def)

lemma Pop_look_waiting: "Pop_look q phase \<longleftrightarrow> waiting q phase = []"
  by (simp add: Pop_look_def waiting_def)

lemma Pop_front_waiting:
  assumes "queue_ok q" and "phase_ok phase"
  shows "Pop_front q phase = None \<longleftrightarrow> waiting q phase = []"
    "Pop_front q phase = Some (x, q') \<Longrightarrow> waiting q phase = x # waiting q' phase \<and> queue_ok q' \<and>
       set_event q' phase = set_event q phase"
  using assms
  by (auto simp: Pop_front_def waiting_def set_event_def queue_ok_def MAX_PACKET_QUEUE_PHASE_def split: list.splits)

subsection \<open>The operations as sequences of actions\<close>

text \<open>A call that nobody interrupts is the sequence of its atomic actions.\<close>

lemma Push_is_steps:
  assumes "phase_ok phase" and "RecvPacketQueue_Push (queue s) (Some x) phase = (n, q)"
  shows "(produce phase OO produce phase) s (s\<lparr>queue := q, sent := sent s @ [x]\<rparr>)"
proof -
  obtain q1 where q1: "PacketDataQueue_Push (queue s) x phase = (n, q1)" "q = SetEvent q1 phase"
    using assms by (auto simp: RecvPacketQueue_Push_def split: prod.splits)
  let ?s1 = "s\<lparr>queue := q1, sent := sent s @ [x], signals := signals s + 1\<rparr>"
  have "produce phase ?s1 (?s1\<lparr>queue := SetEvent (queue ?s1) phase, signals := signals ?s1 - 1\<rparr>)"
    by (rule produce.signal) simp
  moreover have "?s1\<lparr>queue := SetEvent (queue ?s1) phase, signals := signals ?s1 - 1\<rparr> = s\<lparr>queue := q, sent := sent s @ [x]\<rparr>"
    by (cases s) (simp add: q1(2))
  ultimately show ?thesis using produce.push [OF q1(1)] by (intro relcomppI [of _ s ?s1]) simp_all
qed

lemma try_pop_steps:
  assumes "phase_ok phase" and "PacketDataQueue_Pop (queue s) phase = (r, q)" and "c < length (pcs s)"
  shows "pcs s ! c = Check \<Longrightarrow> (consume phase)\<^sup>*\<^sup>* s (s\<lparr>queue := q, got := got s @ (case r of None \<Rightarrow> [] | Some x \<Rightarrow> [x]),
      pcs := (pcs s)[c := if r = None then Waiting else Check]\<rparr>)"
    "pcs s ! c = Recheck \<Longrightarrow> (consume phase)\<^sup>*\<^sup>* s (s\<lparr>queue := q, got := got s @ (case r of None \<Rightarrow> [] | Some x \<Rightarrow> [x]),
      pcs := (pcs s)[c := Check]\<rparr>)"
proof -
  have ph: "\<not> (0 > phase \<or> MAX_PACKET_QUEUE_PHASE < phase)" using assms(1) by simp
  consider (no) "Pop_look (queue s) phase" "r = None" "q = queue s"
    | (yes) x where "\<not> Pop_look (queue s) phase" "Pop_front (queue s) phase = Some (x, q)" "r = Some x"
    using assms(2) ph by (auto simp: PacketDataQueue_Pop_def Pop_look_def Pop_front_def split: if_splits list.splits)
  note cases = this
  show "(consume phase)\<^sup>*\<^sup>* s (s\<lparr>queue := q, got := got s @ (case r of None \<Rightarrow> [] | Some x \<Rightarrow> [x]),
      pcs := (pcs s)[c := if r = None then Waiting else Check]\<rparr>)" if c: "pcs s ! c = Check"
    using cases
  proof cases
    case no
    then show ?thesis using consume.see_none [OF assms(3) c] by auto
  next
    case yes
    let ?s = "s\<lparr>pcs := (pcs s)[c := Locked_pop]\<rparr>"
    have "consume phase ?s (pop_step phase ?s c)" using consume.pop [of c ?s] assms(3) by simp
    then have "(consume phase)\<^sup>*\<^sup>* s (pop_step phase ?s c)"
      using consume.see_some [OF assms(3) c yes(1)] by (meson converse_rtranclp_into_rtranclp r_into_rtranclp)
    then show ?thesis using yes by (simp add: pop_step_def)
  qed
  show "(consume phase)\<^sup>*\<^sup>* s (s\<lparr>queue := q, got := got s @ (case r of None \<Rightarrow> [] | Some x \<Rightarrow> [x]),
      pcs := (pcs s)[c := Check]\<rparr>)" if c: "pcs s ! c = Recheck"
    using cases
  proof cases
    case no
    then show ?thesis using consume.again_none [OF assms(3) c] by auto
  next
    case yes
    let ?s = "s\<lparr>pcs := (pcs s)[c := Locked_repop]\<rparr>"
    have "consume phase ?s (pop_step phase ?s c)" using consume.repop [of c ?s] assms(3) by simp
    then have "(consume phase)\<^sup>*\<^sup>* s (pop_step phase ?s c)"
      using consume.again_some [OF assms(3) c yes(1)] by (meson converse_rtranclp_into_rtranclp r_into_rtranclp)
    then show ?thesis using yes by (simp add: pop_step_def)
  qed
qed

lemma Pop_is_steps:
  assumes ph: "phase_ok phase" and r: "RecvPacketQueue_Pop (queue s) phase = Returns (r, q)"
    and c: "c < length (pcs s)" "pcs s ! c = Check"
  shows "(consume phase)\<^sup>*\<^sup>* s (s\<lparr>queue := q, got := got s @ (case r of None \<Rightarrow> [] | Some x \<Rightarrow> [x])\<rparr>)"
proof -
  obtain r1 q1 where p1: "PacketDataQueue_Pop (queue s) phase = (r1, q1)" by fastforce
  note s1 = try_pop_steps(1) [OF ph p1 c]
  have id: "(pcs s)[c := Check] = pcs s" using c by (metis list_update_id)
  show ?thesis
  proof (cases r1)
    case (Some x)
    then have "r = Some x" "q = q1" using r p1 ph by (auto simp: RecvPacketQueue_Pop_def)
    then show ?thesis using s1 Some id by simp
  next
    case None
    then obtain q2 where q2: "Wait q1 phase = Returns q2" "PacketDataQueue_Pop q2 phase = (r, q)"
      using r p1 ph by (auto simp: RecvPacketQueue_Pop_def split: blocking.splits)
    let ?s1 = "s\<lparr>queue := q1, pcs := (pcs s)[c := Waiting]\<rparr>"
    let ?s2 = "s\<lparr>queue := q2, pcs := (pcs s)[c := Recheck]\<rparr>"
    have "consume phase ?s1 ?s2" using consume.woken [of c ?s1 phase q2] c q2(1) by simp
    moreover have "(consume phase)\<^sup>*\<^sup>* ?s2 (s\<lparr>queue := q, got := got s @ (case r of None \<Rightarrow> [] | Some x \<Rightarrow> [x])\<rparr>)"
      using try_pop_steps(2) [OF ph, of ?s2 r q c] q2(2) c id by simp
    moreover have "(consume phase)\<^sup>*\<^sup>* s ?s1" using s1 None by simp
    ultimately show ?thesis by (meson converse_rtranclp_into_rtranclp rtranclp_trans)
  qed
qed

subsection \<open>One consumer\<close>

text \<open>With one consumer the unlocked look at \<open>empty()\<close> stays true until the pop.\<close>

definition one_consumer :: "int \<Rightarrow> 'p threads \<Rightarrow> bool" where
  "one_consumer phase s \<longleftrightarrow> queue_ok (queue s) \<and>
     (\<exists>c. pcs s = [c] \<and> (c \<in> {Locked_pop, Locked_repop} \<longrightarrow> waiting (queue s) phase \<noteq> []) \<and>
       (c = Waiting \<and> waiting (queue s) phase \<noteq> [] \<longrightarrow> set_event (queue s) phase \<or> 0 < signals s)) \<and>
     got s @ waiting (queue s) phase = sent s \<and> \<not> broken s"

lemma one_consumer_pop:
  assumes "phase_ok phase" and "one_consumer phase s" and "pcs s ! c \<in> {Locked_pop, Locked_repop}" "c < length (pcs s)"
  shows "one_consumer phase (pop_step phase s c)"
proof -
  have ok: "queue_ok (queue s)" and ne: "waiting (queue s) phase \<noteq> []" and c: "c = 0" "length (pcs s) = 1"
    using assms by (auto simp: one_consumer_def)
  obtain x q where p: "Pop_front (queue s) phase = Some (x, q)"
    using Pop_front_waiting(1) [OF ok assms(1)] ne by fastforce
  show ?thesis
    using Pop_front_waiting(2) [OF ok assms(1) p] p assms(2) c by (auto simp: one_consumer_def pop_step_def)
qed

lemma one_consumer_consume:
  assumes "consume phase s s'" and "phase_ok phase" and "one_consumer phase s"
  shows "one_consumer phase s'"
  using assms(1)
proof (cases rule: consume.cases)
  case (woken c q)
  then show ?thesis
    using assms(3) atomic_wait [of "queue s" phase q] by (auto simp: one_consumer_def)
qed (use assms one_consumer_pop in \<open>auto simp: one_consumer_def Pop_look_waiting\<close>)

lemma one_consumer_produce:
  assumes "produce phase s s'" and "phase_ok phase" and "one_consumer phase s"
  shows "one_consumer phase s'"
  using assms(1)
proof (cases rule: produce.cases)
  case (push x n q)
  then show ?thesis using assms(3) atomic_push [OF _ assms(2) push(2)] by (auto simp: one_consumer_def)
next
  case signal
  then show ?thesis using assms(3) atomic_event(1-3) [OF _ assms(2), of "queue s"] by (auto simp: one_consumer_def)
next
  case force
  then show ?thesis using assms(3) atomic_event(4-6) [OF _ assms(2), of "queue s"] by (auto simp: one_consumer_def)
qed

lemma one_consumer_reachable: "queue_reachable phase 1 s \<Longrightarrow> phase_ok phase \<Longrightarrow> one_consumer phase s"
proof (induction rule: queue_reachable.induct)
  case start
  then have "nat phase < 5" unfolding MAX_PACKET_QUEUE_PHASE_def by linarith
  then show ?case using queue_ok_new by (simp add: one_consumer_def threads_init_def waiting_def) (simp add: PacketDataQueue_def)
qed (auto intro: one_consumer_consume one_consumer_produce)

lemma one_consumer_steps: "(consume phase)\<^sup>*\<^sup>* s s' \<Longrightarrow> phase_ok phase \<Longrightarrow> one_consumer phase s \<Longrightarrow> one_consumer phase s'"
  by (induction rule: rtranclp_induct) (auto intro: one_consumer_consume)

lemma consume_keeps: "consume phase s s' \<Longrightarrow> sent s' = sent s \<and> signals s' = signals s"
  by (erule consumeE) (auto simp: pop_step_def split: option.splits prod.splits)

lemma consume_all_keeps: "(consume phase)\<^sup>*\<^sup>* s s' \<Longrightarrow> sent s' = sent s \<and> signals s' = signals s"
  by (induction rule: rtranclp_induct) (auto dest: consume_keeps)

text \<open>Between two calls, or woken up, the consumer gets the next packet.\<close>

lemma deliver_next:
  assumes ph: "phase_ok phase" and one: "one_consumer phase s" and w: "waiting (queue s) phase = x # xs" and sig: "signals s = 0"
  shows "\<exists>s'. (consume phase)\<^sup>*\<^sup>* s s' \<and> waiting (queue s') phase = xs"
proof -
  obtain c where c: "pcs s = [c]" "c = Waiting \<Longrightarrow> set_event (queue s) phase" and ok: "queue_ok (queue s)"
    using one w sig by (auto simp: one_consumer_def)
  have taken: "waiting (queue (pop_step phase t 0)) phase = xs" if t: "queue_ok (queue t)" "waiting (queue t) phase = x # xs"
    for t :: "'a threads"
    using Pop_front_waiting [OF t(1) ph] t(2) by (auto simp: pop_step_def split: option.splits)
  have again: "(consume phase)\<^sup>*\<^sup>* t (pop_step phase (t\<lparr>pcs := [Locked_repop]\<rparr>) 0)"
    if t: "pcs t = [Recheck]" "waiting (queue t) phase = x # xs" for t :: "'a threads"
    using consume.again_some [of 0 t phase] consume.repop [of 0 "t\<lparr>pcs := [Locked_repop]\<rparr>" phase] t
    by (simp add: Pop_look_waiting converse_rtranclp_into_rtranclp)
  show ?thesis
  proof (cases c)
    case Check
    let ?t = "s\<lparr>pcs := [Locked_pop]\<rparr>"
    have "consume phase s ?t" "consume phase ?t (pop_step phase ?t 0)"
      using consume.see_some [of 0 s phase] consume.pop [of 0 ?t phase] c(1) Check w by (simp_all add: Pop_look_waiting)
    then show ?thesis using taken [of ?t] ok w
      by (intro exI [of _ "pop_step phase ?t 0"]) (simp add: converse_rtranclp_into_rtranclp)
  next
    case Waiting
    define q where "q = (queue s)\<lparr>hQueueEvent := (hQueueEvent (queue s))[nat phase := False]\<rparr>"
    let ?t = "s\<lparr>queue := q, pcs := [Recheck]\<rparr>"
    have wq: "Wait (queue s) phase = Returns q" using c(2) Waiting by (simp add: Wait_set q_def)
    note aw = atomic_wait [OF ok wq]
    have "consume phase s ?t" using consume.woken [of 0 s phase q] c(1) Waiting wq by simp
    then show ?thesis
      using again [of ?t] taken [of "?t\<lparr>pcs := [Locked_repop]\<rparr>"] aw w
      by (intro exI [of _ "pop_step phase (?t\<lparr>pcs := [Locked_repop]\<rparr>) 0"]) (simp add: converse_rtranclp_into_rtranclp)
  next
    case Recheck
    then show ?thesis
      using again [of s] taken [of "s\<lparr>pcs := [Locked_repop]\<rparr>"] c(1) ok w
      by (intro exI [of _ "pop_step phase (s\<lparr>pcs := [Locked_repop]\<rparr>) 0"]) simp
  next
    case Locked_pop
    then show ?thesis using consume.pop [of 0 s phase] c(1) taken [OF ok w] by (intro exI [of _ "pop_step phase s 0"]) auto
  next
    case Locked_repop
    then show ?thesis using consume.repop [of 0 s phase] c(1) taken [OF ok w] by (intro exI [of _ "pop_step phase s 0"]) auto
  qed
qed

lemma deliver_all:
  "phase_ok phase \<Longrightarrow> one_consumer phase s \<Longrightarrow> signals s = 0 \<Longrightarrow>
   \<exists>s'. (consume phase)\<^sup>*\<^sup>* s s' \<and> waiting (queue s') phase = [] \<and> got s' = sent s"
proof (induction "waiting (queue s) phase" arbitrary: s)
  case Nil
  then show ?case by (intro exI [of _ s]) (auto simp: one_consumer_def)
next
  case (Cons x xs)
  then obtain s' where s': "(consume phase)\<^sup>*\<^sup>* s s'" "waiting (queue s') phase = xs"
    using deliver_next [of phase s x xs] by metis
  note k = consume_all_keeps [OF s'(1)]
  then show ?case
    using Cons.hyps(1) [of s'] s' one_consumer_steps [OF s'(1)] Cons.prems by (metis rtranclp_trans)
qed

subsection \<open>Properties\<close>

text \<open>
  C12: The receive queue is a first-in first-out channel between threads.  With any number of producers
  in \<open>RecvPacketQueue::Push\<close> and the one consumer in \<open>RecvPacketQueue::Pop\<close> the program runs, in every
  interleaving of their atomic actions on the queue and however often the events are forced: the packets
  returned so far, followed by those still queued, are the packets pushed so far in their order; the pop
  never touches an empty list; and a consumer that waits while packets are queued is about to be woken.
\<close>

theorem recv_queue_fifo:
  assumes "queue_reachable phase 1 s" and "phase_ok phase"
  shows "got s @ lstPacketQueue (queue s) ! nat phase = sent s \<and> \<not> broken s \<and>
    (pcs s = [Waiting] \<and> lstPacketQueue (queue s) ! nat phase \<noteq> [] \<longrightarrow>
      Wait (queue s) phase \<noteq> Blocks \<or> 0 < signals s)"
  using one_consumer_reachable [OF assms] by (auto simp: one_consumer_def waiting_def Wait_set)

text \<open>One packet is pushed, and the producer has set the event.\<close>

lemma demo_pushed:
  "\<exists>s :: nat threads. queue_reachable 0 1 s \<and> sent s = [7] \<and> got s = [] \<and> signals s = 0"
proof -
  obtain n q where p: "RecvPacketQueue_Push (queue (threads_init 1)) (Some (7 :: nat)) 0 = (n, q)" by fastforce
  let ?s = "(threads_init 1)\<lparr>queue := q, sent := [7]\<rparr>"
  have "(produce 0 OO produce 0) (threads_init 1) ?s"
    using Push_is_steps [of 0 "threads_init 1" 7 n q] p by (simp add: MAX_PACKET_QUEUE_PHASE_def threads_init_def)
  then have "queue_reachable 0 1 ?s"
    by (auto intro: queue_reachable.producer [OF queue_reachable.producer [OF queue_reachable.start]])
  then show ?thesis by (intro exI [of _ ?s]) (simp add: threads_init_def)
qed

theorem recv_queue_fifo_witness:
  "\<exists>s :: nat threads. queue_reachable 0 1 s \<and> got s = [] \<and> lstPacketQueue (queue s) ! 0 = [7]"
  using demo_pushed recv_queue_fifo [of 0] by (fastforce simp: MAX_PACKET_QUEUE_PHASE_def)

text \<open>
  C7: No wake-up is lost: from every reachable state in which the producers have finished their calls,
  the consumer alone can go on until it has returned every packet that was pushed, in their order.
\<close>

theorem recv_queue_drains:
  assumes "queue_reachable phase 1 s" and "phase_ok phase" and "signals s = 0"
  shows "\<exists>s'. (consume phase)\<^sup>*\<^sup>* s s' \<and> lstPacketQueue (queue s') ! nat phase = [] \<and> got s' = sent s"
  using deliver_all [OF assms(2) one_consumer_reachable [OF assms(1,2)] assms(3)] by (simp add: waiting_def)

theorem recv_queue_drains_witness:
  "\<exists>s s' :: nat threads. queue_reachable 0 1 s \<and> got s = [] \<and> (consume 0)\<^sup>*\<^sup>* s s' \<and> got s' = [7]"
  using demo_pushed recv_queue_drains [of 0] by (fastforce simp: MAX_PACKET_QUEUE_PHASE_def)

text \<open>
  The look at \<open>empty()\<close> outside the lock is safe only for a single consumer: with two of them there
  is an interleaving in which both see the one queued packet and the second pops an empty list.
\<close>

theorem two_consumers_break:
  "\<exists>s :: 'p threads. queue_reachable 0 2 s \<and> broken s"
proof -
  let ?s0 = "threads_init 2 :: 'p threads"
  obtain n q where p: "PacketDataQueue_Push (queue ?s0) undefined 0 = (n, q)" by fastforce
  let ?s1 = "?s0\<lparr>queue := q, sent := [undefined], signals := 1\<rparr>"
  let ?s2 = "?s1\<lparr>pcs := [Locked_pop, Check]\<rparr>"
  let ?s3 = "?s1\<lparr>pcs := [Locked_pop, Locked_pop]\<rparr>"
  have ph: "phase_ok 0" by (simp add: MAX_PACKET_QUEUE_PHASE_def)
  have ok: "queue_ok (queue ?s0)" "waiting (queue ?s0) 0 = []" "pcs ?s0 = [Check, Check]"
    using queue_ok_new by (simp_all add: threads_init_def waiting_def numeral_2_eq_2) (simp add: PacketDataQueue_def)
  have w: "queue_ok q" "waiting q 0 = [undefined]" using atomic_push [OF ok(1) ph p] ok(2) by simp_all
  have "queue_reachable 0 2 ?s1"
    using queue_reachable.producer [OF queue_reachable.start produce.push [OF p]] by (simp add: threads_init_def)
  then have "queue_reachable 0 2 ?s2"
    using queue_reachable.consumer [of 0 2 ?s1] consume.see_some [of 0 ?s1 0] ok(3) w by (simp add: Pop_look_waiting)
  then have "queue_reachable 0 2 ?s3"
    using queue_reachable.consumer [of 0 2 ?s2] consume.see_some [of 1 ?s2 0] w by (simp add: Pop_look_waiting)
  then have r4: "queue_reachable 0 2 (pop_step 0 ?s3 0)"
    using queue_reachable.consumer [of 0 2 ?s3] consume.pop [of 0 ?s3 0] by simp
  obtain q' where q': "Pop_front q 0 = Some (undefined, q')" "waiting q' 0 = []" "queue_ok q'"
    using Pop_front_waiting [OF w(1) ph] w(2) by (cases "Pop_front q 0") auto
  let ?s4 = "pop_step 0 ?s3 0"
  have s4: "pcs ?s4 = [Check, Locked_pop]" "queue ?s4 = q'" using q' by (simp_all add: pop_step_def)
  have "queue_reachable 0 2 (pop_step 0 ?s4 1)"
    using queue_reachable.consumer [OF r4] consume.pop [of 1 ?s4 0] s4(1) by simp
  moreover have "broken (pop_step 0 t 1)" if "Pop_front (queue t) 0 = None" for t :: "'p threads"
    using that by (simp add: pop_step_def)
  then have "broken (pop_step 0 ?s4 1)" using Pop_front_waiting(1) [OF q'(3) ph] q'(2) s4(2) by simp
  ultimately show ?thesis by blast
qed

end
