(* ===== verification/Object_Pool.thy ===== *)
theory Object_Pool
  imports PL_Prelude "HOL-Library.Multiset"
begin

text \<open>
  \<^verbatim>\<open>_lib/object_pool_mgr.h\<close>: the three object pools.  An object is known by its address, a natural
  number in units of one object; what an object holds is the business of its class.  \<open>base\<close> is the
  address \<open>allocate\<close> answers with, \<open>fresh\<close> the addresses of successive \<open>new T\<close>.  The sizes are natural
  numbers: they count objects that exist, so they stay far below the width of \<open>size_t\<close> and \<open>int\<close>.
\<close>

type_synonym addr = nat

subsection \<open>ObjectPool\<close>

definition initSize :: nat where
  "initSize = 100"

record object_pool =
  op_poolList :: "addr list"
  op_freeList :: "addr list"
  addBlockSize :: nat

definition ObjectPool :: object_pool where
  "ObjectPool = \<lparr>op_poolList = [], op_freeList = [], addBlockSize = initSize\<rparr>"

definition ObjectPool_AddAlloc :: "addr \<Rightarrow> object_pool \<Rightarrow> object_pool" where
  "ObjectPool_AddAlloc base p =
     p\<lparr>op_poolList := op_poolList p @ [base],
       op_freeList := op_freeList p @ [base ..< base + addBlockSize p],
       addBlockSize := addBlockSize p * 2\<rparr>"

definition GetFreeObjectPtr :: "addr \<Rightarrow> object_pool \<Rightarrow> addr \<times> object_pool" where
  "GetFreeObjectPtr base p =
     (let p = (if op_freeList p = [] then ObjectPool_AddAlloc base p else p)
      in (last (op_freeList p), p\<lparr>op_freeList := butlast (op_freeList p)\<rparr>))"

definition SetFreeObjectPtr :: "addr \<Rightarrow> object_pool \<Rightarrow> object_pool" where
  "SetFreeObjectPtr a p = p\<lparr>op_freeList := op_freeList p @ [a]\<rparr>"

text \<open>The destructor's calls of \<open>deallocate\<close>: each chunk with the size it is given back with.\<close>

fun dealloc_chunks :: "addr list \<Rightarrow> nat \<Rightarrow> (addr \<times> nat) list" where
  "dealloc_chunks [] chunkSize = []"
| "dealloc_chunks (c # cs) chunkSize = (c, chunkSize) # dealloc_chunks cs (chunkSize * 2)"

definition ObjectPool_destroy :: "object_pool \<Rightarrow> (addr \<times> nat) list \<times> object_pool" where
  "ObjectPool_destroy p = (dealloc_chunks (op_poolList p) initSize, p\<lparr>op_poolList := []\<rparr>)"

subsection \<open>ObjectMgrBase\<close>

record object_mgr =
  objectPool :: object_pool
  om_usedList :: "addr list"

definition ObjectMgrBase :: object_mgr where
  "ObjectMgrBase = \<lparr>objectPool = ObjectPool, om_usedList = []\<rparr>"

definition ObjectMgr_GetFreeObject :: "addr \<Rightarrow> object_mgr \<Rightarrow> addr \<times> object_mgr" where
  "ObjectMgr_GetFreeObject base m =
     (case GetFreeObjectPtr base (objectPool m) of
        (a, p) \<Rightarrow> (a, m\<lparr>objectPool := p, om_usedList := om_usedList m @ [a]\<rparr>))"

definition ObjectMgr_SetFreeObject :: "addr \<Rightarrow> object_mgr \<Rightarrow> object_mgr" where
  "ObjectMgr_SetFreeObject a m =
     (let m = (if a \<in> set (om_usedList m) then m\<lparr>om_usedList := removeAll a (om_usedList m)\<rparr> else m)
      in m\<lparr>objectPool := SetFreeObjectPtr a (objectPool m)\<rparr>)"

subsection \<open>ObjectPoolMgrBase\<close>

record pool_mgr =
  pm_poolList :: "addr list"
  pm_freeList :: "addr list"
  pm_usedList :: "addr list"
  poolCount :: nat

definition ObjectPoolMgrBase :: "(nat \<Rightarrow> addr) \<Rightarrow> int \<Rightarrow> pool_mgr" where
  "ObjectPoolMgrBase fresh initCount =
     (let n = nat (max initCount 1); objs = map fresh [0 ..< n]
      in \<lparr>pm_poolList = objs, pm_freeList = objs, pm_usedList = [], poolCount = n\<rparr>)"

definition PoolMgr_AddAlloc :: "(nat \<Rightarrow> addr) \<Rightarrow> pool_mgr \<Rightarrow> pool_mgr" where
  "PoolMgr_AddAlloc fresh m =
     (let addPool = poolCount m * 2; objs = map fresh [0 ..< addPool]
      in m\<lparr>pm_poolList := pm_poolList m @ objs, pm_freeList := pm_freeList m @ objs,
           poolCount := poolCount m + addPool\<rparr>)"

definition PoolMgr_GetFreeObject :: "(nat \<Rightarrow> addr) \<Rightarrow> pool_mgr \<Rightarrow> addr option \<times> pool_mgr" where
  "PoolMgr_GetFreeObject fresh m =
     (let m = (if pm_freeList m = [] then PoolMgr_AddAlloc fresh m else m)
      in case pm_freeList m of
           [] \<Rightarrow> (None, m)
         | a # rest \<Rightarrow> (Some a, m\<lparr>pm_freeList := rest, pm_usedList := pm_usedList m @ [a]\<rparr>))"

definition PoolMgr_SetFreeObject :: "addr \<Rightarrow> pool_mgr \<Rightarrow> pool_mgr" where
  "PoolMgr_SetFreeObject a m =
     (if a \<in> set (pm_usedList m)
      then m\<lparr>pm_usedList := removeAll a (pm_usedList m), pm_freeList := a # pm_freeList m\<rparr>
      else m)"

definition PoolMgr_destroy :: "pool_mgr \<Rightarrow> addr list \<times> pool_mgr" where
  "PoolMgr_destroy m = (pm_poolList m, m\<lparr>pm_poolList := [], pm_freeList := [], pm_usedList := []\<rparr>)"

subsection \<open>The contract of a pool\<close>

text \<open>
  \<open>take\<close> may need the environment \<open>e\<close> (what the allocator answers); \<open>room\<close> says that the answer does
  not overlap storage the pool has already.
\<close>

datatype 'e pool_op = Take_op 'e | Give_op addr
datatype pool_event = Took addr | Gave addr

text \<open>No object is handed out while it is out, and only objects that are out come back.\<close>

fun exclusive :: "addr set \<Rightarrow> pool_event list \<Rightarrow> bool" where
  "exclusive U [] = True"
| "exclusive U (Took a # t) = (a \<notin> U \<and> exclusive (insert a U) t)"
| "exclusive U (Gave a # t) = (a \<in> U \<and> exclusive (U - {a}) t)"

fun pool_run :: "('e \<Rightarrow> 'm \<Rightarrow> addr \<times> 'm) \<Rightarrow> (addr \<Rightarrow> 'm \<Rightarrow> 'm) \<Rightarrow> 'e pool_op list \<Rightarrow> 'm \<Rightarrow> pool_event list \<times> 'm" where
  "pool_run tk gv [] m = ([], m)"
| "pool_run tk gv (Take_op e # ops) m =
     (case tk e m of (a, m') \<Rightarrow> case pool_run tk gv ops m' of (t, m'') \<Rightarrow> (Took a # t, m''))"
| "pool_run tk gv (Give_op a # ops) m =
     (case pool_run tk gv ops (gv a m) of (t, m'') \<Rightarrow> (Gave a # t, m''))"

text \<open>The caller's side of the contract, along a run.\<close>

fun pool_use :: "('e \<Rightarrow> 'm \<Rightarrow> addr \<times> 'm) \<Rightarrow> (addr \<Rightarrow> 'm \<Rightarrow> 'm) \<Rightarrow> ('e \<Rightarrow> 'm \<Rightarrow> bool) \<Rightarrow>
    ('m \<Rightarrow> addr set) \<Rightarrow> 'e pool_op list \<Rightarrow> 'm \<Rightarrow> bool" where
  "pool_use tk gv room in_use [] m = True"
| "pool_use tk gv room in_use (Take_op e # ops) m =
     (room e m \<and> pool_use tk gv room in_use ops (snd (tk e m)))"
| "pool_use tk gv room in_use (Give_op a # ops) m =
     (a \<in> in_use m \<and> pool_use tk gv room in_use ops (gv a m))"

locale object_store =
  fixes take_obj :: "'e \<Rightarrow> 'm \<Rightarrow> addr \<times> 'm"
    and give_back :: "addr \<Rightarrow> 'm \<Rightarrow> 'm"
    and invar :: "'m \<Rightarrow> bool"
    and in_use :: "'m \<Rightarrow> addr set"
    and room :: "'e \<Rightarrow> 'm \<Rightarrow> bool"
  assumes take_ok: "invar m \<Longrightarrow> room e m \<Longrightarrow> take_obj e m = (a, m') \<Longrightarrow>
      invar m' \<and> a \<notin> in_use m \<and> in_use m' = insert a (in_use m)"
    and give_ok: "invar m \<Longrightarrow> a \<in> in_use m \<Longrightarrow>
      invar (give_back a m) \<and> in_use (give_back a m) = in_use m - {a}"
begin

lemma run_exclusive:
  "invar m \<Longrightarrow> pool_use take_obj give_back room in_use ops m \<Longrightarrow>
   pool_run take_obj give_back ops m = (t, m') \<Longrightarrow> exclusive (in_use m) t \<and> invar m'"
proof (induction ops arbitrary: m t)
  case Nil
  then show ?case by simp
next
  case (Cons x ops)
  show ?case
  proof (cases x)
    case (Take_op e)
    obtain a m1 where s: "take_obj e m = (a, m1)" by fastforce
    obtain t1 where t: "pool_run take_obj give_back ops m1 = (t1, m')" "t = Took a # t1"
      using Cons.prems(3) Take_op s by (auto split: prod.splits)
    show ?thesis
      using Cons.IH [OF _ _ t(1)] Cons.prems Take_op s t(2) take_ok [OF Cons.prems(1) _ s] by simp
  next
    case (Give_op a)
    obtain t1 where t: "pool_run take_obj give_back ops (give_back a m) = (t1, m')" "t = Gave a # t1"
      using Cons.prems(3) Give_op by (auto split: prod.splits)
    show ?thesis
      using Cons.IH [OF _ _ t(1)] Cons.prems Give_op t(2) give_ok [OF Cons.prems(1), of a] by simp
  qed
qed

end

subsection \<open>The pools keep the contract\<close>

text \<open>All slots of a pool, chunk by chunk, with the chunk sizes the destructor assumes.\<close>

definition pool_slots :: "object_pool \<Rightarrow> addr list" where
  "pool_slots p = concat (map (\<lambda>(b, n). [b ..< b + n]) (dealloc_chunks (op_poolList p) initSize))"

definition pool_ok :: "object_pool \<Rightarrow> addr list \<Rightarrow> bool" where
  "pool_ok p used \<longleftrightarrow> mset (op_freeList p @ used) = mset (pool_slots p) \<and> distinct (pool_slots p) \<and>
     addBlockSize p = initSize * 2 ^ length (op_poolList p)"

definition fresh_block :: "addr \<Rightarrow> object_pool \<Rightarrow> bool" where
  "fresh_block base p \<longleftrightarrow> {base ..< base + addBlockSize p} \<inter> set (pool_slots p) = {}"

lemma dealloc_chunks_snoc:
  "dealloc_chunks (cs @ [c]) n = dealloc_chunks cs n @ [(c, n * 2 ^ length cs)]"
  by (induction cs arbitrary: n) (simp_all add: mult.assoc)

lemma pool_ok_distinct: "pool_ok p used \<Longrightarrow> distinct (op_freeList p @ used)"
  by (metis pool_ok_def mset_eq_imp_distinct_iff)

lemma pool_ok_new: "pool_ok ObjectPool []"
  by (simp add: pool_ok_def ObjectPool_def pool_slots_def)

lemma ObjectPool_AddAlloc_ok:
  assumes "pool_ok p used" and "fresh_block base p"
  shows "pool_ok (ObjectPool_AddAlloc base p) used"
proof -
  have "pool_slots (ObjectPool_AddAlloc base p) = pool_slots p @ [base ..< base + addBlockSize p]"
    using assms(1)
    by (simp add: pool_slots_def ObjectPool_AddAlloc_def dealloc_chunks_snoc pool_ok_def)
  then show ?thesis
    using assms by (auto simp: pool_ok_def ObjectPool_AddAlloc_def fresh_block_def)
qed

lemma ObjectPool_AddAlloc_free:
  "pool_ok p used \<Longrightarrow> op_freeList (ObjectPool_AddAlloc base p) \<noteq> []"
  by (simp add: ObjectPool_AddAlloc_def pool_ok_def initSize_def)

lemma pool_ok_take:
  assumes "pool_ok p used" and "op_freeList p \<noteq> []"
  shows "pool_ok (p\<lparr>op_freeList := butlast (op_freeList p)\<rparr>) (used @ [last (op_freeList p)])"
proof -
  have "mset (butlast (op_freeList p)) + {#last (op_freeList p)#} = mset (op_freeList p)"
    using assms(2) by (metis append_butlast_last_id mset_append mset.simps(1) mset.simps(2))
  then have "mset (butlast (op_freeList p) @ used @ [last (op_freeList p)]) = mset (op_freeList p @ used)"
    by (simp add: ac_simps)
  then show ?thesis using assms(1) by (simp only: pool_ok_def) (simp add: pool_slots_def)
qed

lemma GetFreeObjectPtr_ok:
  assumes "pool_ok p used" and "fresh_block base p" and "GetFreeObjectPtr base p = (a, p')"
  shows "pool_ok p' (used @ [a])"
  using assms pool_ok_take [OF assms(1)]
    pool_ok_take [OF ObjectPool_AddAlloc_ok [OF assms(1,2)] ObjectPool_AddAlloc_free [OF assms(1)]]
  by (auto simp: GetFreeObjectPtr_def Let_def split: if_splits)

lemma SetFreeObjectPtr_ok:
  assumes "pool_ok p used" and "a \<in> set used"
  shows "pool_ok (SetFreeObjectPtr a p) (removeAll a used)"
proof -
  have "distinct used" using pool_ok_distinct [OF assms(1)] by simp
  then have "removeAll a used = remove1 a used" by (simp add: distinct_remove1_removeAll)
  moreover have "mset (remove1 a used) + {#a#} = mset used" using assms(2) by simp
  ultimately show ?thesis
    using assms(1) by (simp add: pool_ok_def SetFreeObjectPtr_def pool_slots_def)
qed

definition mgr_ok :: "object_mgr \<Rightarrow> bool" where
  "mgr_ok m \<longleftrightarrow> pool_ok (objectPool m) (om_usedList m)"

abbreviation mgr_in_use :: "object_mgr \<Rightarrow> addr set" where
  "mgr_in_use m \<equiv> set (om_usedList m)"

abbreviation mgr_room :: "addr \<Rightarrow> object_mgr \<Rightarrow> bool" where
  "mgr_room base m \<equiv> fresh_block base (objectPool m)"

interpretation mgr: object_store ObjectMgr_GetFreeObject ObjectMgr_SetFreeObject mgr_ok mgr_in_use mgr_room
proof (unfold_locales, goal_cases)
  case (1 m base a m')
  then obtain p where p: "GetFreeObjectPtr base (objectPool m) = (a, p)"
    "m' = m\<lparr>objectPool := p, om_usedList := om_usedList m @ [a]\<rparr>"
    by (auto simp: ObjectMgr_GetFreeObject_def split: prod.splits)
  have "pool_ok p (om_usedList m @ [a])"
    using GetFreeObjectPtr_ok 1 p(1) unfolding mgr_ok_def by blast
  then show ?case using p(2) pool_ok_distinct [of p "om_usedList m @ [a]"] by (auto simp: mgr_ok_def)
next
  case (2 m a)
  then show ?case
    using SetFreeObjectPtr_ok [of "objectPool m" "om_usedList m" a]
    by (auto simp: ObjectMgr_SetFreeObject_def mgr_ok_def Let_def)
qed

text \<open>
  An allocator that answers with storage disjoint from all it gave before: chunk \<open>i\<close> of a pool, which has
  \<open>initSize * 2 ^ i\<close> objects, is at \<open>alloc i\<close>.
\<close>

definition next_chunk :: "(nat \<Rightarrow> addr) \<Rightarrow> object_mgr \<Rightarrow> addr" where
  "next_chunk alloc m = alloc (length (op_poolList (objectPool m)))"

definition allocator_ok :: "(nat \<Rightarrow> addr) \<Rightarrow> bool" where
  "allocator_ok alloc \<longleftrightarrow> (\<forall>i j. i < j \<longrightarrow>
     {alloc i ..< alloc i + initSize * 2 ^ i} \<inter> {alloc j ..< alloc j + initSize * 2 ^ j} = {})"

definition allocated_by :: "(nat \<Rightarrow> addr) \<Rightarrow> object_mgr \<Rightarrow> bool" where
  "allocated_by alloc m \<longleftrightarrow>
     op_poolList (objectPool m) = map alloc [0 ..< length (op_poolList (objectPool m))]"

lemma dealloc_chunks_alloc: "dealloc_chunks (map alloc [0 ..< n]) k = map (\<lambda>i. (alloc i, k * 2 ^ i)) [0 ..< n]"
  by (induction n) (simp_all add: dealloc_chunks_snoc)

lemma allocator_room:
  assumes "allocator_ok alloc" and "allocated_by alloc m" and "mgr_ok m"
  shows "mgr_room (next_chunk alloc m) m"
proof -
  let ?n = "length (op_poolList (objectPool m))"
  have "set (pool_slots (objectPool m)) = (\<Union>i < ?n. {alloc i ..< alloc i + initSize * 2 ^ i})"
    using assms(2) dealloc_chunks_alloc [of alloc ?n initSize]
    by (auto simp: pool_slots_def allocated_by_def)
  moreover have "addBlockSize (objectPool m) = initSize * 2 ^ ?n"
    using assms(3) by (simp add: mgr_ok_def pool_ok_def)
  moreover have "{alloc ?n ..< alloc ?n + initSize * 2 ^ ?n} \<inter> {alloc i ..< alloc i + initSize * 2 ^ i} = {}"
    if "i < ?n" for i
    using assms(1) that unfolding allocator_ok_def by (metis Int_commute)
  ultimately show ?thesis by (auto simp: fresh_block_def next_chunk_def)
qed

lemma allocated_by_take:
  assumes "allocated_by alloc m" and "ObjectMgr_GetFreeObject (next_chunk alloc m) m = (a, m')"
  shows "allocated_by alloc m'"
  using assms
  by (auto simp: ObjectMgr_GetFreeObject_def GetFreeObjectPtr_def ObjectPool_AddAlloc_def Let_def
      allocated_by_def next_chunk_def split: prod.splits if_splits)

lemma mgr_ok_new: "mgr_ok ObjectMgrBase" "allocated_by alloc ObjectMgrBase"
  by (simp_all add: mgr_ok_def ObjectMgrBase_def pool_ok_new allocated_by_def) (simp add: ObjectPool_def)

definition pool_mgr_ok :: "pool_mgr \<Rightarrow> bool" where
  "pool_mgr_ok m \<longleftrightarrow> mset (pm_freeList m @ pm_usedList m) = mset (pm_poolList m) \<and>
     distinct (pm_poolList m) \<and> poolCount m = length (pm_poolList m) \<and> 0 < poolCount m"

abbreviation pool_mgr_room :: "(nat \<Rightarrow> addr) \<Rightarrow> pool_mgr \<Rightarrow> bool" where
  "pool_mgr_room fresh m \<equiv>
     inj_on fresh {..< poolCount m * 2} \<and> fresh ` {..< poolCount m * 2} \<inter> set (pm_poolList m) = {}"

lemma pool_mgr_ok_distinct: "pool_mgr_ok m \<Longrightarrow> distinct (pm_freeList m @ pm_usedList m)"
  by (metis pool_mgr_ok_def mset_eq_imp_distinct_iff)

lemma pool_mgr_ok_new:
  assumes "inj_on fresh {..< nat (max n 1)}"
  shows "pool_mgr_ok (ObjectPoolMgrBase fresh n)"
  using assms by (simp add: pool_mgr_ok_def ObjectPoolMgrBase_def Let_def distinct_map atLeast0LessThan)

lemma PoolMgr_AddAlloc_ok:
  assumes "pool_mgr_ok m" and "pool_mgr_room fresh m"
  shows "pool_mgr_ok (PoolMgr_AddAlloc fresh m) \<and> pm_freeList (PoolMgr_AddAlloc fresh m) \<noteq> []"
  using assms
  by (auto simp: pool_mgr_ok_def PoolMgr_AddAlloc_def Let_def distinct_map atLeast0LessThan)

text \<open>\<open>GetFreeObject\<close> never answers \<open>nullptr\<close>: its second test of the free list is never true.\<close>

lemma PoolMgr_GetFreeObject_ok:
  assumes "pool_mgr_ok m" and "pool_mgr_room fresh m"
  shows "\<exists>a m'. PoolMgr_GetFreeObject fresh m = (Some a, m') \<and> pool_mgr_ok m' \<and>
    a \<notin> set (pm_usedList m) \<and> pm_usedList m' = pm_usedList m @ [a]"
proof -
  define m1 where "m1 = (if pm_freeList m = [] then PoolMgr_AddAlloc fresh m else m)"
  have m1: "pool_mgr_ok m1" "pm_freeList m1 \<noteq> []" "pm_usedList m1 = pm_usedList m"
    using PoolMgr_AddAlloc_ok [OF assms] assms(1)
    by (auto simp: m1_def PoolMgr_AddAlloc_def Let_def)
  then obtain a rest where f: "pm_freeList m1 = a # rest" by (cases "pm_freeList m1") auto
  let ?m' = "m1\<lparr>pm_freeList := rest, pm_usedList := pm_usedList m1 @ [a]\<rparr>"
  have "PoolMgr_GetFreeObject fresh m = (Some a, ?m')"
    using f by (simp add: PoolMgr_GetFreeObject_def m1_def [symmetric])
  moreover have "pool_mgr_ok ?m'" using m1(1) f by (auto simp: pool_mgr_ok_def)
  ultimately show ?thesis using m1 f pool_mgr_ok_distinct [OF m1(1)] by auto
qed

lemma PoolMgr_SetFreeObject_ok:
  assumes "pool_mgr_ok m"
  shows "pool_mgr_ok (PoolMgr_SetFreeObject a m)"
proof (cases "a \<in> set (pm_usedList m)")
  case True
  have "distinct (pm_usedList m)" using pool_mgr_ok_distinct [OF assms] by simp
  then have "removeAll a (pm_usedList m) = remove1 a (pm_usedList m)"
    by (simp add: distinct_remove1_removeAll)
  moreover have "a \<in> set (pm_poolList m)"
    using assms True unfolding pool_mgr_ok_def by (metis Un_iff mset_eq_setD set_append)
  ultimately show ?thesis using assms True by (auto simp: pool_mgr_ok_def PoolMgr_SetFreeObject_def)
next
  case False
  then show ?thesis using assms by (simp add: PoolMgr_SetFreeObject_def)
qed

definition PoolMgr_take :: "(nat \<Rightarrow> addr) \<Rightarrow> pool_mgr \<Rightarrow> addr \<times> pool_mgr" where
  "PoolMgr_take fresh m = (case PoolMgr_GetFreeObject fresh m of (r, m') \<Rightarrow> (the r, m'))"

interpretation pmgr: object_store PoolMgr_take PoolMgr_SetFreeObject pool_mgr_ok
  "\<lambda>m. set (pm_usedList m)" pool_mgr_room
proof (unfold_locales, goal_cases)
  case (1 m fresh a m')
  then show ?case
    using PoolMgr_GetFreeObject_ok [of m fresh] by (auto simp: PoolMgr_take_def)
next
  case (2 m a)
  then show ?case
    using PoolMgr_SetFreeObject_ok [of m a] by (auto simp: PoolMgr_SetFreeObject_def)
qed

subsection \<open>Properties\<close>

text \<open>
  C21: A pooled object has one owner.  In every sequence of \<open>GetFreeObject\<close> and \<open>SetFreeObject\<close> calls
  on \<open>ObjectMgrBase\<close> in which only objects in use are given back, however often the pool has to
  grow, no object is handed out while it is still out.
\<close>

theorem object_mgr_exclusive:
  assumes "pool_use ObjectMgr_GetFreeObject ObjectMgr_SetFreeObject mgr_room mgr_in_use ops ObjectMgrBase"
    and "pool_run ObjectMgr_GetFreeObject ObjectMgr_SetFreeObject ops ObjectMgrBase = (t, m')"
  shows "exclusive {} t"
  using mgr.run_exclusive [OF _ assms] pool_ok_new by (simp add: mgr_ok_def ObjectMgrBase_def)

theorem object_mgr_exclusive_witness:
  "exclusive {} (fst (pool_run ObjectMgr_GetFreeObject ObjectMgr_SetFreeObject
     [Take_op 1000, Take_op 5, Give_op 1099, Take_op 5] ObjectMgrBase))"
  by (rule object_mgr_exclusive [where ops = "[Take_op 1000, Take_op 5, Give_op 1099, Take_op 5]"])
    (auto simp: ObjectMgrBase_def ObjectPool_def ObjectMgr_GetFreeObject_def GetFreeObjectPtr_def
      ObjectPool_AddAlloc_def initSize_def ObjectMgr_SetFreeObject_def SetFreeObjectPtr_def
      fresh_block_def pool_slots_def Let_def)

text \<open>
  \<open>SetFreeObject\<close> of \<open>ObjectMgrBase\<close> puts an object on the free list even when it is not in use.
  Giving an object back twice therefore makes the next two calls of \<open>GetFreeObject\<close> hand out the same
  object to two owners.
\<close>

theorem object_mgr_double_free_aliases:
  "fst (ObjectMgr_GetFreeObject b1 (ObjectMgr_SetFreeObject a (ObjectMgr_SetFreeObject a m))) = a \<and>
   fst (ObjectMgr_GetFreeObject b2 (snd (ObjectMgr_GetFreeObject b1
     (ObjectMgr_SetFreeObject a (ObjectMgr_SetFreeObject a m))))) = a"
  by (simp add: ObjectMgr_GetFreeObject_def GetFreeObjectPtr_def ObjectMgr_SetFreeObject_def
      SetFreeObjectPtr_def Let_def butlast_append)

fun pool_mgr_step :: "(nat \<Rightarrow> addr) pool_op \<Rightarrow> pool_mgr \<Rightarrow> pool_mgr" where
  "pool_mgr_step (Take_op fresh) m = snd (PoolMgr_GetFreeObject fresh m)"
| "pool_mgr_step (Give_op a) m = PoolMgr_SetFreeObject a m"

fun pool_mgr_fresh :: "(nat \<Rightarrow> addr) pool_op list \<Rightarrow> pool_mgr \<Rightarrow> bool" where
  "pool_mgr_fresh [] m = True"
| "pool_mgr_fresh (x # xs) m =
     ((case x of Take_op fresh \<Rightarrow> pool_mgr_room fresh m | Give_op a \<Rightarrow> True) \<and>
      pool_mgr_fresh xs (pool_mgr_step x m))"

lemma pool_mgr_run_ok:
  "pool_mgr_ok m \<Longrightarrow> pool_mgr_fresh ops m \<Longrightarrow> pool_mgr_ok (fold pool_mgr_step ops m)"
proof (induction ops arbitrary: m)
  case Nil
  then show ?case by simp
next
  case (Cons x xs)
  then have "pool_mgr_ok (pool_mgr_step x m)"
    using PoolMgr_GetFreeObject_ok [of m] PoolMgr_SetFreeObject_ok [of m]
    by (cases x) fastforce+
  then show ?case using Cons by simp
qed

text \<open>
  C22: The pool of connectors cannot be corrupted by giving an object back twice or by giving back a
  foreign one: in every sequence of calls \<open>ObjectPoolMgrBase\<close> keeps each object in exactly one of its
  two lists, \<open>GetFreeObject\<close> always finds an object, and it is one that is not in use.
\<close>

theorem connector_pool_robust:
  assumes "inj_on fresh {..< nat (max n 1)}" and "pool_mgr_fresh ops (ObjectPoolMgrBase fresh n)"
    and "m = fold pool_mgr_step ops (ObjectPoolMgrBase fresh n)" and "pool_mgr_room fresh' m"
  shows "distinct (pm_freeList m @ pm_usedList m) \<and>
    set (pm_freeList m @ pm_usedList m) = set (pm_poolList m) \<and> poolCount m = length (pm_poolList m) \<and>
    (\<exists>a m'. PoolMgr_GetFreeObject fresh' m = (Some a, m') \<and> a \<notin> set (pm_usedList m))"
proof -
  have ok: "pool_mgr_ok m"
    using pool_mgr_run_ok [OF pool_mgr_ok_new [OF assms(1)] assms(2)] assms(3) by simp
  then have "mset (pm_freeList m @ pm_usedList m) = mset (pm_poolList m)"
    by (simp add: pool_mgr_ok_def)
  from mset_eq_setD [OF this] show ?thesis
    using PoolMgr_GetFreeObject_ok [OF ok assms(4)] pool_mgr_ok_distinct [OF ok] ok
    by (auto simp: pool_mgr_ok_def)
qed

theorem connector_pool_robust_witness:
  "\<exists>a m'. PoolMgr_GetFreeObject (\<lambda>i. i + 100)
     (PoolMgr_SetFreeObject 0 (PoolMgr_SetFreeObject 0
       (snd (PoolMgr_GetFreeObject (\<lambda>i. i + 100) (ObjectPoolMgrBase (\<lambda>i. i) 2))))) = (Some a, m')"
  using connector_pool_robust [of "\<lambda>i. i" 2 "[Take_op (\<lambda>i. i + 100), Give_op 0, Give_op 0]" _ "\<lambda>i. i + 100"]
  by (auto simp: ObjectPoolMgrBase_def PoolMgr_GetFreeObject_def PoolMgr_SetFreeObject_def Let_def
      numeral_2_eq_2 inj_on_def)

fun grow_all :: "addr list \<Rightarrow> object_pool \<Rightarrow> (addr \<times> nat) list \<times> object_pool" where
  "grow_all [] p = ([], p)"
| "grow_all (b # bs) p =
     (case grow_all bs (ObjectPool_AddAlloc b p) of (t, p') \<Rightarrow> ((b, addBlockSize p) # t, p'))"

lemma grow_all_chunks:
  "addBlockSize p = initSize * 2 ^ length (op_poolList p) \<Longrightarrow> grow_all bs p = (t, p') \<Longrightarrow>
   dealloc_chunks (op_poolList p') initSize = dealloc_chunks (op_poolList p) initSize @ t"
proof (induction bs arbitrary: p t)
  case Nil
  then show ?case by simp
next
  case (Cons b bs)
  obtain t1 where t1: "grow_all bs (ObjectPool_AddAlloc b p) = (t1, p')" "t = (b, addBlockSize p) # t1"
    using Cons.prems(2) by (auto split: prod.splits)
  show ?case
    using Cons.IH [OF _ t1(1)] Cons.prems(1) t1(2) by (simp add: ObjectPool_AddAlloc_def dealloc_chunks_snoc)
qed

text \<open>
  The destructor of \<open>ObjectPool\<close> gives every chunk back with the size it was allocated with: after
  any sequence of growths at the given addresses, the calls of \<open>deallocate\<close> are exactly the calls of
  \<open>allocate\<close>, in order, with sizes 100, 200, 400 and so on.
\<close>

theorem pool_frees_what_it_allocated:
  "fst (ObjectPool_destroy (snd (grow_all bs ObjectPool))) = fst (grow_all bs ObjectPool)"
  using grow_all_chunks [of ObjectPool bs "fst (grow_all bs ObjectPool)" "snd (grow_all bs ObjectPool)"]
  by (simp add: ObjectPool_destroy_def ObjectPool_def)

end
