(* ===== verification/Connector.thy ===== *)
theory Connector
  imports Packet Packet_Queue Object_Pool
begin

text \<open>
  \<^verbatim>\<open>_framework/connector.h\<close>, \<^verbatim>\<open>connector.cpp\<close> and the two \<^verbatim>\<open>connector_impl.cpp\<close>: one connection with its
  send queue, the send in flight, the receive request and the ring of received bytes.  Calls of the
  operating system are values of a trace; times are milliseconds.
\<close>

type_synonym SOCKET = u64

definition INVALID_SOCKET :: SOCKET where
  "INVALID_SOCKET = - 1"

definition MILLISEC_A_SEC :: int where
  "MILLISEC_A_SEC = 1000"

definition MILLISEC_A_MIN :: int where
  "MILLISEC_A_MIN = MILLISEC_A_SEC * 60"

definition MAX_LEN_DOMAIN_STRING :: nat where
  "MAX_LEN_DOMAIN_STRING = 1024"

datatype eNetworkOperator = OP_SEND | OP_RECV | OP_ACCEPT

datatype os_call =
  Shutdown SOCKET
| CloseSocket SOCKET
| PostCompletion "addr option"
| WSASend SOCKET bytes
| WSARecv SOCKET
| CreatePort SOCKET addr
| Connect_call SOCKET
| AcceptEx SOCKET SOCKET

record overlapped =
  ov_pConnector :: "addr option"
  NetOp :: eNetworkOperator

record connector =
  cn_uid :: u32
  cn_param :: "addr option"
  socket :: SOCKET
  szDomain :: string
  wPort :: u16
  SendRequest :: overlapped
  SendRequest_pBuffer :: "network_buffer option"
  SendQueue :: "network_buffer list"
  dwSendRef :: u32
  RecvRequest :: overlapped
  RecvRequest_pBuffer :: network_buffer
  RecvDataBuffer :: buffer
  dwRecvRef :: u32
  funcDataParser :: "(buffer \<Rightarrow> int option) option"
  cn_UpdateTimer :: int
  cn_HeartbeatTimer :: int

definition Connector :: "(nat \<Rightarrow> byte) \<Rightarrow> u32 \<Rightarrow> connector" where
  "Connector junk uid = \<lparr>cn_uid = uid, cn_param = None, socket = INVALID_SOCKET, szDomain = '''', wPort = 0,
     SendRequest = \<lparr>ov_pConnector = None, NetOp = OP_SEND\<rparr>, SendRequest_pBuffer = None,
     SendQueue = [], dwSendRef = 0,
     RecvRequest = \<lparr>ov_pConnector = None, NetOp = OP_SEND\<rparr>, RecvRequest_pBuffer = NetworkBuffer junk,
     RecvDataBuffer = BufferBase junk MAX_PACKET_BUFFER_SIZE, dwRecvRef = 0, funcDataParser = None,
     cn_UpdateTimer = 0, cn_HeartbeatTimer = 0\<rparr>"

definition GetActive :: "connector \<Rightarrow> bool" where
  "GetActive c \<longleftrightarrow> INVALID_SOCKET \<noteq> socket c"

definition close_socket :: "connector \<Rightarrow> os_call list \<times> connector" where
  "close_socket c =
     (if INVALID_SOCKET \<noteq> socket c
      then ([Shutdown (socket c), CloseSocket (socket c)], c\<lparr>socket := INVALID_SOCKET\<rparr>)
      else ([], c))"

definition Connector_Release :: "connector \<Rightarrow> os_call list \<times> connector" where
  "Connector_Release c =
     (let (calls, c) = close_socket c
      in (calls, if SendRequest_pBuffer c \<noteq> None then c\<lparr>SendRequest_pBuffer := None\<rparr> else c))"

text \<open>The answer says whether the connector went back to \<open>ConnectorMgr\<close>.\<close>

definition TryRelease :: "connector \<Rightarrow> bool \<times> os_call list \<times> connector" where
  "TryRelease c =
     (let (calls, c) = close_socket c
      in if cn_param c = None
         then let (calls', c) = Connector_Release c in (True, calls @ calls', c)
         else (False, calls, c))"

definition SetDomainA :: "connector \<Rightarrow> string \<Rightarrow> u16 \<Rightarrow> connector" where
  "SetDomainA c domain port = c\<lparr>szDomain := take (MAX_LEN_DOMAIN_STRING - 1) domain, wPort := port\<rparr>"

subsection \<open>Sending\<close>

definition AddSendQueue ::
  "(nat \<Rightarrow> byte) \<Rightarrow> addr \<Rightarrow> connector \<Rightarrow> bytes option \<Rightarrow> u32 \<Rightarrow> (int \<times> connector) option" where
  "AddSendQueue junk self c pSendData n = do {
     (nRet, nb) \<leftarrow> SetSendData (NetworkBuffer junk) (Some self) pSendData n;
     if 0 > nRet then Some (- 1, c)
     else Some (int (length (SendQueue c)) + 1, c\<lparr>SendQueue := SendQueue c @ [nb]\<rparr>) }"

definition SendPrepare :: "addr \<Rightarrow> connector \<Rightarrow> int \<times> connector" where
  "SendPrepare self c =
     (case SendQueue c of
        [] \<Rightarrow> (0, c)
      | nb # rest \<Rightarrow>
          if 0 < dwSendRef c then (0, c)
          else (sint (nDataSize nb),
                c\<lparr>SendQueue := rest, SendRequest := \<lparr>ov_pConnector = Some self, NetOp = OP_SEND\<rparr>,
                  SendRequest_pBuffer := Some nb, dwSendRef := dwSendRef c + 1\<rparr>))"

definition SendComplete :: "connector \<Rightarrow> u32 \<Rightarrow> int \<times> connector" where
  "SendComplete c dwSendSize =
     (case SendRequest_pBuffer c of
        None \<Rightarrow> (0, c)
      | Some nb \<Rightarrow>
          if dwSendSize < nDataSize nb then
            let nb' = nb\<lparr>nDataSize := nDataSize nb - dwSendSize,
                         WSABuffer_buf := map_option (\<lambda>p. p + unat dwSendSize) (WSABuffer_buf nb),
                         WSABuffer_len := WSABuffer_len nb - dwSendSize\<rparr>
            in (sint (nDataSize nb'), c\<lparr>SendRequest_pBuffer := Some nb'\<rparr>)
          else (0, c\<lparr>dwSendRef := dwSendRef c - 1, SendRequest_pBuffer := None\<rparr>))"

text \<open>The bytes \<open>WSASend\<close> is given: \<open>len\<close> bytes from \<open>buf\<close>.\<close>

definition wsa_bytes :: "network_buffer \<Rightarrow> bytes option" where
  "wsa_bytes nb = do {
     p \<leftarrow> WSABuffer_buf nb;
     mem_read (pBuffer nb) p (unat (WSABuffer_len nb)) }"

subsection \<open>Receiving\<close>

definition RecvPrepare :: "addr \<Rightarrow> connector \<Rightarrow> (int \<times> connector) option" where
  "RecvPrepare self c = do {
     nb \<leftarrow> Reset (RecvRequest_pBuffer c);
     let (nRet, nb) = SetRecvData nb (Some self);
     let c = c\<lparr>RecvRequest := \<lparr>ov_pConnector = Some self, NetOp = OP_RECV\<rparr>, RecvRequest_pBuffer := nb\<rparr>;
     Some (nRet, if nRet \<noteq> 0 then c\<lparr>dwRecvRef := dwRecvRef c + 1\<rparr> else c) }"

definition Connector_AcceptPrepare :: "addr \<Rightarrow> connector \<Rightarrow> (int \<times> connector) option" where
  "Connector_AcceptPrepare self c = do {
     nb \<leftarrow> Reset (RecvRequest_pBuffer c);
     let (nRet, nb) = SetAcceptData nb (Some self);
     let c = c\<lparr>RecvRequest := \<lparr>ov_pConnector = Some self, NetOp = OP_ACCEPT\<rparr>, RecvRequest_pBuffer := nb\<rparr>;
     Some (nRet, if nRet \<noteq> 0 then c\<lparr>dwRecvRef := dwRecvRef c + 1\<rparr> else c) }"

definition DataParser :: "connector \<Rightarrow> int option" where
  "DataParser c = do {
     (result, len) \<leftarrow> ParseNetworkData (RecvDataBuffer c) 0;
     Some (if result = invalid_packet then - 1 else sint len) }"

text \<open>\<open>Read\<close> leaves the destination alone when there are too few bytes: the length stays 0.\<close>

definition DefaultDataParser :: "buffer \<Rightarrow> int option" where
  "DefaultDataParser b = do {
     (r, xs) \<leftarrow> CircleBuffer_Read b 4;
     let nPacketLength = (if length xs = 4 then sint (le_word xs :: u32) else 0);
     Some (if sint (nDataSize b) < nPacketLength then 0 else nPacketLength) }"

definition DataParsing :: "connector \<Rightarrow> int option" where
  "DataParsing c = (case funcDataParser c of
       Some f \<Rightarrow> f (RecvDataBuffer c)
     | None \<Rightarrow> DefaultDataParser (RecvDataBuffer c))"

text \<open>
  \<open>RecvComplete\<close> hands at most one packet to the receive queue; the answer carries it.
\<close>

definition RecvComplete ::
  "(nat \<Rightarrow> byte) \<Rightarrow> addr \<Rightarrow> connector \<Rightarrow> u32 \<Rightarrow> (int \<times> PacketStruct option \<times> connector) option" where
  "RecvComplete junk self c dwRecvSize =
     (let c = c\<lparr>RecvRequest_pBuffer := (RecvRequest_pBuffer c)\<lparr>nDataSize := dwRecvSize\<rparr>,
                dwRecvRef := dwRecvRef c - 1\<rparr>
      in if GetEmptySize (RecvDataBuffer c) < dwRecvSize then Some (- 1, None, c)
         else do {
           (r, ring) \<leftarrow> CircleBuffer_Write (RecvDataBuffer c) (pBuffer (RecvRequest_pBuffer c)) dwRecvSize;
           let c = c\<lparr>RecvDataBuffer := ring\<rparr>;
           nPacketLength \<leftarrow> DataParser c;
           if 0 < nPacketLength then do {
             let pPacket = GetFreePacketStruct junk;
             let len = (of_int nPacketLength :: u32);
             (n, xs) \<leftarrow> CircleBuffer_Read ring len;
             m \<leftarrow> mem_write (pBuffer pPacket) 0 xs;
             let pPacket = pPacket\<lparr>ps_pConnector := Some self, pBuffer := m, nDataSize := n\<rparr>;
             let c = c\<lparr>RecvDataBuffer := snd (CircleBuffer_Erase ring len)\<rparr>;
             Some (sint (GetDataSize (RecvDataBuffer c)), Some pPacket, c) }
           else Some (- 1, None, c) })"

subsection \<open>Timers\<close>

definition DoUpdate_svr :: "connector \<Rightarrow> int \<Rightarrow> bool \<times> connector" where
  "DoUpdate_svr c biCurrTime =
     (let c = (if 0 = cn_UpdateTimer c then c\<lparr>cn_UpdateTimer := biCurrTime + MILLISEC_A_MIN\<rparr> else c)
      in if cn_UpdateTimer c < biCurrTime
         then (True, c\<lparr>cn_UpdateTimer := biCurrTime + MILLISEC_A_MIN\<rparr>) else (False, c))"

definition DoUpdate_cli :: "connector \<Rightarrow> int \<Rightarrow> bool \<times> connector" where
  "DoUpdate_cli c biCurrTime =
     (if cn_UpdateTimer c < biCurrTime
      then (True, c\<lparr>cn_UpdateTimer := biCurrTime + MILLISEC_A_SEC\<rparr>) else (False, c))"

definition CheckHeartbeat_cli :: "connector \<Rightarrow> int \<Rightarrow> bool \<times> connector" where
  "CheckHeartbeat_cli c biCurrTime =
     (if GetActive c \<and> cn_HeartbeatTimer c < biCurrTime
      then (True, c\<lparr>cn_HeartbeatTimer := biCurrTime + MILLISEC_A_SEC * 30\<rparr>) else (False, c))"

subsection \<open>The receive path\<close>

definition recv_ok :: "connector \<Rightarrow> bool" where
  "recv_ok c \<longleftrightarrow> circle_ok (RecvDataBuffer c) \<and> nBufferSize (RecvDataBuffer c) = MAX_PACKET_BUFFER_SIZE \<and>
     length (pBuffer (RecvRequest_pBuffer c)) = max_packet + 1 \<and>
     nBufferSize (RecvRequest_pBuffer c) = MAX_PACKET_BUFFER_SIZE"

definition received :: "connector \<Rightarrow> u32 \<Rightarrow> bytes" where
  "received c n = take (unat n) (pBuffer (RecvRequest_pBuffer c))"

abbreviation unparsed :: "connector \<Rightarrow> bytes" where
  "unparsed c \<equiv> ring_contents (RecvDataBuffer c)"

definition packet_bytes :: "PacketStruct \<Rightarrow> bytes" where
  "packet_bytes p = take (unat (nDataSize p)) (pBuffer p)"

text \<open>
  What a receive completion means for the byte stream: whether the connection goes on, the packet cut
  off the front, and the bytes that stay.
\<close>

definition recv_spec :: "bytes \<Rightarrow> bytes \<Rightarrow> bool \<times> bytes option \<times> bytes" where
  "recv_spec old data =
     (let s = old @ data; k = unat (ui32Length (head_of s)) in
      if max_packet < length s then (False, None, old)
      else if parse_stream s = succ \<and> 0 < k then (True, Some (take k s), drop k s)
      else (False, None, s))"

lemma recv_ok_new: "recv_ok (Connector junk uid)"
  using circle_ok_fresh [OF MAX_ne]
  by (simp add: recv_ok_def Connector_def NetworkBuffer_def buffer.defs)
    (simp add: BufferBase_def MAX_PACKET_BUFFER_SIZE_def)

lemma parse_stream_succ_le:
  "parse_stream s = succ \<Longrightarrow> unat (ui32Length (head_of s)) \<le> length s"
  by (auto simp: parse_stream_def split: if_splits)

lemma DataParser_eq:
  assumes "circle_ok (RecvDataBuffer c)"
  shows "DataParser c = Some (case parse_stream (unparsed c) of
    invalid_packet \<Rightarrow> - 1 | succ \<Rightarrow> sint (ui32Length (head_of (unparsed c))) | _ \<Rightarrow> 0)"
  using ParseNetworkData_eq [OF assms, of 0]
  by (simp add: DataParser_def split: eResultCode.splits)

lemma GetFreePacketStruct_sel [simp]:
  "length (pBuffer (GetFreePacketStruct junk)) = max_packet + 1"
  by (simp add: GetFreePacketStruct_def buffer.defs) (simp add: BufferBase_def MAX_PACKET_BUFFER_SIZE_def)

lemma sint_pos_small: "unat (w :: u32) \<le> max_packet \<Longrightarrow> sint w = int (unat w)"
  using sint_nonneg32 [of w] by simp

lemma empty_less_iff:
  assumes "recv_ok c"
  shows "GetEmptySize (RecvDataBuffer c) < n \<longleftrightarrow> max_packet < length (unparsed c) + unat n"
proof -
  have "nDataSize (RecvDataBuffer c) \<le> nBufferSize (RecvDataBuffer c)"
    "ring_size (RecvDataBuffer c) = max_packet"
    using assms by (auto simp: recv_ok_def circle_ok_def word_le_nat_alt)
  then show ?thesis
    by (auto simp: GetEmptySize_def word_less_nat_alt unat_diff_le word_le_nat_alt)
qed

text \<open>\<open>RecvComplete\<close> in three parts: no room, the bytes stored, the packet cut off.\<close>

definition accepted :: "connector \<Rightarrow> u32 \<Rightarrow> connector" where
  "accepted c n = c\<lparr>RecvRequest_pBuffer := (RecvRequest_pBuffer c)\<lparr>nDataSize := n\<rparr>,
     dwRecvRef := dwRecvRef c - 1\<rparr>"

definition cut_packet ::
  "(nat \<Rightarrow> byte) \<Rightarrow> addr \<Rightarrow> connector \<Rightarrow> u32 \<Rightarrow> (int \<times> PacketStruct option \<times> connector) option" where
  "cut_packet junk self c len = do {
     (n, xs) \<leftarrow> CircleBuffer_Read (RecvDataBuffer c) len;
     m \<leftarrow> mem_write (pBuffer (GetFreePacketStruct junk)) 0 xs;
     let c' = c\<lparr>RecvDataBuffer := snd (CircleBuffer_Erase (RecvDataBuffer c) len)\<rparr>;
     Some (sint (GetDataSize (RecvDataBuffer c')),
           Some ((GetFreePacketStruct junk)\<lparr>ps_pConnector := Some self, pBuffer := m, nDataSize := n\<rparr>), c') }"

lemma accepted_sel:
  "recv_ok c \<Longrightarrow> recv_ok (accepted c n)" "RecvDataBuffer (accepted c n) = RecvDataBuffer c"
  "pBuffer (RecvRequest_pBuffer (accepted c n)) = pBuffer (RecvRequest_pBuffer c)"
  by (simp_all add: accepted_def recv_ok_def)

lemma length_received: "recv_ok c \<Longrightarrow> unat n \<le> max_packet \<Longrightarrow> length (received c n) = unat n"
  by (simp add: received_def recv_ok_def)

lemma RecvComplete_no_room:
  "recv_ok c \<Longrightarrow> max_packet < length (unparsed c) + unat n \<Longrightarrow>
   RecvComplete junk self c n = Some (- 1, None, accepted c n)"
  using empty_less_iff [of "accepted c n" n]
  by (simp add: RecvComplete_def accepted_def [symmetric] accepted_sel Let_def)

lemma RecvComplete_stored:
  assumes "recv_ok c" and "unat n \<le> max_packet" and "length (unparsed c) + unat n \<le> max_packet"
  shows "\<exists>c'. recv_ok c' \<and> unparsed c' = unparsed c @ received c n \<and>
    RecvComplete junk self c n = (case DataParser c' of None \<Rightarrow> None | Some k \<Rightarrow>
      if 0 < k then cut_packet junk self c' (of_int k) else Some (- 1, None, c'))"
proof -
  let ?c = "accepted c n"
  obtain r ring where ring: "CircleBuffer_Write (RecvDataBuffer ?c) (pBuffer (RecvRequest_pBuffer ?c)) n
      = Some (r, ring)" "circle_ok ring" "ring_contents ring = unparsed c @ received c n"
      "nBufferSize ring = MAX_PACKET_BUFFER_SIZE"
    using CircleBuffer_Write_fits [of "RecvDataBuffer c" n "pBuffer (RecvRequest_pBuffer c)"] assms
    by (auto simp: recv_ok_def received_def accepted_sel)
  have "recv_ok (?c\<lparr>RecvDataBuffer := ring\<rparr>)"
    using ring accepted_sel(1) [OF assms(1), of n] by (simp add: recv_ok_def)
  moreover have "\<not> GetEmptySize (RecvDataBuffer ?c) < n"
    using empty_less_iff [OF assms(1), of n] assms(3) by (simp add: accepted_sel)
  ultimately show ?thesis using ring
    by (intro exI [of _ "?c\<lparr>RecvDataBuffer := ring\<rparr>"])
      (simp add: RecvComplete_def accepted_def [symmetric] cut_packet_def Let_def Option.bind_def
        split: option.splits)
qed

lemma cut_packet_ok:
  assumes ok: "recv_ok c" and len: "unat len \<le> length (unparsed c)"
  shows "\<exists>p c'. cut_packet junk self c len = Some (int (length (unparsed c')), Some p, c') \<and>
    packet_bytes p = take (unat len) (unparsed c) \<and> unparsed c' = drop (unat len) (unparsed c) \<and>
    recv_ok c' \<and> ps_pConnector p = Some self \<and> unat (nDataSize p) \<le> max_packet \<and>
    length (pBuffer p) = max_packet + 1"
proof -
  let ?ring = "RecvDataBuffer c"
  have ring: "circle_ok ?ring" "length (unparsed c) \<le> max_packet"
    "nBufferSize ?ring = MAX_PACKET_BUFFER_SIZE"
    using ok by (auto simp: recv_ok_def circle_ok_def)
  obtain ring' where er: "CircleBuffer_Erase ?ring len = (nDataSize ring', ring')" "circle_ok ring'"
    "ring_contents ring' = drop (unat len) (unparsed c)" "nBufferSize ring' = MAX_PACKET_BUFFER_SIZE"
    using CircleBuffer_Erase_ok [OF ring(1), of len] len ring(3) by auto
  have rd: "CircleBuffer_Read ?ring len = Some (len, take (unat len) (unparsed c))"
    using CircleBuffer_Read_ok [OF ring(1), of len] len by simp
  have wr: "mem_write (pBuffer (GetFreePacketStruct junk)) 0 (take (unat len) (unparsed c)) =
      Some (take (unat len) (unparsed c) @ drop (unat len) (pBuffer (GetFreePacketStruct junk)))"
    using len ring(2) by (simp add: mem_write_def min_def)
  have sz: "sint (nDataSize ring') = int (length (ring_contents ring'))"
    unfolding length_ring_contents
    by (rule sint_pos_small) (use er(3) ring(2) length_ring_contents [of ring'] in simp)
  define p where "p = (GetFreePacketStruct junk)\<lparr>ps_pConnector := Some self,
    pBuffer := take (unat len) (unparsed c) @ drop (unat len) (pBuffer (GetFreePacketStruct junk)),
    nDataSize := len\<rparr>"
  have "cut_packet junk self c len = Some (sint (nDataSize ring'), Some p, c\<lparr>RecvDataBuffer := ring'\<rparr>)"
    using rd wr er(1) by (simp add: cut_packet_def GetDataSize_def p_def)
  moreover have "packet_bytes p = take (unat len) (unparsed c)" "ps_pConnector p = Some self"
    "unat (nDataSize p) \<le> max_packet" "length (pBuffer p) = max_packet + 1"
    using len ring(2) by (simp_all add: packet_bytes_def p_def)
  moreover have "recv_ok (c\<lparr>RecvDataBuffer := ring'\<rparr>)" using ok er by (simp add: recv_ok_def)
  ultimately show ?thesis
    using er(3) by (intro exI [of _ p] exI [of _ "c\<lparr>RecvDataBuffer := ring'\<rparr>"]) (simp add: sz)
qed

lemma RecvComplete_refines:
  assumes ok: "recv_ok c" and n: "unat n \<le> max_packet"
    and spec: "recv_spec (unparsed c) (received c n) = (go, out, rest)"
  shows "\<exists>p c'. RecvComplete junk self c n = Some (if go then int (length rest) else - 1, p, c') \<and>
    map_option packet_bytes p = out \<and> unparsed c' = rest \<and> recv_ok c' \<and>
    (\<forall>q. p = Some q \<longrightarrow> ps_pConnector q = Some self \<and> unat (nDataSize q) \<le> max_packet \<and>
       length (pBuffer q) = max_packet + 1)"
proof (cases "max_packet < length (unparsed c) + unat n")
  case True
  then show ?thesis
    using RecvComplete_no_room [OF ok True, of junk self] spec length_received [OF ok n] accepted_sel ok
    by (auto simp: recv_spec_def Let_def)
next
  case False
  let ?s = "unparsed c @ received c n"
  let ?len = "ui32Length (head_of ?s)"
  obtain c' where c': "recv_ok c'" "unparsed c' = ?s"
    "RecvComplete junk self c n = (case DataParser c' of None \<Rightarrow> None | Some k \<Rightarrow>
      if 0 < k then cut_packet junk self c' (of_int k) else Some (- 1, None, c'))"
    using RecvComplete_stored [OF ok n, of junk self] False by auto
  have dp: "DataParser c' = Some (case parse_stream ?s of invalid_packet \<Rightarrow> - 1 | succ \<Rightarrow> sint ?len | _ \<Rightarrow> 0)"
    using DataParser_eq [of c'] c'(1) unfolding c'(2) [symmetric] recv_ok_def by blast
  have ls: "length ?s \<le> max_packet" using False length_received [OF ok n] by simp
  have small: "parse_stream ?s = succ \<Longrightarrow> unat ?len \<le> max_packet \<and> unat ?len \<le> length ?s"
    using parse_stream_succ_le [of ?s] ls by simp
  show ?thesis
  proof (cases "parse_stream ?s = succ \<and> 0 < unat ?len")
    case True
    then have "DataParser c' = Some (int (unat ?len))" using dp small sint_pos_small [of ?len] by simp
    moreover have "0 < int (unat ?len)" using True by linarith
    ultimately have "RecvComplete junk self c n = cut_packet junk self c' ?len"
      unfolding c'(3) by simp
    then obtain p c2 where cp: "RecvComplete junk self c n = Some (int (length (unparsed c2)), Some p, c2)"
      "packet_bytes p = take (unat ?len) ?s" "unparsed c2 = drop (unat ?len) ?s" "recv_ok c2"
      "ps_pConnector p = Some self" "unat (nDataSize p) \<le> max_packet" "length (pBuffer p) = max_packet + 1"
      using cut_packet_ok [OF c'(1), of ?len junk self, unfolded c'(2)] small [OF conjunct1 [OF True]]
      by metis
    have sp: "go" "out = Some (take (unat ?len) ?s)" "rest = unparsed c2"
      using spec True ls cp(3) by (auto simp: recv_spec_def Let_def)
    show ?thesis
      using cp sp by (intro exI [of _ "Some p"] exI [of _ c2]) (simp del: length_ring_contents)
  next
    case no: False
    have "sint ?len = 0" if "parse_stream ?s = succ"
      unfolding sint_pos_small [OF conjunct1 [OF small [OF that]]] using no that by simp
    then have "\<exists>k. DataParser c' = Some k \<and> \<not> 0 < k"
      using dp by (auto split: eResultCode.splits)
    then have "RecvComplete junk self c n = Some (- 1, None, c')" using c'(3) by auto
    then show ?thesis using no spec c' ls by (auto simp: recv_spec_def Let_def)
  qed
qed

subsection \<open>The send path\<close>

text \<open>A buffer whose \<open>WSABUF\<close> covers exactly its unsent bytes, of which there is at least one.\<close>

definition nb_bytes :: "network_buffer \<Rightarrow> bytes" where
  "nb_bytes nb = (case WSABuffer_buf nb of None \<Rightarrow> []
     | Some p \<Rightarrow> take (unat (nDataSize nb)) (drop p (pBuffer nb)))"

definition nb_ok :: "network_buffer \<Rightarrow> bool" where
  "nb_ok nb \<longleftrightarrow> 0 < unat (nDataSize nb) \<and> unat (nDataSize nb) \<le> max_packet \<and>
     WSABuffer_len nb = nDataSize nb \<and>
     (\<exists>p. WSABuffer_buf nb = Some p \<and> p + unat (nDataSize nb) \<le> length (pBuffer nb))"

definition send_ok :: "connector \<Rightarrow> bool" where
  "send_ok c \<longleftrightarrow>
     (case SendRequest_pBuffer c of None \<Rightarrow> dwSendRef c = 0 | Some nb \<Rightarrow> dwSendRef c = 1 \<and> nb_ok nb) \<and>
     (\<forall>nb \<in> set (SendQueue c). nb_ok nb)"

definition in_flight :: "connector \<Rightarrow> bytes" where
  "in_flight c = (case SendRequest_pBuffer c of None \<Rightarrow> [] | Some nb \<Rightarrow> nb_bytes nb)"

definition outstanding :: "connector \<Rightarrow> bytes" where
  "outstanding c = in_flight c @ concat (map nb_bytes (SendQueue c))"

lemma send_ok_new: "send_ok (Connector junk uid)" "outstanding (Connector junk uid) = []"
  by (simp_all add: send_ok_def outstanding_def in_flight_def Connector_def)

lemma length_nb_bytes: "nb_ok nb \<Longrightarrow> length (nb_bytes nb) = unat (nDataSize nb)"
  by (auto simp: nb_ok_def nb_bytes_def)

lemma wsa_bytes_ok: "nb_ok nb \<Longrightarrow> wsa_bytes nb = Some (nb_bytes nb)"
  by (auto simp: nb_ok_def wsa_bytes_def nb_bytes_def mem_simps)

lemma NetworkBuffer_sel [simp]:
  "length (pBuffer (NetworkBuffer junk)) = max_packet + 1"
  "nBufferSize (NetworkBuffer junk) = MAX_PACKET_BUFFER_SIZE"
  by (simp_all add: NetworkBuffer_def buffer.defs) (simp_all add: BufferBase_def MAX_PACKET_BUFFER_SIZE_def)

lemma SetSendData_ok:
  assumes "0 < unat n" and "unat n \<le> max_packet" and "unat n \<le> length data"
  shows "\<exists>nb. SetSendData (NetworkBuffer junk) self (Some data) n = Some (int (unat n), nb) \<and>
    nb_ok nb \<and> nb_bytes nb = take (unat n) data"
proof -
  have "\<not> MAX_PACKET_BUFFER_SIZE < n" using assms(2) by (simp add: word_less_nat_alt)
  then show ?thesis
    using assms by (auto simp: SetSendData_def mem_simps nb_ok_def nb_bytes_def sint_pos_small)
qed

lemma AddSendQueue_ok:
  assumes "send_ok c" and "0 < unat n" and "unat n \<le> max_packet" and "unat n \<le> length data"
  shows "\<exists>c'. AddSendQueue junk self c (Some data) n = Some (int (length (SendQueue c)) + 1, c') \<and>
    send_ok c' \<and> outstanding c' = outstanding c @ take (unat n) data \<and> SendQueue c' \<noteq> [] \<and>
    dwSendRef c' = dwSendRef c \<and> socket c' = socket c \<and> in_flight c' = in_flight c \<and>
    SendRequest_pBuffer c' = SendRequest_pBuffer c"
proof -
  obtain nb where nb: "SetSendData (NetworkBuffer junk) (Some self) (Some data) n = Some (int (unat n), nb)"
    "nb_ok nb" "nb_bytes nb = take (unat n) data"
    using SetSendData_ok [OF assms(2-4), of junk "Some self"] by blast
  then show ?thesis
    using assms(1) by (intro exI [of _ "c\<lparr>SendQueue := SendQueue c @ [nb]\<rparr>"])
      (auto simp: AddSendQueue_def send_ok_def outstanding_def in_flight_def split: option.splits)
qed

lemma AddSendQueue_refused:
  assumes "max_packet < unat n"
  shows "AddSendQueue junk self c data n = Some (- 1, c)"
proof -
  have "MAX_PACKET_BUFFER_SIZE < n" using assms by (simp add: word_less_nat_alt)
  then show ?thesis by (simp add: AddSendQueue_def SetSendData_def split: option.splits)
qed

lemma SendPrepare_idle:
  assumes "send_ok c" and "dwSendRef c = 0" and "SendQueue c \<noteq> []"
  shows "\<exists>r c'. SendPrepare self c = (r, c') \<and> 0 < r \<and> send_ok c' \<and> outstanding c' = outstanding c \<and>
    dwSendRef c' = 1 \<and> socket c' = socket c \<and> SendRequest c' = \<lparr>ov_pConnector = Some self, NetOp = OP_SEND\<rparr>"
proof -
  obtain nb rest where q: "SendQueue c = nb # rest" using assms(3) by (cases "SendQueue c") auto
  have none: "SendRequest_pBuffer c = None" and nb: "nb_ok nb"
    using assms q by (auto simp: send_ok_def split: option.splits)
  have "sint (nDataSize nb) = int (unat (nDataSize nb))" "0 < unat (nDataSize nb)"
    using nb sint_pos_small [of "nDataSize nb"] by (simp_all add: nb_ok_def)
  then have "0 < sint (nDataSize nb)" by linarith
  then show ?thesis
    using q none assms nb
    by (auto simp: SendPrepare_def send_ok_def outstanding_def in_flight_def)
qed

lemma SendPrepare_nothing: "SendQueue c = [] \<or> 0 < dwSendRef c \<Longrightarrow> SendPrepare self c = (0, c)"
  by (auto simp: SendPrepare_def split: list.splits)

lemma SendComplete_ok:
  assumes "send_ok c" and "in_flight c \<noteq> []" and "unat n \<le> length (in_flight c)"
  shows "\<exists>c'. SendComplete c n = (int (length (in_flight c')), c') \<and> send_ok c' \<and>
    outstanding c' = drop (unat n) (outstanding c) \<and> in_flight c' = drop (unat n) (in_flight c) \<and>
    SendQueue c' = SendQueue c \<and> socket c' = socket c"
proof -
  obtain nb p where nb: "SendRequest_pBuffer c = Some nb" "nb_ok nb" "WSABuffer_buf nb = Some p"
    using assms(1,2) by (auto simp: send_ok_def in_flight_def nb_ok_def split: option.splits)
  have fl: "in_flight c = nb_bytes nb" "length (nb_bytes nb) = unat (nDataSize nb)"
    using nb length_nb_bytes by (simp_all add: in_flight_def)
  show ?thesis
  proof (cases "n < nDataSize nb")
    case True
    let ?nb = "nb\<lparr>nDataSize := nDataSize nb - n, WSABuffer_buf := Some (p + unat n),
      WSABuffer_len := WSABuffer_len nb - n\<rparr>"
    have u: "unat (nDataSize nb - n) = unat (nDataSize nb) - unat n"
      using True by (simp add: unat_diff_le word_le_nat_alt word_less_nat_alt)
    have ok: "nb_ok ?nb" using nb u True by (auto simp: nb_ok_def word_less_nat_alt)
    have b: "nb_bytes ?nb = drop (unat n) (nb_bytes nb)"
      using nb(3) u by (simp add: nb_bytes_def drop_take add.commute)
    have "sint (nDataSize nb - n) = int (length (nb_bytes ?nb))"
      unfolding length_nb_bytes [OF ok] using sint_pos_small [of "nDataSize nb - n"] ok
      by (simp add: nb_ok_def)
    then show ?thesis
      using True nb fl assms(1,3) ok b
      by (auto simp: SendComplete_def send_ok_def outstanding_def in_flight_def)
  next
    case False
    then have "unat n = unat (nDataSize nb)" using assms(3) fl by (simp add: word_less_nat_alt)
    then show ?thesis
      using False nb fl assms(1) by (auto simp: SendComplete_def send_ok_def outstanding_def in_flight_def)
  qed
qed

end
