(* ===== verification/Network.thy ===== *)
theory Network
  imports Connector
begin

text \<open>
  \<^verbatim>\<open>_framework/network.h\<close> and \<^verbatim>\<open>network.cpp\<close>: connections on an I/O completion port.  The connectors live in a
  store indexed by address; \<open>ConnectorMgr\<close>, the receive queue and the calls made to the operating system
  are part of the state.  What the system answers (\<open>wsa\<close>, sockets, completion packets) is an argument
  of each operation.  Logging is left out, except that its arguments are evaluated: a null dereference
  there is undefined as anywhere else.
\<close>

datatype wsa = WSA_OK | WSA_IO_PENDING | WSA_FAILED

record network =
  connectors :: "addr \<Rightarrow> connector"
  unique_connector_uid :: u32
  connectorMgr :: pool_mgr
  recvPacketQueue :: "PacketStruct packet_queue"
  calls :: "os_call list"
  ListenSock :: SOCKET
  threadSuspended :: bool
  stopRequested :: bool
  threads :: "bool list"

definition upd_connector :: "network \<Rightarrow> addr \<Rightarrow> connector \<Rightarrow> network" where
  "upd_connector net a c = net\<lparr>connectors := (connectors net)(a := c)\<rparr>"

definition emit :: "network \<Rightarrow> os_call list \<Rightarrow> network" where
  "emit net cs = net\<lparr>calls := calls net @ cs\<rparr>"

subsection \<open>Taking and releasing connectors\<close>

text \<open>The objects a growing pool creates are default-constructed and number themselves.\<close>

fun construct_all :: "(nat \<Rightarrow> byte) \<Rightarrow> network \<Rightarrow> addr list \<Rightarrow> network" where
  "construct_all junk net [] = net"
| "construct_all junk net (a # as) =
     (let uid = unique_connector_uid net + 1
      in construct_all junk ((upd_connector net a (Connector junk uid))\<lparr>unique_connector_uid := uid\<rparr>) as)"

definition GetFreeConnector :: "(nat \<Rightarrow> byte) \<Rightarrow> (nat \<Rightarrow> addr) \<Rightarrow> network \<Rightarrow> addr option \<times> network" where
  "GetFreeConnector junk fresh net =
     (let (r, m) = PoolMgr_GetFreeObject fresh (connectorMgr net);
          new = drop (length (pm_poolList (connectorMgr net))) (pm_poolList m)
      in (r, construct_all junk (net\<lparr>connectorMgr := m\<rparr>) new))"

definition SetFreeConnector :: "network \<Rightarrow> addr \<Rightarrow> network" where
  "SetFreeConnector net a = net\<lparr>connectorMgr := PoolMgr_SetFreeObject a (connectorMgr net)\<rparr>"

definition net_TryRelease :: "network \<Rightarrow> addr \<Rightarrow> network" where
  "net_TryRelease net a =
     (let (freed, cs, c) = TryRelease (connectors net a);
          net = emit (upd_connector net a c) cs
      in if freed then SetFreeConnector net a else net)"

definition Disconnect :: "network \<Rightarrow> addr option \<Rightarrow> bool \<times> network" where
  "Disconnect net p =
     (case p of
        None \<Rightarrow> (False, net)
      | Some a \<Rightarrow>
          let (cs, c) = close_socket (connectors net a);
              net = emit (upd_connector net a c) cs
          in (True, if dwRecvRef c \<noteq> 0 then emit net [PostCompletion (Some a)] else net))"

definition Disconnect_socket :: "network \<Rightarrow> SOCKET \<Rightarrow> network" where
  "Disconnect_socket net s = (if INVALID_SOCKET \<noteq> s then emit net [Shutdown s, CloseSocket s] else net)"

subsection \<open>Sending\<close>

text \<open>The call of \<open>WSASend\<close> with the request in flight; a null buffer pointer is dereferenced.\<close>

definition issue_send :: "network \<Rightarrow> addr \<Rightarrow> network option" where
  "issue_send net a = do {
     nb \<leftarrow> SendRequest_pBuffer (connectors net a);
     xs \<leftarrow> wsa_bytes nb;
     Some (emit net [WSASend (socket (connectors net a)) xs]) }"

definition Write ::
  "(nat \<Rightarrow> byte) \<Rightarrow> wsa \<Rightarrow> network \<Rightarrow> addr option \<Rightarrow> bytes option \<Rightarrow> u32 \<Rightarrow> (eResultCode \<times> network) option" where
  "Write junk w net p pSendData n =
     (case p of
        None \<Rightarrow> Some (fail, net)
      | Some a \<Rightarrow>
          if INVALID_SOCKET = socket (connectors net a) then Some (socket_disconnected, net)
          else do {
            (r, c) \<leftarrow> AddSendQueue junk a (connectors net a) pSendData n;
            let net = upd_connector net a c;
            if 0 > r then Some (fail, net)
            else if dwSendRef c = 0 then
              let (r, c) = SendPrepare a c; net = upd_connector net a c
              in if 0 > r then Some (fail, net)
                 else do {
                   net \<leftarrow> issue_send net a;
                   Some (if w = WSA_FAILED then fail else succ, net) }
            else Some (succ, net) })"

definition DoSend :: "wsa \<Rightarrow> network \<Rightarrow> addr \<Rightarrow> u32 \<Rightarrow> network option" where
  "DoSend w net a n =
     (if SendRequest_pBuffer (connectors net a) = None then None
      else
        let (remain, c) = SendComplete (connectors net a) n;
            (go, c) = (if 0 < remain then (True, c) else let (r, c) = SendPrepare a c in (0 < r, c));
            net = upd_connector net a c
        in if go then do {
             net \<leftarrow> issue_send net a;
             Some (if w = WSA_FAILED then snd (Disconnect net (Some a)) else net) }
           else Some net)"

subsection \<open>Receiving\<close>

definition net_RecvPrepare :: "network \<Rightarrow> addr \<Rightarrow> (int \<times> network) option" where
  "net_RecvPrepare net a = do {
     (r, c) \<leftarrow> RecvPrepare a (connectors net a);
     Some (r, upd_connector net a c) }"

definition issue_recv :: "network \<Rightarrow> addr \<Rightarrow> network" where
  "issue_recv net a = emit net [WSARecv (socket (connectors net a))]"

definition DoRecv :: "(nat \<Rightarrow> byte) \<Rightarrow> wsa \<Rightarrow> network \<Rightarrow> addr \<Rightarrow> u32 \<Rightarrow> network option" where
  "DoRecv junk w net a n = do {
     (r, p, c) \<leftarrow> RecvComplete junk a (connectors net a) n;
     let net = upd_connector net a c;
     let net = (case p of None \<Rightarrow> net | Some q \<Rightarrow>
          net\<lparr>recvPacketQueue := snd (RecvPacketQueue_Push (recvPacketQueue net) (Some q) 0)\<rparr>);
     if 0 > r then Some (snd (Disconnect net (Some a)))
     else do {
       (r, net) \<leftarrow> net_RecvPrepare net a;
       Some (if 0 < r
             then let net = issue_recv net a
                  in if w = WSA_FAILED then snd (Disconnect net (Some a)) else net
             else net) } }"

subsection \<open>Accepting and connecting\<close>

definition close_and_free :: "network \<Rightarrow> addr \<Rightarrow> SOCKET \<Rightarrow> network" where
  "close_and_free net a s = SetFreeConnector (emit net [CloseSocket s]) a"

text \<open>
  \<open>AcceptPrepare\<close>: \<open>s\<close> is what \<open>WSASocket\<close> returns, \<open>w\<close> how \<open>acceptEx\<close> ends.
\<close>

definition AcceptPrepare ::
  "(nat \<Rightarrow> byte) \<Rightarrow> (nat \<Rightarrow> addr) \<Rightarrow> SOCKET \<Rightarrow> wsa \<Rightarrow> network \<Rightarrow> network option" where
  "AcceptPrepare junk fresh s w net =
     (let (r, net) = GetFreeConnector junk fresh net
      in if INVALID_SOCKET = s then Some net
         else do {
           a \<leftarrow> r;
           (n, c) \<leftarrow> Connector_AcceptPrepare a ((connectors net a)\<lparr>socket := s\<rparr>);
           let net = emit (upd_connector net a c) [AcceptEx (ListenSock net) s];
           Some (if w = WSA_FAILED then snd (Disconnect net (Some a)) else net) })"

text \<open>\<open>port_ok\<close>: whether \<open>CreateIoCompletionPort\<close> returned the port.\<close>

definition DoAccept :: "bool \<Rightarrow> wsa \<Rightarrow> network \<Rightarrow> addr \<Rightarrow> network option" where
  "DoAccept port_ok w net a =
     (let s = socket (connectors net a); net = emit net [CreatePort s a]
      in if \<not> port_ok then Some (close_and_free net a s)
         else do {
           (r, net) \<leftarrow> net_RecvPrepare net a;
           if 0 \<ge> r then Some (close_and_free net a s)
           else let net = issue_recv net a
                in Some (if w = WSA_FAILED then close_and_free net a s else net) })"

text \<open>One round of the loop of \<open>AcceptThread\<close>; \<open>s\<close> is the socket \<open>WSAAccept\<close> returns.\<close>

definition AcceptThread_round ::
  "(nat \<Rightarrow> byte) \<Rightarrow> (nat \<Rightarrow> addr) \<Rightarrow> SOCKET \<Rightarrow> bool \<Rightarrow> wsa \<Rightarrow> network \<Rightarrow> network option" where
  "AcceptThread_round junk fresh s port_ok w net =
     (if INVALID_SOCKET = s then Some net
      else case GetFreeConnector junk fresh net of
        (None, net) \<Rightarrow> Some (emit net [CloseSocket s])
      | (Some a, net) \<Rightarrow>
          let net = emit (upd_connector net a ((connectors net a)\<lparr>socket := s\<rparr>)) [CreatePort s a]
          in if \<not> port_ok then Some (close_and_free net a s)
             else do {
               (r, net) \<leftarrow> net_RecvPrepare net a;
               if 0 \<ge> r then Some (close_and_free net a s)
               else let net = issue_recv net a
                    in Some (if w = WSA_FAILED then close_and_free net a s else net) })"

definition DoConnect ::
  "SOCKET \<Rightarrow> bool \<Rightarrow> bool \<Rightarrow> wsa \<Rightarrow> network \<Rightarrow> addr \<Rightarrow> (addr option \<times> network) option" where
  "DoConnect s connected port_ok w net a =
     (let net = upd_connector net a ((connectors net a)\<lparr>socket := s\<rparr>)
      in if INVALID_SOCKET = s then Some (None, net_TryRelease net a)
         else
           let net = emit net [Connect_call s]
           in if \<not> connected then Some (None, net_TryRelease net a)
              else
                let net = emit net [CreatePort s a]
                in if \<not> port_ok then Some (None, net_TryRelease net a)
                   else do {
                     (r, net) \<leftarrow> net_RecvPrepare net a;
                     if 0 \<ge> r then Some (None, net_TryRelease net a)
                     else let net = issue_recv net a
                          in Some (if w = WSA_FAILED then (None, net_TryRelease net a)
                                   else (Some a, net)) })"

text \<open>\<open>Connect(string, WORD)\<close>; \<open>found\<close> tells whether \<open>lookup_host\<close> resolves a name.\<close>

definition is_alpha :: "char \<Rightarrow> bool" where
  "is_alpha ch \<longleftrightarrow> (let n = (of_char ch :: nat) in 65 \<le> n \<and> n \<le> 90 \<or> 97 \<le> n \<and> n \<le> 122)"

definition Connect ::
  "(nat \<Rightarrow> byte) \<Rightarrow> (nat \<Rightarrow> addr) \<Rightarrow> bool \<Rightarrow> SOCKET \<Rightarrow> bool \<Rightarrow> bool \<Rightarrow> wsa \<Rightarrow> network \<Rightarrow> string \<Rightarrow> u16 \<Rightarrow>
   (addr option \<times> network) option" where
  "Connect junk fresh found s connected port_ok w net domain port =
     (case GetFreeConnector junk fresh net of
        (None, net) \<Rightarrow> Some (None, net)
      | (Some a, net) \<Rightarrow>
          let net = upd_connector net a (SetDomainA (connectors net a) domain port)
          in if domain \<noteq> [] \<and> is_alpha (hd domain) \<and> \<not> found then Some (None, net)
             else DoConnect s connected port_ok w net a)"

subsection \<open>Completion packets\<close>

text \<open>
  What \<open>GetQueuedCompletionStatus\<close> delivers.  A finished operation is named by its \<open>OVERLAPPED\<close>: the
  send or the receive request of some connector; its operator and its connector pointer are read from
  the request.  \<open>os_env\<close> collects the answers the handlers may ask for.
\<close>

datatype overlapped_ref = Send_of addr | Recv_of addr

datatype completion =
  Timed_out
| Failed_without_overlapped
| Failed_with "addr option"
| Null_overlapped
| Finished overlapped_ref u32

record os_env =
  env_junk :: "nat \<Rightarrow> byte"
  env_fresh :: "nat \<Rightarrow> addr"
  env_socket :: SOCKET
  env_port_ok :: bool
  env_wsa :: wsa
  env_accept :: wsa

definition request_of :: "network \<Rightarrow> overlapped_ref \<Rightarrow> overlapped" where
  "request_of net r = (case r of Send_of a \<Rightarrow> SendRequest (connectors net a)
     | Recv_of a \<Rightarrow> RecvRequest (connectors net a))"

text \<open>The branch for a closed connection: the socket is closed, but the connector keeps its number.\<close>

definition worker_disconnect :: "network \<Rightarrow> addr \<Rightarrow> eNetworkOperator \<Rightarrow> network" where
  "worker_disconnect net a op =
     (let c = connectors net a;
          net = (if INVALID_SOCKET \<noteq> socket c then emit net [Shutdown (socket c), CloseSocket (socket c)] else net);
          c = (if dwSendRef c \<noteq> 0 \<or> dwRecvRef c \<noteq> 0
               then (case op of
                       OP_SEND \<Rightarrow> c\<lparr>dwSendRef := dwSendRef c - 1\<rparr>
                     | OP_RECV \<Rightarrow> c\<lparr>dwRecvRef := dwRecvRef c - 1\<rparr>
                     | OP_ACCEPT \<Rightarrow> c)
               else c);
          net = upd_connector net a c
      in if dwSendRef c = 0 \<or> dwRecvRef c = 0 then net_TryRelease net a else net)"

definition WorkerThread_round :: "os_env \<Rightarrow> network \<Rightarrow> completion \<Rightarrow> network option" where
  "WorkerThread_round e net k =
     (case k of
        Timed_out \<Rightarrow> Some net
      | Failed_without_overlapped \<Rightarrow> Some net
      | Failed_with p \<Rightarrow> Some (case p of None \<Rightarrow> net | Some a \<Rightarrow> snd (Disconnect net (Some a)))
      | Null_overlapped \<Rightarrow> Some net
      | Finished r n \<Rightarrow>
          let ov = request_of net r
          in case ov_pConnector ov of
               None \<Rightarrow> Some net
             | Some a \<Rightarrow>
                 if NetOp ov \<noteq> OP_ACCEPT \<and> n = 0 then Some (worker_disconnect net a (NetOp ov))
                 else (case NetOp ov of
                     OP_ACCEPT \<Rightarrow> do {
                       net \<leftarrow> DoAccept (env_port_ok e) (env_wsa e) net a;
                       AcceptPrepare (env_junk e) (env_fresh e) (env_socket e) (env_accept e) net }
                   | OP_SEND \<Rightarrow> DoSend (env_wsa e) net a n
                   | OP_RECV \<Rightarrow> DoRecv (env_junk e) (env_wsa e) net a n))"

subsection \<open>The send path is a byte stream\<close>

text \<open>While a connector works, bytes that wait have a send in flight before them.\<close>

definition send_live :: "connector \<Rightarrow> bool" where
  "send_live c \<longleftrightarrow> send_ok c \<and> (dwSendRef c = 0 \<longrightarrow> SendQueue c = []) \<and> GetActive c"

lemma upd_connector_sel [simp]:
  "connectors (upd_connector net a c) a = c" "calls (upd_connector net a c) = calls net"
  "connectors (emit net cs) = connectors net" "calls (emit net cs) = calls net @ cs"
  by (simp_all add: upd_connector_def emit_def)

lemma upd_connector_other [simp]: "b \<noteq> a \<Longrightarrow> connectors (upd_connector net a c) b = connectors net b"
  by (simp add: upd_connector_def)

lemma upd_connector_recvPacketQueue [simp]:
  "recvPacketQueue (upd_connector net a c) = recvPacketQueue net"
  "recvPacketQueue (emit net cs) = recvPacketQueue net"
  by (simp_all add: upd_connector_def emit_def)

lemma send_ok_idle: "send_ok c \<Longrightarrow> dwSendRef c = 0 \<longleftrightarrow> SendRequest_pBuffer c = None"
  by (auto simp: send_ok_def split: option.splits)

lemma send_ok_busy: "send_ok c \<Longrightarrow> dwSendRef c \<noteq> 0 \<Longrightarrow> dwSendRef c = 1 \<and> in_flight c \<noteq> []"
  using length_nb_bytes by (fastforce simp: send_ok_def in_flight_def nb_ok_def split: option.splits)

lemma in_flight_idle: "send_ok c \<Longrightarrow> dwSendRef c = 0 \<Longrightarrow> in_flight c = []"
  by (auto simp: send_ok_def in_flight_def split: option.splits)

lemma issue_send_ok:
  assumes "send_ok (connectors net a)" and "dwSendRef (connectors net a) \<noteq> 0"
  shows "issue_send net a = Some (emit net [WSASend (socket (connectors net a)) (in_flight (connectors net a))])"
  using assms wsa_bytes_ok by (auto simp: issue_send_def send_ok_def in_flight_def split: option.splits)

lemma Write_live:
  assumes live: "send_live (connectors net a)" and n: "0 < unat n" "unat n \<le> max_packet" "unat n \<le> length data"
    and w: "w \<noteq> WSA_FAILED"
  shows "\<exists>net'. Write junk w net (Some a) (Some data) n = Some (succ, net') \<and>
    send_live (connectors net' a) \<and>
    outstanding (connectors net' a) = outstanding (connectors net a) @ take (unat n) data \<and>
    socket (connectors net' a) = socket (connectors net a) \<and>
    (if in_flight (connectors net a) = []
     then calls net' = calls net @ [WSASend (socket (connectors net a)) (in_flight (connectors net' a))] \<and>
       in_flight (connectors net' a) \<noteq> []
     else calls net' = calls net \<and> in_flight (connectors net' a) = in_flight (connectors net a))"
proof -
  let ?c = "connectors net a"
  have sock: "INVALID_SOCKET \<noteq> socket ?c" and ok: "send_ok ?c"
    using live by (simp_all add: send_live_def GetActive_def)
  obtain c1 where c1: "AddSendQueue junk a ?c (Some data) n = Some (int (length (SendQueue ?c)) + 1, c1)"
    "send_ok c1" "outstanding c1 = outstanding ?c @ take (unat n) data" "SendQueue c1 \<noteq> []"
    "dwSendRef c1 = dwSendRef ?c" "socket c1 = socket ?c" "in_flight c1 = in_flight ?c"
    using AddSendQueue_ok [OF ok n] by blast
  show ?thesis
  proof (cases "dwSendRef ?c = 0")
    case True
    obtain r c2 where c2: "SendPrepare a c1 = (r, c2)" "0 < r" "send_ok c2" "outstanding c2 = outstanding c1"
      "dwSendRef c2 = 1" "socket c2 = socket c1"
      using SendPrepare_idle [OF c1(2) _ c1(4), of a] c1(5) True by auto
    have "issue_send (upd_connector (upd_connector net a c1) a c2) a =
        Some (emit (upd_connector (upd_connector net a c1) a c2) [WSASend (socket c2) (in_flight c2)])"
      using issue_send_ok [of "upd_connector (upd_connector net a c1) a c2" a] c2 by simp
    then show ?thesis
      using sock c1 c2 True w in_flight_idle [OF ok True] send_ok_busy [OF c2(3)]
      by (simp add: Write_def send_live_def GetActive_def)
  next
    case False
    then show ?thesis using sock c1 send_ok_busy [OF ok] by (simp add: Write_def send_live_def GetActive_def)
  qed
qed

lemma DoSend_live:
  assumes live: "send_live (connectors net a)" and fl: "in_flight (connectors net a) \<noteq> []"
    and n: "unat n \<le> length (in_flight (connectors net a))" and w: "w \<noteq> WSA_FAILED"
  shows "\<exists>net'. DoSend w net a n = Some net' \<and> send_live (connectors net' a) \<and>
    outstanding (connectors net' a) = drop (unat n) (outstanding (connectors net a)) \<and>
    socket (connectors net' a) = socket (connectors net a) \<and>
    calls net' = calls net @ (if in_flight (connectors net' a) = [] then []
      else [WSASend (socket (connectors net a)) (in_flight (connectors net' a))])"
proof -
  let ?c = "connectors net a"
  have act: "GetActive ?c" and ok: "send_ok ?c" using live by (simp_all add: send_live_def)
  have some: "SendRequest_pBuffer ?c \<noteq> None" using fl by (auto simp: in_flight_def split: option.splits)
  obtain c1 where c1: "SendComplete ?c n = (int (length (in_flight c1)), c1)" "send_ok c1"
    "outstanding c1 = drop (unat n) (outstanding ?c)" "socket c1 = socket ?c"
    using SendComplete_ok [OF ok fl n] by blast
  have step: "DoSend w net a n = (case (if 0 < int (length (in_flight c1)) then (True, c1)
      else let (r, c) = SendPrepare a c1 in (0 < r, c)) of (go, c) \<Rightarrow>
        if go then do { net \<leftarrow> issue_send (upd_connector net a c) a; Some net }
        else Some (upd_connector net a c))"
    using some c1(1) w by (cases "SendPrepare a c1") (auto simp: DoSend_def)
  show ?thesis
  proof (cases "dwSendRef c1 = 0")
    case False
    then have "0 < int (length (in_flight c1))" using send_ok_busy [OF c1(2)] by simp
    then show ?thesis
      using step c1 False act issue_send_ok [of "upd_connector net a c1" a]
      by (auto simp: send_live_def GetActive_def)
  next
    case idle: True
    then have no: "in_flight c1 = []" using in_flight_idle [OF c1(2)] by simp
    show ?thesis
    proof (cases "SendQueue c1 = []")
      case True
      then show ?thesis
        using step no SendPrepare_nothing [of c1 a] c1 act by (simp add: send_live_def GetActive_def)
    next
      case False
      then obtain r c2 where c2: "SendPrepare a c1 = (r, c2)" "0 < r" "send_ok c2"
        "outstanding c2 = outstanding c1" "dwSendRef c2 = 1" "socket c2 = socket c1"
        using SendPrepare_idle [OF c1(2) idle, of a] by auto
      then show ?thesis
        using step no c1 act issue_send_ok [of "upd_connector net a c2" a] send_ok_busy [OF c2(3)]
        by (simp add: send_live_def GetActive_def)
    qed
  qed
qed

subsection \<open>The interface the sessions rely on\<close>

text \<open>
  A byte stream: what is written comes out in order.  \<open>Put\<close> writes a packet, \<open>Ack\<close> completes a number of
  bytes; both say how the system answers the call that may follow.  \<open>can\<close> is what callers and the system
  may do next, \<open>pend\<close> what has been written and not come out, \<open>out\<close> what has.
\<close>

datatype stream_op = Put wsa bytes | Ack wsa u32

fun written :: "stream_op list \<Rightarrow> bytes" where
  "written [] = []"
| "written (Put w xs # ops) = xs @ written ops"
| "written (Ack w k # ops) = written ops"

fun accepted :: "stream_op list \<Rightarrow> bool" where
  "accepted [] = True"
| "accepted (Put w xs # ops) = (w \<noteq> WSA_FAILED \<and> accepted ops)"
| "accepted (Ack w k # ops) = (w \<noteq> WSA_FAILED \<and> accepted ops)"

fun stream_run :: "(stream_op \<Rightarrow> 'n \<Rightarrow> 'n option) \<Rightarrow> stream_op list \<Rightarrow> 'n \<Rightarrow> 'n option" where
  "stream_run step [] n = Some n"
| "stream_run step (op # ops) n = do { n' \<leftarrow> step op n; stream_run step ops n' }"

fun stream_use ::
  "(stream_op \<Rightarrow> 'n \<Rightarrow> bool) \<Rightarrow> (stream_op \<Rightarrow> 'n \<Rightarrow> 'n option) \<Rightarrow> stream_op list \<Rightarrow> 'n \<Rightarrow> bool" where
  "stream_use can step [] n = True"
| "stream_use can step (op # ops) n = (can op n \<and> (\<forall>n' \<in> set_option (step op n). stream_use can step ops n'))"

abbreviation acks :: "(wsa \<times> u32) list \<Rightarrow> stream_op list" where
  "acks ks \<equiv> map (\<lambda>(w, k). Ack w k) ks"

locale byte_stream =
  fixes live :: "'n \<Rightarrow> bool"
    and pend :: "'n \<Rightarrow> bytes"
    and out :: "'n \<Rightarrow> bytes"
    and can :: "stream_op \<Rightarrow> 'n \<Rightarrow> bool"
    and step :: "stream_op \<Rightarrow> 'n \<Rightarrow> 'n option"
  assumes put_ok: "live n \<Longrightarrow> w \<noteq> WSA_FAILED \<Longrightarrow> can (Put w xs) n \<Longrightarrow>
      \<exists>n'. step (Put w xs) n = Some n' \<and> live n' \<and> pend n' = pend n @ xs \<and> out n' = out n"
    and ack_ok: "live n \<Longrightarrow> w \<noteq> WSA_FAILED \<Longrightarrow> can (Ack w k) n \<Longrightarrow>
      \<exists>n'. step (Ack w k) n = Some n' \<and> live n' \<and> out n' @ pend n' = out n @ pend n \<and>
        length (pend n') < length (pend n)"
    and busy: "live n \<Longrightarrow> pend n \<noteq> [] \<Longrightarrow> \<exists>k. \<forall>w. can (Ack w k) n"
begin

lemma run_stream:
  "live n \<Longrightarrow> stream_use can step ops n \<Longrightarrow> accepted ops \<Longrightarrow>
   \<exists>n'. stream_run step ops n = Some n' \<and> live n' \<and> out n' @ pend n' = out n @ pend n @ written ops"
proof (induction ops arbitrary: n)
  case (Cons x ops)
  show ?case
  proof (cases x)
    case (Put w xs)
    then obtain n1 where "step x n = Some n1" "live n1" "pend n1 = pend n @ xs" "out n1 = out n"
      using put_ok [of n w xs] Cons.prems by auto
    then show ?thesis using Cons.IH [of n1] Cons.prems Put by auto
  next
    case (Ack w k)
    then obtain n1 where n1: "step x n = Some n1" "live n1" "out n1 @ pend n1 = out n @ pend n"
      using ack_ok [of n w k] Cons.prems by auto
    then obtain n' where "stream_run step ops n1 = Some n'" "live n'" "out n' @ pend n' = out n1 @ pend n1 @ written ops"
      using Cons.IH [of n1] Cons.prems Ack by auto
    then show ?thesis using n1(1,3) Ack by (metis append_assoc bind.bind_lunit stream_run.simps(2) written.simps(3))
  qed
qed simp

lemma run_acks:
  "live n \<Longrightarrow> stream_use can step (acks ks) n \<Longrightarrow> accepted (acks ks) \<Longrightarrow> length ks \<le> length (pend n)"
proof (induction ks arbitrary: n)
  case (Cons x ks)
  obtain w k where x: "x = (w, k)" by fastforce
  then obtain n1 where "step (Ack w k) n = Some n1" "live n1" "length (pend n1) < length (pend n)"
    using ack_ok [of n w k] Cons.prems by auto
  then show ?case using Cons.IH [of n1] Cons.prems x by fastforce
qed simp

text \<open>When the system completes what it is given, everything written gets out.\<close>

lemma run_drains:
  "live n \<Longrightarrow> w \<noteq> WSA_FAILED \<Longrightarrow> \<exists>ks n'. stream_use can step (acks ks) n \<and> accepted (acks ks) \<and>
     stream_run step (acks ks) n = Some n' \<and> live n' \<and> pend n' = [] \<and> out n' = out n @ pend n"
proof (induction "length (pend n)" arbitrary: n rule: less_induct)
  case less
  show ?case
  proof (cases "pend n = []")
    case True
    then show ?thesis using less.prems by (intro exI [of _ "[]"] exI [of _ n]) simp
  next
    case False
    then obtain k where k: "can (Ack w k) n" using busy less.prems by blast
    then obtain n1 where n1: "step (Ack w k) n = Some n1" "live n1" "out n1 @ pend n1 = out n @ pend n"
      "length (pend n1) < length (pend n)"
      using ack_ok less.prems by blast
    then obtain ks n' where "stream_use can step (acks ks) n1" "accepted (acks ks)" "stream_run step (acks ks) n1 = Some n'"
      "live n'" "pend n' = []" "out n' = out n @ pend n"
      using less.hyps less.prems(2) by metis
    then show ?thesis using n1(1) k less.prems(2) by (intro exI [of _ "(w, k) # ks"] exI [of _ n']) simp
  qed
qed

end

subsection \<open>A connector and the system behind its socket\<close>

text \<open>
  The system's side of a connection is read from the calls the program makes: \<open>requests\<close> are the buffers of
  the calls of \<open>WSASend\<close> on the connector's socket that were accepted and have not completed, \<open>delivered\<close> the
  bytes that completed requests have sent.  A completion is possible only for a request the system has, for
  at least one byte and at most all of its bytes, and is handled by \<open>DoSend\<close>.  \<open>write_answers\<close> collects what \<open>Write\<close>
  tells its callers.
\<close>

record link =
  link_net :: network
  requests :: "bytes list"
  delivered :: bytes
  write_answers :: "eResultCode list"

fun sends_on :: "SOCKET \<Rightarrow> os_call list \<Rightarrow> bytes list" where
  "sends_on s [] = []"
| "sends_on s (x # cs) = (case x of WSASend s' xs \<Rightarrow> if s' = s then [xs] else [] | _ \<Rightarrow> []) @ sends_on s cs"

definition posted :: "wsa \<Rightarrow> SOCKET \<Rightarrow> network \<Rightarrow> network \<Rightarrow> bytes list" where
  "posted w s net net' = (if w = WSA_FAILED then [] else sends_on s (drop (length (calls net)) (calls net')))"

fun link_can :: "stream_op \<Rightarrow> link \<Rightarrow> bool" where
  "link_can (Put w xs) l = (xs \<noteq> [] \<and> length xs \<le> max_packet)"
| "link_can (Ack w k) l = (case requests l of [] \<Rightarrow> False | r # rs \<Rightarrow> 0 < unat k \<and> unat k \<le> length r)"

fun link_step :: "(nat \<Rightarrow> byte) \<Rightarrow> addr \<Rightarrow> stream_op \<Rightarrow> link \<Rightarrow> link option" where
  "link_step junk a (Put w xs) l = do {
     (r, net) \<leftarrow> Write junk w (link_net l) (Some a) (Some xs) (of_nat (length xs));
     Some (l\<lparr>link_net := net, write_answers := write_answers l @ [r],
       requests := requests l @ posted w (socket (connectors (link_net l) a)) (link_net l) net\<rparr>) }"
| "link_step junk a (Ack w k) l =
     (case requests l of
        [] \<Rightarrow> None
      | r # rs \<Rightarrow> do {
          net \<leftarrow> DoSend w (link_net l) a k;
          Some (l\<lparr>link_net := net, delivered := delivered l @ take (unat k) r,
            requests := rs @ posted w (socket (connectors (link_net l) a)) (link_net l) net\<rparr>) })"

abbreviation link_left :: "addr \<Rightarrow> link \<Rightarrow> bytes" where
  "link_left a l \<equiv> outstanding (connectors (link_net l) a)"

text \<open>A healthy connection: what the connector has in flight is the one request the system has.\<close>

definition link_ok :: "addr \<Rightarrow> link \<Rightarrow> bool" where
  "link_ok a l \<longleftrightarrow> send_live (connectors (link_net l) a) \<and>
     requests l = (if in_flight (connectors (link_net l) a) = [] then [] else [in_flight (connectors (link_net l) a)])"

lemma in_flight_first: "take (length (in_flight c)) (outstanding c) = in_flight c"
  by (simp add: outstanding_def)

lemma in_flight_fits: "send_live c \<Longrightarrow> length (in_flight c) \<le> max_packet"
  using length_nb_bytes by (fastforce simp: send_live_def send_ok_def in_flight_def nb_ok_def split: option.splits)

lemma in_flight_busy: "send_live c \<Longrightarrow> in_flight c = [] \<longleftrightarrow> outstanding c = []"
  using send_ok_busy [of c] by (auto simp: send_live_def outstanding_def)

lemma link_put:
  assumes "link_ok a l" and "w \<noteq> WSA_FAILED" and "link_can (Put w xs) l"
  shows "\<exists>l'. link_step junk a (Put w xs) l = Some l' \<and> link_ok a l' \<and> link_left a l' = link_left a l @ xs \<and>
    delivered l' = delivered l \<and> write_answers l' = write_answers l @ [succ]"
proof -
  have u: "unat (of_nat (length xs) :: u32) = length xs" using assms(3) by (simp add: unat_of_nat)
  have live: "send_live (connectors (link_net l) a)" using assms(1) by (simp add: link_ok_def)
  obtain net where "Write junk w (link_net l) (Some a) (Some xs) (of_nat (length xs)) = Some (succ, net)"
    "send_live (connectors net a)" "outstanding (connectors net a) = link_left a l @ xs"
    "if in_flight (connectors (link_net l) a) = []
     then calls net = calls (link_net l) @ [WSASend (socket (connectors (link_net l) a)) (in_flight (connectors net a))] \<and>
       in_flight (connectors net a) \<noteq> []
     else calls net = calls (link_net l) \<and> in_flight (connectors net a) = in_flight (connectors (link_net l) a)"
    using Write_live [OF live, of "of_nat (length xs)" xs w junk] assms(2,3) u by auto
  then show ?thesis using assms by (auto simp: link_ok_def posted_def split: if_splits)
qed

lemma link_ack:
  assumes "link_ok a l" and "w \<noteq> WSA_FAILED" and "link_can (Ack w k) l"
  shows "\<exists>l'. link_step junk a (Ack w k) l = Some l' \<and> link_ok a l' \<and>
    delivered l' @ link_left a l' = delivered l @ link_left a l \<and> length (link_left a l') < length (link_left a l)"
proof -
  let ?c = "connectors (link_net l) a"
  have live: "send_live ?c" and fl: "in_flight ?c \<noteq> []" and r: "requests l = [in_flight ?c]"
    and k: "0 < unat k" "unat k \<le> length (in_flight ?c)"
    using assms by (auto simp: link_ok_def split: if_splits)
  obtain net where net: "DoSend w (link_net l) a k = Some net" "send_live (connectors net a)"
    "outstanding (connectors net a) = drop (unat k) (outstanding ?c)"
    "calls net = calls (link_net l) @ (if in_flight (connectors net a) = [] then []
      else [WSASend (socket ?c) (in_flight (connectors net a))])"
    using DoSend_live [OF live fl k(2) assms(2)] by blast
  have sp: "take (unat k) (in_flight ?c) @ drop (unat k) (outstanding ?c) = outstanding ?c"
    using in_flight_first [of ?c] k(2) by (metis append_take_drop_id min.absorb1 take_take)
  have "length (in_flight ?c) \<le> length (outstanding ?c)" by (simp add: outstanding_def)
  then show ?thesis
    using net r sp k assms(2) by (auto simp: link_ok_def posted_def)
qed

interpretation peer: byte_stream "link_ok a" "link_left a" delivered link_can "link_step junk a"
  for junk a
proof (unfold_locales, goal_cases)
  case (1 l w xs)
  then show ?case using link_put by blast
next
  case (2 l w k)
  then show ?case using link_ack by blast
next
  case (3 l)
  let ?c = "connectors (link_net l) a"
  have "send_live ?c" "in_flight ?c \<noteq> []" "requests l = [in_flight ?c]"
    using 3 in_flight_busy [of ?c] by (auto simp: link_ok_def)
  moreover from this have "unat (of_nat (length (in_flight ?c)) :: u32) = length (in_flight ?c)"
    using in_flight_fits [of ?c] by (simp add: unat_of_nat)
  ultimately show ?case by (intro exI [of _ "of_nat (length (in_flight ?c))"]) simp
qed

text \<open>After a refused send the connector waits for a completion that never comes.\<close>

definition link_stalled :: "addr \<Rightarrow> link \<Rightarrow> bool" where
  "link_stalled a l \<longleftrightarrow> send_ok (connectors (link_net l) a) \<and> dwSendRef (connectors (link_net l) a) \<noteq> 0 \<and>
     GetActive (connectors (link_net l) a) \<and> requests l = []"

lemma link_refused:
  assumes "link_ok a l" and "requests l = []" and "link_can (Put WSA_FAILED xs) l"
  shows "\<exists>l'. link_step junk a (Put WSA_FAILED xs) l = Some l' \<and> link_stalled a l' \<and> link_left a l' = link_left a l @ xs \<and>
    delivered l' = delivered l \<and> write_answers l' = write_answers l @ [fail]"
proof -
  let ?net = "link_net l" let ?c = "connectors ?net a" let ?n = "of_nat (length xs) :: u32"
  have u: "unat ?n = length xs" using assms(3) by (simp add: unat_of_nat)
  have ok: "send_ok ?c" and sock: "INVALID_SOCKET \<noteq> socket ?c" and idle: "dwSendRef ?c = 0"
    using assms(1,2) send_ok_busy [of ?c] by (auto simp: link_ok_def send_live_def GetActive_def split: if_splits)
  obtain c1 where c1: "AddSendQueue junk a ?c (Some xs) ?n = Some (int (length (SendQueue ?c)) + 1, c1)"
    "send_ok c1" "SendQueue c1 \<noteq> []" "dwSendRef c1 = dwSendRef ?c" "socket c1 = socket ?c" "outstanding c1 = outstanding ?c @ xs"
    using AddSendQueue_ok [OF ok, of ?n xs junk a] assms(3) u by auto
  obtain r c2 where c2: "SendPrepare a c1 = (r, c2)" "0 < r" "send_ok c2" "dwSendRef c2 = 1" "socket c2 = socket c1"
    "outstanding c2 = outstanding c1"
    using SendPrepare_idle [OF c1(2) _ c1(3), of a] c1(4) idle by auto
  let ?net2 = "upd_connector (upd_connector ?net a c1) a c2"
  have "issue_send ?net2 a = Some (emit ?net2 [WSASend (socket c2) (in_flight c2)])" using issue_send_ok [of ?net2 a] c2 by simp
  then have "Write junk WSA_FAILED ?net (Some a) (Some xs) ?n = Some (fail, emit ?net2 [WSASend (socket c2) (in_flight c2)])"
    using sock c1 c2 idle by (simp add: Write_def)
  then show ?thesis using c1 c2 sock assms(2) by (simp add: link_stalled_def posted_def GetActive_def)
qed

lemma link_stays_stalled:
  assumes "link_stalled a l" and "link_can (Put w xs) l"
  shows "\<exists>l'. link_step junk a (Put w xs) l = Some l' \<and> link_stalled a l' \<and> link_left a l' = link_left a l @ xs \<and>
    delivered l' = delivered l \<and> write_answers l' = write_answers l @ [succ] \<and> calls (link_net l') = calls (link_net l)"
proof -
  let ?c = "connectors (link_net l) a" let ?n = "of_nat (length xs) :: u32"
  have u: "unat ?n = length xs" using assms(2) by (simp add: unat_of_nat)
  have ok: "send_ok ?c" "dwSendRef ?c \<noteq> 0" "INVALID_SOCKET \<noteq> socket ?c" "requests l = []"
    using assms(1) by (simp_all add: link_stalled_def GetActive_def)
  obtain c1 where c1: "AddSendQueue junk a ?c (Some xs) ?n = Some (int (length (SendQueue ?c)) + 1, c1)"
    "send_ok c1" "dwSendRef c1 = dwSendRef ?c" "socket c1 = socket ?c" "outstanding c1 = outstanding ?c @ xs"
    using AddSendQueue_ok [OF ok(1), of ?n xs junk a] assms(2) u by auto
  then have "Write junk w (link_net l) (Some a) (Some xs) ?n = Some (succ, upd_connector (link_net l) a c1)"
    using ok by (simp add: Write_def)
  then show ?thesis using c1 ok by (simp add: link_stalled_def posted_def GetActive_def)
qed

declare link_step.simps [simp del]

lemma stalled_run:
  "link_stalled a l \<Longrightarrow> stream_use link_can (link_step junk a) ops l \<Longrightarrow>
   \<exists>l'. stream_run (link_step junk a) ops l = Some l' \<and> link_stalled a l' \<and> link_left a l' = link_left a l @ written ops \<and>
     delivered l' = delivered l \<and> write_answers l' = write_answers l @ replicate (length ops) succ \<and>
     calls (link_net l') = calls (link_net l)"
proof (induction ops arbitrary: l)
  case (Cons x ops)
  obtain w xs where x: "x = Put w xs" using Cons.prems by (cases x) (auto simp: link_stalled_def)
  obtain l1 where l1: "link_step junk a x l = Some l1" "link_stalled a l1" "link_left a l1 = link_left a l @ xs"
    "delivered l1 = delivered l" "write_answers l1 = write_answers l @ [succ]" "calls (link_net l1) = calls (link_net l)"
    using link_stays_stalled [OF Cons.prems(1), of w xs junk] Cons.prems(2) x by auto
  have "stream_use link_can (link_step junk a) ops l1" using Cons.prems(2) l1(1) by simp
  from Cons.IH [OF l1(2) this] show ?case using l1 by (auto simp: x)
qed simp

subsection \<open>The receive path\<close>

lemma RecvPrepare_ok:
  assumes "recv_ok c"
  shows "\<exists>c'. RecvPrepare self c = Some (int max_packet, c') \<and> recv_ok c' \<and>
    RecvDataBuffer c' = RecvDataBuffer c \<and> socket c' = socket c \<and> cn_param c' = cn_param c \<and>
    dwRecvRef c' = dwRecvRef c + 1"
  using assms sint_pos_small [of MAX_PACKET_BUFFER_SIZE]
  by (simp add: RecvPrepare_def Reset_def mem_simps recv_ok_def SetRecvData_def Let_def)

lemma RecvComplete_keeps:
  "RecvComplete junk self c n = Some (r, p, c') \<Longrightarrow>
   socket c' = socket c \<and> cn_param c' = cn_param c \<and> dwRecvRef c' = dwRecvRef c - 1"
  by (auto simp: RecvComplete_def Let_def Option.bind_eq_Some_conv split: if_splits)

lemma queue_push_waiting:
  assumes "queue_ok q"
  shows "waiting (snd (RecvPacketQueue_Push q (Some p) 0)) 0 = waiting q 0 @ [p]"
  using Recv_Push_waiting [OF assms, of 0 p "fst (RecvPacketQueue_Push q (Some p) 0)"
      "snd (RecvPacketQueue_Push q (Some p) 0)"]
  by (simp add: MAX_PACKET_QUEUE_PHASE_def)

text \<open>A completed receive whose bytes allow a packet to be cut off.\<close>

lemma DoRecv_packet:
  assumes ok: "recv_ok (connectors net a)" and n: "unat n \<le> max_packet" and q: "queue_ok (recvPacketQueue net)"
    and spec: "recv_spec (unparsed (connectors net a)) (received (connectors net a) n) = (True, Some pk, rest)"
    and w: "w \<noteq> WSA_FAILED"
  shows "\<exists>net' p. DoRecv junk w net a n = Some net' \<and> packet_bytes p = pk \<and> ps_pConnector p = Some a \<and>
    waiting (recvPacketQueue net') 0 = waiting (recvPacketQueue net) 0 @ [p] \<and>
    unparsed (connectors net' a) = rest \<and> recv_ok (connectors net' a) \<and>
    socket (connectors net' a) = socket (connectors net a) \<and>
    calls net' = calls net @ [WSARecv (socket (connectors net a))] \<and>
    cn_param (connectors net' a) = cn_param (connectors net a) \<and> unat (nDataSize p) \<le> length (pBuffer p)"
proof -
  obtain p c1 where c1: "RecvComplete junk a (connectors net a) n = Some (int (length rest), Some p, c1)"
    "packet_bytes p = pk" "unparsed c1 = rest" "recv_ok c1" "ps_pConnector p = Some a"
    "unat (nDataSize p) \<le> length (pBuffer p)"
    using RecvComplete_refines [OF ok n spec, of junk a] by auto
  have sk: "socket c1 = socket (connectors net a)" "cn_param c1 = cn_param (connectors net a)"
    using RecvComplete_keeps [OF c1(1)] by simp_all
  obtain c2 where c2: "RecvPrepare a c1 = Some (int max_packet, c2)" "recv_ok c2"
    "RecvDataBuffer c2 = RecvDataBuffer c1" "socket c2 = socket c1" "cn_param c2 = cn_param c1"
    using RecvPrepare_ok [OF c1(4)] by blast
  show ?thesis
    using c1 c2 w sk queue_push_waiting [OF q, of p]
    by (simp add: DoRecv_def net_RecvPrepare_def issue_recv_def Let_def)
qed

lemma DoRecv_refused:
  assumes ok: "recv_ok (connectors net a)" and n: "unat n \<le> max_packet"
    and act: "GetActive (connectors net a)"
    and spec: "recv_spec (unparsed (connectors net a)) (received (connectors net a) n) = (False, out, rest)"
  shows "\<exists>net'. DoRecv junk w net a n = Some net' \<and> \<not> GetActive (connectors net' a) \<and>
    recvPacketQueue net' = recvPacketQueue net \<and> CloseSocket (socket (connectors net a)) \<in> set (calls net')"
proof -
  have out: "out = None" using spec by (auto simp: recv_spec_def Let_def split: if_splits)
  obtain p c1 where c1: "RecvComplete junk a (connectors net a) n = Some (- 1, p, c1)" "p = None"
    using RecvComplete_refines [OF ok n spec, of junk a] out by auto
  have sk: "socket c1 = socket (connectors net a)" "cn_param c1 = cn_param (connectors net a)"
    using RecvComplete_keeps [OF c1(1)] by simp_all
  show ?thesis
    using c1 act sk by (auto simp: DoRecv_def Disconnect_def close_socket_def GetActive_def Let_def)
qed

lemma recv_spec_frame:
  assumes "old @ data = frame body seq now @ rest" and "length (old @ data) \<le> max_packet"
  shows "recv_spec old data = (True, Some (frame body seq now), rest)"
proof -
  have "length body + 20 \<le> max_packet"
    using assms(2) unfolding assms(1) by simp
  then have small: "length body + 20 < 2 ^ 32" by simp
  show ?thesis
    using assms(2) parse_stream_frame [OF small, of seq now rest] unfolding recv_spec_def Let_def assms(1)
    by simp
qed

lemma recv_spec_fragment:
  assumes "old @ data = take k (frame body seq now)" and "k < length body + 20"
    and "length body + 20 \<le> max_packet"
  shows "recv_spec old data = (False, None, old @ data)"
proof -
  have small: "length body + 20 < 2 ^ 32" using assms(3) by simp
  show ?thesis
    using parse_stream_prefix [OF small assms(2), of seq now] assms(2,3)
    unfolding recv_spec_def Let_def assms(1) by simp
qed

text \<open>A network with one fresh connector, for concrete instances.\<close>

definition demo_net :: "SOCKET \<Rightarrow> network" where
  "demo_net s = \<lparr>connectors = (\<lambda>a. (Connector (\<lambda>_. 0) 1)\<lparr>socket := s\<rparr>), unique_connector_uid = 1,
     connectorMgr = ObjectPoolMgrBase (\<lambda>i. i) 10, recvPacketQueue = PacketDataQueue, calls = [],
     ListenSock = INVALID_SOCKET, threadSuspended = True, stopRequested = False, threads = []\<rparr>"

lemma demo_net_ok:
  assumes "s \<noteq> INVALID_SOCKET"
  shows "send_live (connectors (demo_net s) a)" "outstanding (connectors (demo_net s) a) = []"
    "recv_ok (connectors (demo_net s) a)" "queue_ok (recvPacketQueue (demo_net s))"
    "unparsed (connectors (demo_net s) a) = []" "socket (connectors (demo_net s) a) = s"
    "in_flight (connectors (demo_net s) a) = []" "SendQueue (connectors (demo_net s) a) = []"
    "dwSendRef (connectors (demo_net s) a) = 0"
  using assms send_ok_new [of "\<lambda>_. 0" 1] recv_ok_new [of "\<lambda>_. 0" 1] queue_ok_new circle_ok_fresh [OF MAX_ne]
  by (simp_all add: demo_net_def send_live_def GetActive_def outstanding_def in_flight_def send_ok_def
      recv_ok_def Connector_def)

subsection \<open>Properties\<close>

text \<open>
  C6: The send path is a byte stream.  For a connected, healthy connector and any sequence of
  \<open>Network::Write\<close> calls with packets of 1 to 10240 bytes and of completions the system can deliver for
  the \<open>WSASend\<close> calls it was given, in any order and with any partial transfer sizes, as long as the system
  refuses no send: every call succeeds, the bytes sent so far followed by those still to go are exactly
  the bytes written, in order; at most one request is with the system, it holds the next bytes, and as
  long as bytes are left there is one.
\<close>

theorem send_path_is_stream:
  assumes "link_ok a l" and "stream_use link_can (link_step junk a) ops l" and "accepted ops"
  shows "\<exists>l' rest. stream_run (link_step junk a) ops l = Some l' \<and>
    delivered l' @ link_left a l' = delivered l @ link_left a l @ written ops \<and>
    link_left a l' = concat (requests l') @ rest \<and> length (requests l') \<le> 1 \<and>
    (link_left a l' \<noteq> [] \<longrightarrow> requests l' \<noteq> [])"
proof -
  obtain l' where l': "stream_run (link_step junk a) ops l = Some l'" "link_ok a l'"
    "delivered l' @ link_left a l' = delivered l @ link_left a l @ written ops"
    using peer.run_stream [OF assms] by blast
  then show ?thesis using in_flight_busy [of "connectors (link_net l') a"] by (auto simp: link_ok_def outstanding_def)
qed

definition demo_link :: link where
  "demo_link = \<lparr>link_net = demo_net 7, requests = [], delivered = [], write_answers = []\<rparr>"

lemma demo_link_ok: "link_ok a demo_link" "link_left a demo_link = []"
proof -
  have s: "(7 :: SOCKET) \<noteq> INVALID_SOCKET" by (simp add: INVALID_SOCKET_def)
  show "link_ok a demo_link" "link_left a demo_link = []" using demo_net_ok [OF s] by (simp_all add: link_ok_def demo_link_def)
qed

text \<open>Two packets are written.\<close>

lemma demo_use:
  "stream_use link_can (link_step (\<lambda>_. 0) 3) [Put WSA_OK [1, 2, 3], Put WSA_IO_PENDING [4]] demo_link"
  by simp

theorem send_path_is_stream_witness:
  "\<exists>l'. stream_run (link_step (\<lambda>_. 0) 3) [Put WSA_OK [1, 2, 3], Put WSA_IO_PENDING [4]] demo_link = Some l' \<and>
    delivered l' @ link_left 3 l' = [1, 2, 3, 4] \<and> length (requests l') \<le> 1"
  using send_path_is_stream [OF demo_link_ok(1) demo_use] demo_link_ok(2) [of 3] by (auto simp: demo_link_def)



text \<open>
  C39: After \<open>WSASend\<close> has been refused once, the connector never sends again.  \<open>Write\<close> reports the failure but
  leaves the send marked as in flight; the system has no request to complete, and every later \<open>Write\<close>,
  however many there are and whatever the system would answer, reports success, calls nothing and only
  lets the queue grow.
\<close>

theorem failed_send_stalls:
  assumes "link_ok a l" and "requests l = []"
    and "stream_use link_can (link_step junk a) (Put WSA_FAILED xs # ops) l"
  shows "\<exists>l1 l2. link_step junk a (Put WSA_FAILED xs) l = Some l1 \<and> write_answers l1 = write_answers l @ [fail] \<and>
    stream_run (link_step junk a) ops l1 = Some l2 \<and> write_answers l2 = write_answers l1 @ replicate (length ops) succ \<and>
    calls (link_net l2) = calls (link_net l1) \<and> requests l2 = [] \<and> delivered l2 = delivered l \<and>
    link_left a l2 = link_left a l @ xs @ written ops"
proof -
  obtain l1 where l1: "link_step junk a (Put WSA_FAILED xs) l = Some l1" "link_stalled a l1"
    "link_left a l1 = link_left a l @ xs" "delivered l1 = delivered l" "write_answers l1 = write_answers l @ [fail]"
    using link_refused [OF assms(1,2), of xs junk] assms(3) by auto
  obtain l2 where "stream_run (link_step junk a) ops l1 = Some l2" "link_stalled a l2" "link_left a l2 = link_left a l1 @ written ops"
    "delivered l2 = delivered l1" "write_answers l2 = write_answers l1 @ replicate (length ops) succ" "calls (link_net l2) = calls (link_net l1)"
    using stalled_run [OF l1(2), of junk ops] assms(3) l1(1) by auto
  then show ?thesis using l1 by (auto simp: link_stalled_def)
qed

theorem failed_send_stalls_witness:
  "\<exists>l1 l2. link_step (\<lambda>_. 0) 3 (Put WSA_FAILED [1]) demo_link = Some l1 \<and>
    stream_run (link_step (\<lambda>_. 0) 3) [Put WSA_OK [2, 3], Put WSA_OK [4]] l1 = Some l2 \<and> write_answers l2 = [fail, succ, succ] \<and>
    calls (link_net l2) = calls (link_net l1) \<and> delivered l2 = []"
proof -
  have d: "requests demo_link = []" "write_answers demo_link = []" "delivered demo_link = []" by (simp_all add: demo_link_def)
  have "stream_use link_can (link_step (\<lambda>_. 0) 3) (Put WSA_FAILED [1] # [Put WSA_OK [2, 3], Put WSA_OK [4]]) demo_link" by simp
  from failed_send_stalls [OF demo_link_ok(1) d(1) this] d show ?thesis by (auto simp: numeral_2_eq_2)
qed

text \<open>
  C11: Receiving delivers frames.  When the bytes waiting in the ring together with the bytes just
  received begin with a whole frame, whatever follows it, \<open>Network::DoRecv\<close> pushes exactly one packet
  with exactly the bytes of the frame and the right connector to the receive queue, keeps the bytes
  behind it for later, keeps the connection and posts the next receive.
\<close>

theorem recv_delivers_frame:
  assumes "recv_ok (connectors net a)" and "unat n \<le> max_packet" and "queue_ok (recvPacketQueue net)"
    and "unparsed (connectors net a) @ received (connectors net a) n = frame body seq now @ rest"
    and "length (unparsed (connectors net a) @ received (connectors net a) n) \<le> max_packet"
    and "w \<noteq> WSA_FAILED"
  shows "\<exists>net' p. DoRecv junk w net a n = Some net' \<and> packet_bytes p = frame body seq now \<and>
    ps_pConnector p = Some a \<and>
    waiting (recvPacketQueue net') 0 = waiting (recvPacketQueue net) 0 @ [p] \<and>
    unparsed (connectors net' a) = rest \<and> recv_ok (connectors net' a) \<and>
    socket (connectors net' a) = socket (connectors net a) \<and>
    calls net' = calls net @ [WSARecv (socket (connectors net a))]"
  using DoRecv_packet [OF assms(1,2,3) recv_spec_frame [OF assms(4,5)] assms(6), of junk] by blast

text \<open>A fresh connection whose receive request holds the given bytes.\<close>

definition demo_filled :: "bytes \<Rightarrow> network" where
  "demo_filled xs = upd_connector (demo_net 7) 0
     ((connectors (demo_net 7) 0)\<lparr>RecvRequest_pBuffer :=
        (RecvRequest_pBuffer (connectors (demo_net 7) 0))
          \<lparr>pBuffer := xs @ replicate (max_packet + 1 - length xs) 0\<rparr>\<rparr>)"

lemma demo_filled_ok:
  assumes "length xs \<le> max_packet"
  shows "recv_ok (connectors (demo_filled xs) 0)" "unparsed (connectors (demo_filled xs) 0) = []"
    "received (connectors (demo_filled xs) 0) (of_nat (length xs)) = xs"
    "queue_ok (recvPacketQueue (demo_filled xs))" "GetActive (connectors (demo_filled xs) 0)"
    "waiting (recvPacketQueue (demo_filled xs)) 0 = []" "socket (connectors (demo_filled xs) 0) = 7"
proof -
  have s: "(7 :: SOCKET) \<noteq> INVALID_SOCKET" by (simp add: INVALID_SOCKET_def)
  note d = demo_net_ok [OF s]
  show "recv_ok (connectors (demo_filled xs) 0)" "unparsed (connectors (demo_filled xs) 0) = []"
    "received (connectors (demo_filled xs) 0) (of_nat (length xs)) = xs"
    "queue_ok (recvPacketQueue (demo_filled xs))" "GetActive (connectors (demo_filled xs) 0)"
    "socket (connectors (demo_filled xs) 0) = 7"
    using d s assms by (simp_all add: demo_filled_def recv_ok_def received_def GetActive_def unat_of_nat)
  show "waiting (recvPacketQueue (demo_filled xs)) 0 = []"
    by (simp add: demo_filled_def demo_net_def waiting_def PacketDataQueue_def)
qed

theorem recv_delivers_frame_witness:
  "\<exists>net' p. DoRecv (\<lambda>_. 0) WSA_IO_PENDING (demo_filled (frame [4] 0 0 @ [1])) 0 22 = Some net' \<and>
    waiting (recvPacketQueue net') 0 = [p] \<and> packet_bytes p = frame [4] 0 0 \<and>
    unparsed (connectors net' 0) = [1]"
proof -
  have len: "length (frame [4] 0 0 @ [1]) \<le> max_packet" "of_nat (length (frame [4] 0 0 @ [1])) = (22 :: u32)"
    by simp_all
  note d = demo_filled_ok [OF len(1)]
  show ?thesis
    using recv_delivers_frame [of "demo_filled (frame [4] 0 0 @ [1])" 0 22 "[4]" 0 0 "[1]" WSA_IO_PENDING "\<lambda>_. 0"]
      d len by (simp, blast)
qed

text \<open>
  C38: A frame that arrives in pieces closes the connection.  \<open>RecvComplete\<close> answers \<open>-1\<close> not only for
  invalid data but whenever no whole frame is there yet, so \<open>Network::DoRecv\<close> disconnects as soon as the
  bytes received so far are a proper prefix of a frame, although \<open>ParseNetworkData\<close> calls them pending.
\<close>

theorem recv_fragment_disconnects:
  assumes "recv_ok (connectors net a)" and "unat n \<le> max_packet" and "GetActive (connectors net a)"
    and "unparsed (connectors net a) @ received (connectors net a) n = take k (frame body seq now)"
    and "k < length body + 20" and "length body + 20 \<le> max_packet"
  shows "\<exists>net'. DoRecv junk w net a n = Some net' \<and> \<not> GetActive (connectors net' a) \<and>
    recvPacketQueue net' = recvPacketQueue net \<and> CloseSocket (socket (connectors net a)) \<in> set (calls net')"
  using DoRecv_refused [OF assms(1,2,3) recv_spec_fragment [OF assms(4,5,6)]] .

theorem recv_fragment_disconnects_witness:
  "\<exists>net'. DoRecv (\<lambda>_. 0) WSA_OK (demo_filled (take 10 (frame [4] 0 0))) 0 10 = Some net' \<and>
    \<not> GetActive (connectors net' 0) \<and> CloseSocket 7 \<in> set (calls net')"
proof -
  have len: "length (take 10 (frame [4] 0 0)) \<le> max_packet" "of_nat (length (take 10 (frame [4] 0 0))) = (10 :: u32)"
    by simp_all
  note d = demo_filled_ok [OF len(1)]
  show ?thesis
    using recv_fragment_disconnects [of "demo_filled (take 10 (frame [4] 0 0))" 0 10 10 "[4]" 0 0 "\<lambda>_. 0" WSA_OK]
      d len by auto
qed

text \<open>
  The worker thread closes a socket twice.  When a receive ends with zero bytes, the socket is closed
  but the connector keeps its handle, so \<open>TryRelease\<close> shuts down and closes the same handle again, by
  then perhaps another connection's.
\<close>

theorem worker_closes_twice:
  assumes "GetActive (connectors net a)" and "cn_param (connectors net a) = None"
    and "dwRecvRef (connectors net a) = 1"
    and "RecvRequest (connectors net a) = \<lparr>ov_pConnector = Some a, NetOp = OP_RECV\<rparr>"
    and "s = socket (connectors net a)"
  shows "\<exists>net'. WorkerThread_round e net (Finished (Recv_of a) 0) = Some net' \<and>
    calls net' = calls net @ [Shutdown s, CloseSocket s, Shutdown s, CloseSocket s]"
  using assms
  by (auto simp: WorkerThread_round_def request_of_def worker_disconnect_def net_TryRelease_def TryRelease_def
      Connector_Release_def close_socket_def SetFreeConnector_def GetActive_def Let_def)

theorem worker_closes_twice_witness:
  "\<exists>net net'. WorkerThread_round \<lparr>env_junk = (\<lambda>_. 0), env_fresh = (\<lambda>i. i), env_socket = 0, env_port_ok = True,
       env_wsa = WSA_OK, env_accept = WSA_OK\<rparr> net (Finished (Recv_of 0) 0) = Some net' \<and>
     calls net' = [Shutdown 7, CloseSocket 7, Shutdown 7, CloseSocket 7]"
proof -
  have s: "(7 :: SOCKET) \<noteq> INVALID_SOCKET" by (simp add: INVALID_SOCKET_def)
  let ?c = "(connectors (demo_net 7) 0)\<lparr>dwRecvRef := 1, RecvRequest := \<lparr>ov_pConnector = Some 0, NetOp = OP_RECV\<rparr>\<rparr>"
  let ?net = "upd_connector (demo_net 7) 0 ?c"
  have "GetActive (connectors ?net 0)" "cn_param (connectors ?net 0) = None" "calls ?net = []"
    using s by (simp_all add: GetActive_def demo_net_def Connector_def)
  then obtain net' where "WorkerThread_round \<lparr>env_junk = (\<lambda>_. 0), env_fresh = (\<lambda>i. i), env_socket = 0,
      env_port_ok = True, env_wsa = WSA_OK, env_accept = WSA_OK\<rparr> ?net (Finished (Recv_of 0) 0) = Some net'"
    "calls net' = [Shutdown 7, CloseSocket 7, Shutdown 7, CloseSocket 7]"
    using worker_closes_twice [of ?net 0 "7" "\<lparr>env_junk = (\<lambda>_. 0), env_fresh = (\<lambda>i. i), env_socket = 0,
        env_port_ok = True, env_wsa = WSA_OK, env_accept = WSA_OK\<rparr>"] demo_net_ok(6) [OF s, of 0]
    by auto
  then show ?thesis by blast
qed

end
