(* ===== verification/Protocol_CS.thy ===== *)
theory Protocol_CS
  imports Packet
begin

text \<open>
  \<^verbatim>\<open>_framework/packet_protocol_cs.h\<close>: the packets a client sends.  Each structure is a record that
  extends \<open>packet_body\<close>; the constant with the structure's name is the default-constructed packet.
  Every structure meets the contract \<open>packet_struct\<close>, so the frame and dispatch lemmas apply to it.
\<close>

datatype PacketTypeC2S =
  C2S_invalid | C2S_auth | C2S_enter | C2S_leave | C2S_move | C2S_interaction | C2S_heartbeat
| C2S_echo | C2S_Max

fun c2s_code :: "PacketTypeC2S \<Rightarrow> u32" where
  "c2s_code C2S_invalid = 0"
| "c2s_code C2S_auth = 1"
| "c2s_code C2S_enter = 2"
| "c2s_code C2S_leave = 3"
| "c2s_code C2S_move = 4"
| "c2s_code C2S_interaction = 5"
| "c2s_code C2S_heartbeat = 6"
| "c2s_code C2S_echo = 7"
| "c2s_code C2S_Max = 8"

subsection \<open>The structures\<close>

record CS_P_AUTH = packet_body +
  auth_id :: u32

definition CS_P_AUTH :: CS_P_AUTH where
  "CS_P_AUTH = \<lparr>ui32PacketType = c2s_code C2S_auth, auth_id = 0\<rparr>"

definition CS_P_AUTH_SetId :: "CS_P_AUTH \<Rightarrow> u32 \<Rightarrow> CS_P_AUTH" where
  "CS_P_AUTH_SetId p i = p\<lparr>auth_id := i\<rparr>"

definition CS_P_AUTH_Serialize :: "serializer \<Rightarrow> CS_P_AUTH \<Rightarrow> (CS_P_AUTH \<times> serializer) option" where
  "CS_P_AUTH_Serialize s p = do {
     (v, s) \<leftarrow> Value_INT32 s (auth_id p);
     Some (p\<lparr>auth_id := v\<rparr>, s) }"

record CS_P_ENTER = packet_body +
  enter_token :: u64

definition CS_P_ENTER :: CS_P_ENTER where
  "CS_P_ENTER = \<lparr>ui32PacketType = c2s_code C2S_enter, enter_token = 0\<rparr>"

definition CS_P_ENTER_SetToken :: "CS_P_ENTER \<Rightarrow> u64 \<Rightarrow> CS_P_ENTER" where
  "CS_P_ENTER_SetToken p t = p\<lparr>enter_token := t\<rparr>"

definition CS_P_ENTER_Serialize :: "serializer \<Rightarrow> CS_P_ENTER \<Rightarrow> (CS_P_ENTER \<times> serializer) option" where
  "CS_P_ENTER_Serialize s p = do {
     (v, s) \<leftarrow> Value_INT64 s (enter_token p);
     Some (p\<lparr>enter_token := v\<rparr>, s) }"

record CS_P_LEAVE = packet_body +
  leave_token :: u64

definition CS_P_LEAVE :: CS_P_LEAVE where
  "CS_P_LEAVE = \<lparr>ui32PacketType = c2s_code C2S_leave, leave_token = 0\<rparr>"

definition CS_P_LEAVE_SetToken :: "CS_P_LEAVE \<Rightarrow> u64 \<Rightarrow> CS_P_LEAVE" where
  "CS_P_LEAVE_SetToken p t = p\<lparr>leave_token := t\<rparr>"

definition CS_P_LEAVE_Serialize :: "serializer \<Rightarrow> CS_P_LEAVE \<Rightarrow> (CS_P_LEAVE \<times> serializer) option" where
  "CS_P_LEAVE_Serialize s p = do {
     (v, s) \<leftarrow> Value_INT64 s (leave_token p);
     Some (p\<lparr>leave_token := v\<rparr>, s) }"

record CS_P_MOVE = packet_body +
  move_x :: u32
  move_y :: u32

definition CS_P_MOVE :: CS_P_MOVE where
  "CS_P_MOVE = \<lparr>ui32PacketType = c2s_code C2S_move, move_x = 0, move_y = 0\<rparr>"

definition CS_P_MOVE_SetPos :: "CS_P_MOVE \<Rightarrow> u32 \<Rightarrow> u32 \<Rightarrow> CS_P_MOVE" where
  "CS_P_MOVE_SetPos p x y = p\<lparr>move_x := x, move_y := y\<rparr>"

definition CS_P_MOVE_Serialize :: "serializer \<Rightarrow> CS_P_MOVE \<Rightarrow> (CS_P_MOVE \<times> serializer) option" where
  "CS_P_MOVE_Serialize s p = do {
     (vx, s) \<leftarrow> Value_INT32 s (move_x p);
     (vy, s) \<leftarrow> Value_INT32 s (move_y p);
     Some (p\<lparr>move_x := vx, move_y := vy\<rparr>, s) }"

record CS_P_INTERACTION = packet_body +
  targetToken :: u64
  interactionType :: u32

definition CS_P_INTERACTION :: CS_P_INTERACTION where
  "CS_P_INTERACTION =
     \<lparr>ui32PacketType = c2s_code C2S_interaction, targetToken = 0, interactionType = 0\<rparr>"

definition CS_P_INTERACTION_SetInteraction ::
  "CS_P_INTERACTION \<Rightarrow> u64 \<Rightarrow> u32 \<Rightarrow> CS_P_INTERACTION" where
  "CS_P_INTERACTION_SetInteraction p t i = p\<lparr>targetToken := t, interactionType := i\<rparr>"

definition CS_P_INTERACTION_Serialize ::
  "serializer \<Rightarrow> CS_P_INTERACTION \<Rightarrow> (CS_P_INTERACTION \<times> serializer) option" where
  "CS_P_INTERACTION_Serialize s p = do {
     (vt, s) \<leftarrow> Value_INT64 s (targetToken p);
     (vi, s) \<leftarrow> Value_INT32 s (interactionType p);
     Some (p\<lparr>targetToken := vt, interactionType := vi\<rparr>, s) }"

definition CS_P_HEARTBEAT :: packet_body where
  "CS_P_HEARTBEAT = \<lparr>ui32PacketType = c2s_code C2S_heartbeat\<rparr>"

definition CS_P_HEARTBEAT_Serialize ::
  "serializer \<Rightarrow> packet_body \<Rightarrow> (packet_body \<times> serializer) option" where
  "CS_P_HEARTBEAT_Serialize s p = Some (p, s)"

definition MAX_ECHO_DATA_LENGTH :: nat where
  "MAX_ECHO_DATA_LENGTH = 32"

record CS_P_ECHO = packet_body +
  echoDataSize :: u32
  echoData :: bytes

definition CS_P_ECHO :: CS_P_ECHO where
  "CS_P_ECHO = \<lparr>ui32PacketType = c2s_code C2S_echo, echoDataSize = 0,
     echoData = replicate MAX_ECHO_DATA_LENGTH 0\<rparr>"

definition CS_P_ECHO_SetData :: "CS_P_ECHO \<Rightarrow> bytes \<Rightarrow> u32 \<Rightarrow> CS_P_ECHO option" where
  "CS_P_ECHO_SetData p data n = do {
     arr \<leftarrow> memcpy_s (echoData p) data n;
     Some (p\<lparr>echoDataSize := (if sint n < int MAX_ECHO_DATA_LENGTH then n else of_nat MAX_ECHO_DATA_LENGTH),
             echoData := arr\<rparr>) }"

definition CS_P_ECHO_Serialize :: "serializer \<Rightarrow> CS_P_ECHO \<Rightarrow> (CS_P_ECHO \<times> serializer) option" where
  "CS_P_ECHO_Serialize s p = do {
     (n, s) \<leftarrow> Value_INT32 s (echoDataSize p);
     (arr, s) \<leftarrow> Value_bytes s (echoData p) n;
     Some (p\<lparr>echoDataSize := n, echoData := arr\<rparr>, s) }"

subsection \<open>Every structure meets the contract\<close>

lemmas cs_initial_defs = CS_P_AUTH_def CS_P_ENTER_def CS_P_LEAVE_def CS_P_MOVE_def
  CS_P_INTERACTION_def CS_P_HEARTBEAT_def CS_P_ECHO_def

definition cs_typed :: "PacketTypeC2S \<Rightarrow> 'a packet_body_scheme \<Rightarrow> bool" where
  "cs_typed t p \<longleftrightarrow> ui32PacketType p = c2s_code t"

lemmas cs_serialize_defs = CS_P_AUTH_Serialize_def CS_P_ENTER_Serialize_def CS_P_LEAVE_Serialize_def
  CS_P_MOVE_Serialize_def CS_P_INTERACTION_Serialize_def CS_P_HEARTBEAT_Serialize_def

lemma cs_scalar_structs:
  "packet_struct CS_P_AUTH_Serialize (\<lambda>p. le_bytes 4 (auth_id p)) (cs_typed C2S_auth) CS_P_AUTH"
  "packet_struct CS_P_ENTER_Serialize (\<lambda>p. le_bytes 8 (enter_token p)) (cs_typed C2S_enter) CS_P_ENTER"
  "packet_struct CS_P_LEAVE_Serialize (\<lambda>p. le_bytes 8 (leave_token p)) (cs_typed C2S_leave) CS_P_LEAVE"
  "packet_struct CS_P_MOVE_Serialize (\<lambda>p. le_bytes 4 (move_x p) @ le_bytes 4 (move_y p))
     (cs_typed C2S_move) CS_P_MOVE"
  "packet_struct CS_P_INTERACTION_Serialize
     (\<lambda>p. le_bytes 8 (targetToken p) @ le_bytes 4 (interactionType p))
     (cs_typed C2S_interaction) CS_P_INTERACTION"
  "packet_struct CS_P_HEARTBEAT_Serialize (\<lambda>p. []) (cs_typed C2S_heartbeat) CS_P_HEARTBEAT"
  unfolding cs_serialize_defs
  by (unfold_locales, simp,
      (rule sends_eq recvs_eq, (rule wire_intros)+; simp add: cs_initial_defs)+)+

interpretation cs_auth: packet_struct CS_P_AUTH_Serialize "\<lambda>p. le_bytes 4 (auth_id p)"
  "cs_typed C2S_auth" CS_P_AUTH
  by (rule cs_scalar_structs)

interpretation cs_enter: packet_struct CS_P_ENTER_Serialize "\<lambda>p. le_bytes 8 (enter_token p)"
  "cs_typed C2S_enter" CS_P_ENTER
  by (rule cs_scalar_structs)

interpretation cs_leave: packet_struct CS_P_LEAVE_Serialize "\<lambda>p. le_bytes 8 (leave_token p)"
  "cs_typed C2S_leave" CS_P_LEAVE
  by (rule cs_scalar_structs)

interpretation cs_move: packet_struct CS_P_MOVE_Serialize
  "\<lambda>p. le_bytes 4 (move_x p) @ le_bytes 4 (move_y p)" "cs_typed C2S_move" CS_P_MOVE
  by (rule cs_scalar_structs)

interpretation cs_interaction: packet_struct CS_P_INTERACTION_Serialize
  "\<lambda>p. le_bytes 8 (targetToken p) @ le_bytes 4 (interactionType p)"
  "cs_typed C2S_interaction" CS_P_INTERACTION
  by (rule cs_scalar_structs)

interpretation cs_heartbeat: packet_struct CS_P_HEARTBEAT_Serialize "\<lambda>p. []"
  "cs_typed C2S_heartbeat" CS_P_HEARTBEAT
  by (rule cs_scalar_structs)

text \<open>
  An echo packet as \<open>SetData\<close> leaves it: a count within the array, and nothing but zeros behind the
  counted bytes (they do not travel).
\<close>

definition echo_valid :: "CS_P_ECHO \<Rightarrow> bool" where
  "echo_valid p \<longleftrightarrow> cs_typed C2S_echo p \<and>
     counted_array MAX_ECHO_DATA_LENGTH (echoDataSize p) (echoData p)"

definition echo_fields :: "CS_P_ECHO \<Rightarrow> bytes" where
  "echo_fields p = le_bytes 4 (echoDataSize p) @ take (unat (echoDataSize p)) (echoData p)"

interpretation cs_echo: packet_struct CS_P_ECHO_Serialize echo_fields echo_valid CS_P_ECHO
proof (unfold_locales, goal_cases)
  case (1 p)
  then show ?case by (simp add: echo_valid_def counted_array_def echo_fields_def MAX_ECHO_DATA_LENGTH_def)
next
  case (2 p)
  then show ?case unfolding CS_P_ECHO_Serialize_def echo_fields_def echo_valid_def
    by - (rule sends_eq, rule sends_bind, rule wire_intros, rule sends_bind, rule sends_counted,
        erule conjunct2, rule wire_intros, simp_all)
next
  case (3 p)
  then show ?case unfolding CS_P_ECHO_Serialize_def echo_fields_def echo_valid_def CS_P_ECHO_def
    by simp (rule recvs_eq, rule recvs_bind, rule wire_intros, rule recvs_bind, rule recvs_counted,
        erule conjunct2, rule wire_intros, simp_all)
qed

subsection \<open>The tagged union of client packets\<close>

datatype c2s_packet =
  P_CS_AUTH CS_P_AUTH
| P_CS_ENTER CS_P_ENTER
| P_CS_LEAVE CS_P_LEAVE
| P_CS_MOVE CS_P_MOVE
| P_CS_INTERACTION CS_P_INTERACTION
| P_CS_HEARTBEAT packet_body
| P_CS_ECHO CS_P_ECHO

text \<open>\<open>c2s_collect\<close> is the pair of virtual calls \<open>SerializeHead\<close> and \<open>Serialize\<close> on a base pointer.\<close>

fun c2s_collect :: "serializer \<Rightarrow> c2s_packet \<Rightarrow> serializer option" where
  "c2s_collect s (P_CS_AUTH p) = map_option snd (pack_with CS_P_AUTH_Serialize s p)"
| "c2s_collect s (P_CS_ENTER p) = map_option snd (pack_with CS_P_ENTER_Serialize s p)"
| "c2s_collect s (P_CS_LEAVE p) = map_option snd (pack_with CS_P_LEAVE_Serialize s p)"
| "c2s_collect s (P_CS_MOVE p) = map_option snd (pack_with CS_P_MOVE_Serialize s p)"
| "c2s_collect s (P_CS_INTERACTION p) = map_option snd (pack_with CS_P_INTERACTION_Serialize s p)"
| "c2s_collect s (P_CS_HEARTBEAT p) = map_option snd (pack_with CS_P_HEARTBEAT_Serialize s p)"
| "c2s_collect s (P_CS_ECHO p) = map_option snd (pack_with CS_P_ECHO_Serialize s p)"

fun c2s_valid :: "c2s_packet \<Rightarrow> bool" where
  "c2s_valid (P_CS_AUTH p) = cs_typed C2S_auth p"
| "c2s_valid (P_CS_ENTER p) = cs_typed C2S_enter p"
| "c2s_valid (P_CS_LEAVE p) = cs_typed C2S_leave p"
| "c2s_valid (P_CS_MOVE p) = cs_typed C2S_move p"
| "c2s_valid (P_CS_INTERACTION p) = cs_typed C2S_interaction p"
| "c2s_valid (P_CS_HEARTBEAT p) = cs_typed C2S_heartbeat p"
| "c2s_valid (P_CS_ECHO p) = echo_valid p"

fun c2s_tag :: "c2s_packet \<Rightarrow> PacketTypeC2S" where
  "c2s_tag (P_CS_AUTH p) = C2S_auth"
| "c2s_tag (P_CS_ENTER p) = C2S_enter"
| "c2s_tag (P_CS_LEAVE p) = C2S_leave"
| "c2s_tag (P_CS_MOVE p) = C2S_move"
| "c2s_tag (P_CS_INTERACTION p) = C2S_interaction"
| "c2s_tag (P_CS_HEARTBEAT p) = C2S_heartbeat"
| "c2s_tag (P_CS_ECHO p) = C2S_echo"

fun c2s_image :: "c2s_packet \<Rightarrow> bytes" where
  "c2s_image (P_CS_AUTH p) = body_image (\<lambda>p. le_bytes 4 (auth_id p)) p"
| "c2s_image (P_CS_ENTER p) = body_image (\<lambda>p. le_bytes 8 (enter_token p)) p"
| "c2s_image (P_CS_LEAVE p) = body_image (\<lambda>p. le_bytes 8 (leave_token p)) p"
| "c2s_image (P_CS_MOVE p) = body_image (\<lambda>p. le_bytes 4 (move_x p) @ le_bytes 4 (move_y p)) p"
| "c2s_image (P_CS_INTERACTION p) =
     body_image (\<lambda>p. le_bytes 8 (targetToken p) @ le_bytes 4 (interactionType p)) p"
| "c2s_image (P_CS_HEARTBEAT p) = body_image (\<lambda>p. []) p"
| "c2s_image (P_CS_ECHO p) = body_image echo_fields p"

text \<open>
  \<open>c2s_dispatch\<close> is what a table of seven registered handlers does with a body of the given type: the
  functor of that type deserializes its packet and calls its function, here one function on the
  tagged union.
\<close>

fun c2s_functor ::
  "(nat \<Rightarrow> byte) \<Rightarrow> ('s \<Rightarrow> c2s_packet \<Rightarrow> (bool \<times> 's) option) \<Rightarrow> PacketTypeC2S \<Rightarrow> 's packet_functor option" where
  "c2s_functor junk f C2S_auth = Some (PacketFunctor_Execute junk (pack_with CS_P_AUTH_Serialize)
     CS_P_AUTH (\<lambda>st p. f st (P_CS_AUTH p)))"
| "c2s_functor junk f C2S_enter = Some (PacketFunctor_Execute junk (pack_with CS_P_ENTER_Serialize)
     CS_P_ENTER (\<lambda>st p. f st (P_CS_ENTER p)))"
| "c2s_functor junk f C2S_leave = Some (PacketFunctor_Execute junk (pack_with CS_P_LEAVE_Serialize)
     CS_P_LEAVE (\<lambda>st p. f st (P_CS_LEAVE p)))"
| "c2s_functor junk f C2S_move = Some (PacketFunctor_Execute junk (pack_with CS_P_MOVE_Serialize)
     CS_P_MOVE (\<lambda>st p. f st (P_CS_MOVE p)))"
| "c2s_functor junk f C2S_interaction =
     Some (PacketFunctor_Execute junk (pack_with CS_P_INTERACTION_Serialize)
       CS_P_INTERACTION (\<lambda>st p. f st (P_CS_INTERACTION p)))"
| "c2s_functor junk f C2S_heartbeat =
     Some (PacketFunctor_Execute junk (pack_with CS_P_HEARTBEAT_Serialize)
       CS_P_HEARTBEAT (\<lambda>st p. f st (P_CS_HEARTBEAT p)))"
| "c2s_functor junk f C2S_echo = Some (PacketFunctor_Execute junk (pack_with CS_P_ECHO_Serialize)
     CS_P_ECHO (\<lambda>st p. f st (P_CS_ECHO p)))"
| "c2s_functor junk f _ = None"

lemmas c2s_packed = cs_auth.packed cs_enter.packed cs_leave.packed cs_move.packed
  cs_interaction.packed cs_heartbeat.packed cs_echo.packed

lemma c2s_collect_ok:
  assumes "c2s_valid p"
  shows "\<exists>s. c2s_collect (Serializer_send junk) p = Some s \<and> ser_out s (c2s_image p)"
  using assms
  by (cases p; simp only: c2s_valid.simps c2s_collect.simps c2s_image.simps)
    (rule c2s_packed [THEN collected], assumption)+

lemma c2s_image_fits: "c2s_valid p \<Longrightarrow> length (c2s_image p) + 20 \<le> max_packet"
  by (cases p) (auto simp: body_image_def echo_valid_def counted_array_def echo_fields_def MAX_ECHO_DATA_LENGTH_def)

lemma c2s_image_type:
  "c2s_valid p \<Longrightarrow> 4 \<le> length (c2s_image p) \<and> take 4 (c2s_image p) = le_bytes 4 (c2s_code (c2s_tag p))"
  by (cases p) (auto simp: body_image_def cs_typed_def echo_valid_def)

lemma c2s_functor_ok:
  assumes "c2s_valid p" and "unat len = length (c2s_image p)"
  shows "\<exists>pf. c2s_functor junk f (c2s_tag p) = Some pf \<and> pf (c2s_image p @ rest) len st = f st p"
  using assms
  by (cases p) (simp_all add: cs_auth.functor_calls_handler cs_enter.functor_calls_handler
      cs_leave.functor_calls_handler cs_move.functor_calls_handler
      cs_interaction.functor_calls_handler cs_heartbeat.functor_calls_handler
      cs_echo.functor_calls_handler)

subsection \<open>Echo packets\<close>

lemma CS_P_ECHO_SetData_ok:
  assumes "unat n \<le> 32" and "unat n \<le> length data"
  shows "CS_P_ECHO_SetData CS_P_ECHO data n =
    Some (CS_P_ECHO\<lparr>echoDataSize := n, echoData := take (unat n) data @ replicate (32 - unat n) 0\<rparr>)"
proof -
  have "unat n < 2 ^ 31" using assms(1) by simp
  then have "sint n = int (unat n)" "memcpy_s (echoData CS_P_ECHO) data n =
      Some (take (unat n) data @ replicate (32 - unat n) 0)"
    using sint_nonneg32 memcpy_s_fits [of n "echoData CS_P_ECHO" data] assms
    by (simp_all add: CS_P_ECHO_def MAX_ECHO_DATA_LENGTH_def)
  moreover have "n = 32" if "\<not> uint n < 32"
  proof -
    have "unat n = 32" using that assms(1) uint_nat [of n] by linarith
    then show ?thesis by (simp add: word_unat_eq_iff)
  qed
  ultimately show ?thesis
    by (auto simp: CS_P_ECHO_SetData_def CS_P_ECHO_def MAX_ECHO_DATA_LENGTH_def)
qed

text \<open>
  Echo round trip.  For every text of at most 32 bytes, the packet \<open>SetData\<close> builds is serialized
  into a body of 8 bytes and the text, and the receiver's functor calls its handler with exactly the
  packet the sender had, the counted bytes of which are the text.
\<close>

theorem echo_packet_roundtrip:
  assumes "unat n \<le> 32" and "unat n \<le> length data"
  shows "\<exists>p s. CS_P_ECHO_SetData CS_P_ECHO data n = Some p \<and>
    pack_with CS_P_ECHO_Serialize (Serializer_send junk) p = Some (p, s) \<and>
    unat (nDataSize s) = 8 + unat n \<and>
    PacketFunctor_Execute junk' (pack_with CS_P_ECHO_Serialize) CS_P_ECHO func (pBuffer s) (nDataSize s) st
      = func st p \<and>
    take (unat (echoDataSize p)) (echoData p) = take (unat n) data"
proof -
  let ?p = "CS_P_ECHO\<lparr>echoDataSize := n, echoData := take (unat n) data @ replicate (32 - unat n) 0\<rparr>"
  have v: "echo_valid ?p"
    using assms by (simp add: echo_valid_def counted_array_def cs_typed_def CS_P_ECHO_def MAX_ECHO_DATA_LENGTH_def)
  have "length (body_image echo_fields ?p) = 8 + unat n"
    using assms by (simp add: body_image_def echo_fields_def)
  then show ?thesis
    using cs_echo.packed_then_executed [OF v, of junk junk' func st] CS_P_ECHO_SetData_ok [OF assms]
      assms by auto
qed

theorem echo_packet_roundtrip_witness:
  "\<exists>p s. CS_P_ECHO_SetData CS_P_ECHO [104, 105, 0] 2 = Some p \<and>
    pack_with CS_P_ECHO_Serialize (Serializer_send (\<lambda>_. 7)) p = Some (p, s) \<and>
    unat (nDataSize s) = 10 \<and>
    PacketFunctor_Execute (\<lambda>_. 9) (pack_with CS_P_ECHO_Serialize) CS_P_ECHO (\<lambda>st q. Some (True, q))
      (pBuffer s) (nDataSize s) CS_P_ECHO = Some (True, p)"
  using echo_packet_roundtrip [of 2 "[104, 105, 0]" "\<lambda>_. 7" "\<lambda>_. 9" "\<lambda>st q. Some (True, q)" CS_P_ECHO]
  by (simp, blast)

text \<open>
  The count of an echo packet is trusted on receipt.  A body that announces more than 32 bytes
  and carries them makes the functor copy past the 32-byte array of the packet, whatever handler is
  registered.
\<close>

theorem echo_count_overflows:
  fixes n :: u32
  assumes "32 < unat n" and "unat n \<le> length text" and "length text + 8 \<le> max_packet"
    and "unat len = length text + 8"
  shows "PacketFunctor_Execute junk (pack_with CS_P_ECHO_Serialize) CS_P_ECHO func
    (le_bytes 4 (c2s_code C2S_echo) @ le_bytes 4 n @ text) len st = None"
proof -
  let ?d = "le_bytes 4 (c2s_code C2S_echo) @ le_bytes 4 n @ text"
  obtain s where s: "Serializer_recv junk ?d len = Some s" "ser_in s ?d"
    using Serializer_recv_ok [of len ?d junk] assms by auto
  obtain s1 where s1: "SerializeHead s CS_P_ECHO = Some (CS_P_ECHO, s1)" "ser_in s1 (le_bytes 4 n @ text)"
    using recvsD [OF recvs_SerializeHead, of s "c2s_code C2S_echo" _ CS_P_ECHO] s(2)
    by (auto simp: CS_P_ECHO_def)
  obtain s2 where s2: "Value_INT32 s1 (echoDataSize CS_P_ECHO) = Some (n, s2)" "ser_in s2 text"
    using recvsD [OF recvs_scalars(3) s1(2), of "echoDataSize CS_P_ECHO"] by auto
  have "Value_bytes s2 (echoData CS_P_ECHO) n = None"
    using assms by (intro Value_bytes_overflow [OF s2(2)])
      (simp_all add: CS_P_ECHO_def MAX_ECHO_DATA_LENGTH_def)
  then show ?thesis
    using s(1) s1(1) s2(1) by (simp add: PacketFunctor_Execute_def pack_with_def CS_P_ECHO_Serialize_def)
qed

theorem echo_count_overflows_witness:
  "PacketFunctor_Execute (\<lambda>_. 0) (pack_with CS_P_ECHO_Serialize) CS_P_ECHO (\<lambda>st p. Some (True, ()))
    (le_bytes 4 (c2s_code C2S_echo) @ le_bytes 4 (33 :: u32) @ replicate 33 65) 41 () = None"
  by (rule echo_count_overflows) simp_all

end
