(* ===== verification/Character_Base.thy ===== *)
theory Character_Base
  imports Serializer
begin

text \<open>
  \<^verbatim>\<open>_framework/character_base.h\<close>: positions, the part of a character that travels, and the character
  object itself.  The signed 32-bit fields are words; nothing in this file computes with them.
\<close>

record Position =
  zoneId :: u32
  posX :: u32
  posY :: u32

definition Position_init :: Position where
  "Position_init = \<lparr>zoneId = 0, posX = 0, posY = 0\<rparr>"

definition Position_ResetPos :: "Position \<Rightarrow> Position" where
  "Position_ResetPos p = p\<lparr>zoneId := 0, posX := 0, posY := 0\<rparr>"

definition Position_SetPos3 :: "Position \<Rightarrow> u32 \<Rightarrow> u32 \<Rightarrow> u32 \<Rightarrow> Position" where
  "Position_SetPos3 p z x y = p\<lparr>zoneId := z, posX := x, posY := y\<rparr>"

definition Position_SetPos2 :: "Position \<Rightarrow> u32 \<Rightarrow> u32 \<Rightarrow> Position" where
  "Position_SetPos2 p x y = p\<lparr>posX := x, posY := y\<rparr>"

definition Position_Serialize :: "serializer \<Rightarrow> Position \<Rightarrow> (Position \<times> serializer) option" where
  "Position_Serialize s p = do {
     (z, s) \<leftarrow> Value_INT32 s (zoneId p);
     (x, s) \<leftarrow> Value_INT32 s (posX p);
     (y, s) \<leftarrow> Value_INT32 s (posY p);
     Some (p\<lparr>zoneId := z, posX := x, posY := y\<rparr>, s) }"

record CharacterDbData =
  db_token :: u64
  db_pos :: Position

definition CharacterDbData_init :: CharacterDbData where
  "CharacterDbData_init = \<lparr>db_token = 0, db_pos = Position_init\<rparr>"

definition CharacterDbData_Serialize ::
  "serializer \<Rightarrow> CharacterDbData \<Rightarrow> (CharacterDbData \<times> serializer) option" where
  "CharacterDbData_Serialize s d = do {
     (t, s) \<leftarrow> Value_INT64 s (db_token d);
     (p, s) \<leftarrow> Position_Serialize s (db_pos d);
     Some (d\<lparr>db_token := t, db_pos := p\<rparr>, s) }"

text \<open>\<open>_param\<close> is an opaque pointer that is stored and never read; it is left out.\<close>

record Character =
  ch_id :: u32
  ch_token :: u64
  ch_pos :: Position

definition Character_init :: Character where
  "Character_init = \<lparr>ch_id = 0, ch_token = 0, ch_pos = Position_init\<rparr>"

definition Character_SetId :: "Character \<Rightarrow> u32 \<Rightarrow> Character" where
  "Character_SetId c i = c\<lparr>ch_id := i\<rparr>"

definition Character_SetToken :: "Character \<Rightarrow> u64 \<Rightarrow> Character" where
  "Character_SetToken c t = c\<lparr>ch_token := t\<rparr>"

definition Character_ResetPos :: "Character \<Rightarrow> Character" where
  "Character_ResetPos c = c\<lparr>ch_pos := Position_ResetPos (ch_pos c)\<rparr>"

definition Character_SetPos3 :: "Character \<Rightarrow> u32 \<Rightarrow> u32 \<Rightarrow> u32 \<Rightarrow> Character" where
  "Character_SetPos3 c z x y = c\<lparr>ch_pos := Position_SetPos3 (ch_pos c) z x y\<rparr>"

definition Character_SetPos2 :: "Character \<Rightarrow> u32 \<Rightarrow> u32 \<Rightarrow> Character" where
  "Character_SetPos2 c x y = c\<lparr>ch_pos := Position_SetPos2 (ch_pos c) x y\<rparr>"

definition Character_SetPosition :: "Character \<Rightarrow> Position \<Rightarrow> Character" where
  "Character_SetPosition c p = c\<lparr>ch_pos := p\<rparr>"

definition GetDbData :: "Character \<Rightarrow> CharacterDbData" where
  "GetDbData c = \<lparr>db_token = ch_token c, db_pos = ch_pos c\<rparr>"

lemmas character_defs = Character_init_def Character_SetId_def Character_SetToken_def
  Character_ResetPos_def Character_SetPos3_def Character_SetPos2_def Character_SetPosition_def
  Position_init_def Position_ResetPos_def Position_SetPos3_def Position_SetPos2_def GetDbData_def

subsection \<open>Wire images\<close>

definition pos_image :: "Position \<Rightarrow> bytes" where
  "pos_image p = le_bytes 4 (zoneId p) @ le_bytes 4 (posX p) @ le_bytes 4 (posY p)"

definition db_image :: "CharacterDbData \<Rightarrow> bytes" where
  "db_image d = le_bytes 8 (db_token d) @ pos_image (db_pos d)"

lemma length_db_image [simp]: "length (db_image d) = 20"
  by (simp add: db_image_def pos_image_def)

lemma sends_Position [wire_intros]: "sends (\<lambda>s. Position_Serialize s p) p (pos_image p)"
  unfolding Position_Serialize_def pos_image_def
  by (rule sends_eq, (rule wire_intros)+) simp_all

lemma recvs_Position [wire_intros]: "recvs (\<lambda>s. Position_Serialize s q) p (pos_image p)"
  unfolding Position_Serialize_def pos_image_def
  by (rule recvs_eq, (rule wire_intros)+) simp_all

lemma sends_CharacterDbData [wire_intros]: "sends (\<lambda>s. CharacterDbData_Serialize s d) d (db_image d)"
  unfolding CharacterDbData_Serialize_def db_image_def
  by (rule sends_eq, (rule wire_intros)+) simp_all

lemma recvs_CharacterDbData [wire_intros]: "recvs (\<lambda>s. CharacterDbData_Serialize s e) d (db_image d)"
  unfolding CharacterDbData_Serialize_def db_image_def
  by (rule recvs_eq, (rule wire_intros)+) simp_all

end
