(* ===== verification/Protocol_SC.thy ===== *)
theory Protocol_SC
  imports Packet Character_Base
begin

text \<open>
  \<^verbatim>\<open>_framework/packet_protocol_sc.h\<close>: the packets the server sends, in the same form as the client's.
  The character list is the one structure with a loop; its count is a signed field the receiver reads
  from the wire.
\<close>

datatype PacketTypeS2C =
  S2C_invalid | S2C_auth_result | S2C_enter | S2C_enter_character | S2C_leave | S2C_move
| S2C_interaction | S2C_heartbeat | S2C_echo | S2C_Max

fun s2c_code :: "PacketTypeS2C \<Rightarrow> u32" where
  "s2c_code S2C_invalid = 0"
| "s2c_code S2C_auth_result = 1"
| "s2c_code S2C_enter = 2"
| "s2c_code S2C_enter_character = 3"
| "s2c_code S2C_leave = 4"
| "s2c_code S2C_move = 5"
| "s2c_code S2C_interaction = 6"
| "s2c_code S2C_heartbeat = 7"
| "s2c_code S2C_echo = 8"
| "s2c_code S2C_Max = 9"

subsection \<open>The structures\<close>

record SC_P_AUTH_RESULT = packet_body +
  result_id :: u32
  result_token :: u64

definition SC_P_AUTH_RESULT :: SC_P_AUTH_RESULT where
  "SC_P_AUTH_RESULT = \<lparr>ui32PacketType = s2c_code S2C_auth_result, result_id = 0, result_token = 0\<rparr>"

definition SC_P_AUTH_RESULT_SetToken :: "SC_P_AUTH_RESULT \<Rightarrow> u32 \<Rightarrow> u64 \<Rightarrow> SC_P_AUTH_RESULT" where
  "SC_P_AUTH_RESULT_SetToken p i t = p\<lparr>result_id := i, result_token := t\<rparr>"

definition SC_P_AUTH_RESULT_Serialize ::
  "serializer \<Rightarrow> SC_P_AUTH_RESULT \<Rightarrow> (SC_P_AUTH_RESULT \<times> serializer) option" where
  "SC_P_AUTH_RESULT_Serialize s p = do {
     (i, s) \<leftarrow> Value_INT32 s (result_id p);
     (t, s) \<leftarrow> Value_INT64 s (result_token p);
     Some (p\<lparr>result_id := i, result_token := t\<rparr>, s) }"

record SC_P_ENTER = packet_body +
  sc_enter_token :: u64
  sc_enter_x :: u32
  sc_enter_y :: u32

definition SC_P_ENTER :: SC_P_ENTER where
  "SC_P_ENTER = \<lparr>ui32PacketType = s2c_code S2C_enter, sc_enter_token = 0, sc_enter_x = 0, sc_enter_y = 0\<rparr>"

definition SC_P_ENTER_SetPos :: "SC_P_ENTER \<Rightarrow> u64 \<Rightarrow> u32 \<Rightarrow> u32 \<Rightarrow> SC_P_ENTER" where
  "SC_P_ENTER_SetPos p t x y = p\<lparr>sc_enter_token := t, sc_enter_x := x, sc_enter_y := y\<rparr>"

definition SC_P_ENTER_Serialize :: "serializer \<Rightarrow> SC_P_ENTER \<Rightarrow> (SC_P_ENTER \<times> serializer) option" where
  "SC_P_ENTER_Serialize s p = do {
     (t, s) \<leftarrow> Value_INT64 s (sc_enter_token p);
     (x, s) \<leftarrow> Value_INT32 s (sc_enter_x p);
     (y, s) \<leftarrow> Value_INT32 s (sc_enter_y p);
     Some (p\<lparr>sc_enter_token := t, sc_enter_x := x, sc_enter_y := y\<rparr>, s) }"

definition MAX_SEND_COUNT_CHARACTER_DB_DATA :: nat where
  "MAX_SEND_COUNT_CHARACTER_DB_DATA = 20"

record SC_P_ENTER_CHARACTER_LIST = packet_body +
  list_count :: u32
  list_data :: "CharacterDbData list"

definition SC_P_ENTER_CHARACTER_LIST :: SC_P_ENTER_CHARACTER_LIST where
  "SC_P_ENTER_CHARACTER_LIST = \<lparr>ui32PacketType = s2c_code S2C_enter_character, list_count = 0,
     list_data = replicate MAX_SEND_COUNT_CHARACTER_DB_DATA CharacterDbData_init\<rparr>"

text \<open>\<open>memset\<close> over the array gives the default value of every entry: all fields zero.\<close>

definition CHARACTER_LIST_Reset :: "SC_P_ENTER_CHARACTER_LIST \<Rightarrow> SC_P_ENTER_CHARACTER_LIST" where
  "CHARACTER_LIST_Reset p = p\<lparr>list_count := 0,
     list_data := replicate (length (list_data p)) CharacterDbData_init\<rparr>"

definition CHARACTER_LIST_SetData ::
  "SC_P_ENTER_CHARACTER_LIST \<Rightarrow> CharacterDbData \<Rightarrow> (bool \<times> SC_P_ENTER_CHARACTER_LIST) option" where
  "CHARACTER_LIST_SetData p d =
     (if 0 \<le> sint (list_count p) \<and> sint (list_count p) < int (length (list_data p))
      then let p' = p\<lparr>list_count := list_count p + 1, list_data := (list_data p)[unat (list_count p) := d]\<rparr>
           in Some (int MAX_SEND_COUNT_CHARACTER_DB_DATA \<ge> sint (list_count p'), p')
      else None)"

text \<open>The loop over \<open>data[idx]\<close>; \<open>n\<close> is the number of rounds left, \<open>count - idx\<close>.\<close>

fun serialize_entries ::
  "serializer \<Rightarrow> CharacterDbData list \<Rightarrow> nat \<Rightarrow> nat \<Rightarrow> (CharacterDbData list \<times> serializer) option" where
  "serialize_entries s d idx 0 = Some (d, s)"
| "serialize_entries s d idx (Suc n) =
     (if idx < length d
      then do {
        (e, s) \<leftarrow> CharacterDbData_Serialize s (d ! idx);
        serialize_entries s (d[idx := e]) (idx + 1) n }
      else None)"

definition CHARACTER_LIST_Serialize ::
  "serializer \<Rightarrow> SC_P_ENTER_CHARACTER_LIST \<Rightarrow> (SC_P_ENTER_CHARACTER_LIST \<times> serializer) option" where
  "CHARACTER_LIST_Serialize s p = do {
     (c, s) \<leftarrow> Value_INT32 s (list_count p);
     (d, s) \<leftarrow> serialize_entries s (list_data p) 0 (nat (sint c));
     Some (p\<lparr>list_count := c, list_data := d\<rparr>, s) }"

record SC_P_LEAVE = packet_body +
  sc_leave_token :: u64

definition SC_P_LEAVE :: SC_P_LEAVE where
  "SC_P_LEAVE = \<lparr>ui32PacketType = s2c_code S2C_leave, sc_leave_token = 0\<rparr>"

definition SC_P_LEAVE_SetToken :: "SC_P_LEAVE \<Rightarrow> u64 \<Rightarrow> SC_P_LEAVE" where
  "SC_P_LEAVE_SetToken p t = p\<lparr>sc_leave_token := t\<rparr>"

definition SC_P_LEAVE_Serialize :: "serializer \<Rightarrow> SC_P_LEAVE \<Rightarrow> (SC_P_LEAVE \<times> serializer) option" where
  "SC_P_LEAVE_Serialize s p = do {
     (t, s) \<leftarrow> Value_INT64 s (sc_leave_token p);
     Some (p\<lparr>sc_leave_token := t\<rparr>, s) }"

record SC_P_MOVE = packet_body +
  sc_move_token :: u64
  sc_move_x :: u32
  sc_move_y :: u32

definition SC_P_MOVE :: SC_P_MOVE where
  "SC_P_MOVE = \<lparr>ui32PacketType = s2c_code S2C_move, sc_move_token = 0, sc_move_x = 0, sc_move_y = 0\<rparr>"

definition SC_P_MOVE_SetPos :: "SC_P_MOVE \<Rightarrow> u64 \<Rightarrow> u32 \<Rightarrow> u32 \<Rightarrow> SC_P_MOVE" where
  "SC_P_MOVE_SetPos p t x y = p\<lparr>sc_move_token := t, sc_move_x := x, sc_move_y := y\<rparr>"

definition SC_P_MOVE_Serialize :: "serializer \<Rightarrow> SC_P_MOVE \<Rightarrow> (SC_P_MOVE \<times> serializer) option" where
  "SC_P_MOVE_Serialize s p = do {
     (t, s) \<leftarrow> Value_INT64 s (sc_move_token p);
     (x, s) \<leftarrow> Value_INT32 s (sc_move_x p);
     (y, s) \<leftarrow> Value_INT32 s (sc_move_y p);
     Some (p\<lparr>sc_move_token := t, sc_move_x := x, sc_move_y := y\<rparr>, s) }"

record SC_P_INTERACTION = packet_body +
  sc_inter_token :: u64
  sc_targetToken :: u64
  sc_interactionType :: u32

definition SC_P_INTERACTION :: SC_P_INTERACTION where
  "SC_P_INTERACTION = \<lparr>ui32PacketType = s2c_code S2C_interaction, sc_inter_token = 0,
     sc_targetToken = 0, sc_interactionType = 0\<rparr>"

definition SC_P_INTERACTION_SetInteraction ::
  "SC_P_INTERACTION \<Rightarrow> u64 \<Rightarrow> u64 \<Rightarrow> u32 \<Rightarrow> SC_P_INTERACTION" where
  "SC_P_INTERACTION_SetInteraction p t g i =
     p\<lparr>sc_inter_token := t, sc_targetToken := g, sc_interactionType := i\<rparr>"

definition SC_P_INTERACTION_Serialize ::
  "serializer \<Rightarrow> SC_P_INTERACTION \<Rightarrow> (SC_P_INTERACTION \<times> serializer) option" where
  "SC_P_INTERACTION_Serialize s p = do {
     (t, s) \<leftarrow> Value_INT64 s (sc_inter_token p);
     (g, s) \<leftarrow> Value_INT64 s (sc_targetToken p);
     (i, s) \<leftarrow> Value_INT32 s (sc_interactionType p);
     Some (p\<lparr>sc_inter_token := t, sc_targetToken := g, sc_interactionType := i\<rparr>, s) }"

definition SC_P_HEARTBEAT :: packet_body where
  "SC_P_HEARTBEAT = \<lparr>ui32PacketType = s2c_code S2C_heartbeat\<rparr>"

definition SC_P_HEARTBEAT_Serialize ::
  "serializer \<Rightarrow> packet_body \<Rightarrow> (packet_body \<times> serializer) option" where
  "SC_P_HEARTBEAT_Serialize s p = Some (p, s)"

definition SC_MAX_ECHO_DATA_LENGTH :: nat where
  "SC_MAX_ECHO_DATA_LENGTH = 32"

record SC_P_ECHO = packet_body +
  sc_echo_token :: u64
  sc_echoDataSize :: u32
  sc_echoData :: bytes

definition SC_P_ECHO :: SC_P_ECHO where
  "SC_P_ECHO = \<lparr>ui32PacketType = s2c_code S2C_echo, sc_echo_token = 0, sc_echoDataSize = 0,
     sc_echoData = replicate SC_MAX_ECHO_DATA_LENGTH 0\<rparr>"

definition SC_P_ECHO_SetData :: "SC_P_ECHO \<Rightarrow> u64 \<Rightarrow> bytes \<Rightarrow> u32 \<Rightarrow> SC_P_ECHO option" where
  "SC_P_ECHO_SetData p t data n = do {
     arr \<leftarrow> memcpy_s (sc_echoData p) data n;
     Some (p\<lparr>sc_echo_token := t,
             sc_echoDataSize := (if sint n < int SC_MAX_ECHO_DATA_LENGTH then n else of_nat SC_MAX_ECHO_DATA_LENGTH),
             sc_echoData := arr\<rparr>) }"

definition SC_P_ECHO_Serialize :: "serializer \<Rightarrow> SC_P_ECHO \<Rightarrow> (SC_P_ECHO \<times> serializer) option" where
  "SC_P_ECHO_Serialize s p = do {
     (t, s) \<leftarrow> Value_INT64 s (sc_echo_token p);
     (n, s) \<leftarrow> Value_INT32 s (sc_echoDataSize p);
     (arr, s) \<leftarrow> Value_bytes s (sc_echoData p) n;
     Some (p\<lparr>sc_echo_token := t, sc_echoDataSize := n, sc_echoData := arr\<rparr>, s) }"

subsection \<open>Every structure meets the contract\<close>

lemmas sc_initial_defs = SC_P_AUTH_RESULT_def SC_P_ENTER_def SC_P_LEAVE_def SC_P_MOVE_def
  SC_P_INTERACTION_def SC_P_HEARTBEAT_def SC_P_ECHO_def SC_P_ENTER_CHARACTER_LIST_def

lemmas sc_serialize_defs = SC_P_AUTH_RESULT_Serialize_def SC_P_ENTER_Serialize_def
  SC_P_LEAVE_Serialize_def SC_P_MOVE_Serialize_def SC_P_INTERACTION_Serialize_def
  SC_P_HEARTBEAT_Serialize_def

definition sc_typed :: "PacketTypeS2C \<Rightarrow> 'a packet_body_scheme \<Rightarrow> bool" where
  "sc_typed t p \<longleftrightarrow> ui32PacketType p = s2c_code t"

lemma sc_scalar_structs:
  "packet_struct SC_P_AUTH_RESULT_Serialize (\<lambda>p. le_bytes 4 (result_id p) @ le_bytes 8 (result_token p))
     (sc_typed S2C_auth_result) SC_P_AUTH_RESULT"
  "packet_struct SC_P_ENTER_Serialize
     (\<lambda>p. le_bytes 8 (sc_enter_token p) @ le_bytes 4 (sc_enter_x p) @ le_bytes 4 (sc_enter_y p))
     (sc_typed S2C_enter) SC_P_ENTER"
  "packet_struct SC_P_LEAVE_Serialize (\<lambda>p. le_bytes 8 (sc_leave_token p)) (sc_typed S2C_leave) SC_P_LEAVE"
  "packet_struct SC_P_MOVE_Serialize
     (\<lambda>p. le_bytes 8 (sc_move_token p) @ le_bytes 4 (sc_move_x p) @ le_bytes 4 (sc_move_y p))
     (sc_typed S2C_move) SC_P_MOVE"
  "packet_struct SC_P_INTERACTION_Serialize
     (\<lambda>p. le_bytes 8 (sc_inter_token p) @ le_bytes 8 (sc_targetToken p) @ le_bytes 4 (sc_interactionType p))
     (sc_typed S2C_interaction) SC_P_INTERACTION"
  "packet_struct SC_P_HEARTBEAT_Serialize (\<lambda>p. []) (sc_typed S2C_heartbeat) SC_P_HEARTBEAT"
  unfolding sc_serialize_defs
  by (unfold_locales, simp,
      (rule sends_eq recvs_eq, (rule wire_intros)+; simp add: sc_initial_defs)+)+

interpretation sc_auth: packet_struct SC_P_AUTH_RESULT_Serialize
  "\<lambda>p. le_bytes 4 (result_id p) @ le_bytes 8 (result_token p)"
  "sc_typed S2C_auth_result" SC_P_AUTH_RESULT
  by (rule sc_scalar_structs)

interpretation sc_enter: packet_struct SC_P_ENTER_Serialize
  "\<lambda>p. le_bytes 8 (sc_enter_token p) @ le_bytes 4 (sc_enter_x p) @ le_bytes 4 (sc_enter_y p)"
  "sc_typed S2C_enter" SC_P_ENTER
  by (rule sc_scalar_structs)

interpretation sc_leave: packet_struct SC_P_LEAVE_Serialize "\<lambda>p. le_bytes 8 (sc_leave_token p)"
  "sc_typed S2C_leave" SC_P_LEAVE
  by (rule sc_scalar_structs)

interpretation sc_move: packet_struct SC_P_MOVE_Serialize
  "\<lambda>p. le_bytes 8 (sc_move_token p) @ le_bytes 4 (sc_move_x p) @ le_bytes 4 (sc_move_y p)"
  "sc_typed S2C_move" SC_P_MOVE
  by (rule sc_scalar_structs)

interpretation sc_interaction: packet_struct SC_P_INTERACTION_Serialize
  "\<lambda>p. le_bytes 8 (sc_inter_token p) @ le_bytes 8 (sc_targetToken p) @ le_bytes 4 (sc_interactionType p)"
  "sc_typed S2C_interaction" SC_P_INTERACTION
  by (rule sc_scalar_structs)

interpretation sc_heartbeat: packet_struct SC_P_HEARTBEAT_Serialize "\<lambda>p. []"
  "sc_typed S2C_heartbeat" SC_P_HEARTBEAT
  by (rule sc_scalar_structs)

definition sc_echo_valid :: "SC_P_ECHO \<Rightarrow> bool" where
  "sc_echo_valid p \<longleftrightarrow> sc_typed S2C_echo p \<and>
     counted_array SC_MAX_ECHO_DATA_LENGTH (sc_echoDataSize p) (sc_echoData p)"

definition sc_echo_fields :: "SC_P_ECHO \<Rightarrow> bytes" where
  "sc_echo_fields p = le_bytes 8 (sc_echo_token p) @ le_bytes 4 (sc_echoDataSize p) @
     take (unat (sc_echoDataSize p)) (sc_echoData p)"

interpretation sc_echo: packet_struct SC_P_ECHO_Serialize sc_echo_fields sc_echo_valid SC_P_ECHO
proof (unfold_locales, goal_cases)
  case (1 p)
  then show ?case
    by (simp add: sc_echo_valid_def counted_array_def sc_echo_fields_def SC_MAX_ECHO_DATA_LENGTH_def)
next
  case (2 p)
  then show ?case unfolding SC_P_ECHO_Serialize_def sc_echo_fields_def sc_echo_valid_def
    by - (rule sends_eq, rule sends_bind, rule wire_intros, rule sends_bind, rule wire_intros,
        rule sends_bind, rule sends_counted, erule conjunct2, rule wire_intros, simp_all)
next
  case (3 p)
  then show ?case unfolding SC_P_ECHO_Serialize_def sc_echo_fields_def sc_echo_valid_def SC_P_ECHO_def
    by simp (rule recvs_eq, rule recvs_bind, rule wire_intros, rule recvs_bind, rule wire_intros,
        rule recvs_bind, rule recvs_counted, erule conjunct2, rule wire_intros, simp_all)
qed

subsection \<open>Character lists\<close>

lemma sends_entries:
  "idx + n \<le> length d \<Longrightarrow>
   sends (\<lambda>s. serialize_entries s d idx n) d (concat (map db_image (take n (drop idx d))))"
proof (induction n arbitrary: idx)
  case 0
  show ?case by (simp add: sends_return)
next
  case (Suc n)
  have "sends (\<lambda>s. Option.bind (CharacterDbData_Serialize s (d ! idx))
      (\<lambda>(e, s). serialize_entries s (d[idx := e]) (idx + 1) n)) d
      (db_image (d ! idx) @ concat (map db_image (take n (drop (idx + 1) d))))"
    by (rule sends_bind, rule wire_intros) (use Suc in simp)
  then show ?case using Suc.prems Cons_nth_drop_Suc [of idx d, symmetric] by simp
qed

lemma recvs_entries:
  "length es = n \<Longrightarrow> idx + n \<le> length d \<Longrightarrow>
   recvs (\<lambda>s. serialize_entries s d idx n) (take idx d @ es @ drop (idx + n) d)
     (concat (map db_image es))"
proof (induction n arbitrary: idx d es)
  case 0
  then show ?case by (simp add: recvs_return)
next
  case (Suc n)
  then obtain e es' where es: "es = e # es'" "length es' = n" by (cases es) auto
  have "recvs (\<lambda>s. serialize_entries s (d[idx := e]) (idx + 1) n)
      (take (idx + 1) (d[idx := e]) @ es' @ drop (idx + 1 + n) (d[idx := e])) (concat (map db_image es'))"
    using Suc.prems es(2) by (intro Suc.IH) auto
  then have rec: "recvs (\<lambda>s. serialize_entries s (d[idx := e]) (idx + 1) n)
      (take idx d @ es @ drop (idx + Suc n) d) (concat (map db_image es'))"
    using Suc.prems(2) es by (simp add: take_Suc_conv_app_nth)
  have "recvs (\<lambda>s. Option.bind (CharacterDbData_Serialize s (d ! idx))
      (\<lambda>(e, s). serialize_entries s (d[idx := e]) (idx + 1) n))
      (take idx d @ es @ drop (idx + Suc n) d) (db_image e @ concat (map db_image es'))"
    by (rule recvs_bind, rule wire_intros, rule rec)
  then show ?case using Suc.prems es by simp
qed

text \<open>A list as \<open>SetData\<close> leaves it: the first \<open>count\<close> of the 20 entries are set.\<close>

definition character_list_valid :: "SC_P_ENTER_CHARACTER_LIST \<Rightarrow> bool" where
  "character_list_valid p \<longleftrightarrow> sc_typed S2C_enter_character p \<and>
     length (list_data p) = MAX_SEND_COUNT_CHARACTER_DB_DATA \<and>
     unat (list_count p) \<le> MAX_SEND_COUNT_CHARACTER_DB_DATA \<and>
     drop (unat (list_count p)) (list_data p) =
       replicate (MAX_SEND_COUNT_CHARACTER_DB_DATA - unat (list_count p)) CharacterDbData_init"

definition character_list_fields :: "SC_P_ENTER_CHARACTER_LIST \<Rightarrow> bytes" where
  "character_list_fields p = le_bytes 4 (list_count p) @
     concat (map db_image (take (unat (list_count p)) (list_data p)))"

lemma length_concat_db: "length (concat (map db_image ds)) = 20 * length ds"
  by (induction ds) auto

lemma small_count: "unat (c :: u32) \<le> 20 \<Longrightarrow> nat (sint c) = unat c"
  using sint_nonneg32 [of c] by simp

lemma character_list_validD:
  assumes "character_list_valid p"
  shows "length (list_data p) = 20" "unat (list_count p) \<le> 20" "nat (sint (list_count p)) = unat (list_count p)"
    "drop (unat (list_count p)) (list_data p) = replicate (20 - unat (list_count p)) CharacterDbData_init"
  using assms small_count [of "list_count p"]
  by (auto simp: character_list_valid_def MAX_SEND_COUNT_CHARACTER_DB_DATA_def)

interpretation sc_list: packet_struct CHARACTER_LIST_Serialize character_list_fields
  character_list_valid SC_P_ENTER_CHARACTER_LIST
proof (unfold_locales, goal_cases)
  case (1 p)
  then show ?case
    using character_list_validD [OF 1] by (simp add: character_list_fields_def length_concat_db)
next
  case (2 p)
  note v = character_list_validD [OF 2]
  have "sends (\<lambda>s. serialize_entries s (list_data p) 0 (nat (sint (list_count p)))) (list_data p)
      (concat (map db_image (take (unat (list_count p)) (list_data p))))"
    using sends_entries [of 0 "unat (list_count p)" "list_data p"] v by simp
  then show ?case unfolding CHARACTER_LIST_Serialize_def character_list_fields_def
    by - (rule sends_eq, rule sends_bind, rule wire_intros, rule sends_bind, assumption,
        rule wire_intros, simp_all)
next
  case (3 p)
  note v = character_list_validD [OF 3]
  let ?es = "take (unat (list_count p)) (list_data p)"
  have "?es @ replicate (20 - unat (list_count p)) CharacterDbData_init = list_data p"
    using v(4) by (metis append_take_drop_id)
  then have "recvs (\<lambda>s. serialize_entries s (replicate 20 CharacterDbData_init) 0 (nat (sint (list_count p))))
      (list_data p) (concat (map db_image ?es))"
    using recvs_entries [of ?es "unat (list_count p)" 0 "replicate 20 CharacterDbData_init"] v by simp
  then show ?case
    unfolding CHARACTER_LIST_Serialize_def character_list_fields_def SC_P_ENTER_CHARACTER_LIST_def
      MAX_SEND_COUNT_CHARACTER_DB_DATA_def
    by simp (rule recvs_eq, rule recvs_bind, rule wire_intros, rule recvs_bind, assumption,
        rule wire_intros, simp_all)
qed

subsection \<open>The tagged union of server packets\<close>

datatype s2c_packet =
  P_SC_AUTH_RESULT SC_P_AUTH_RESULT
| P_SC_ENTER SC_P_ENTER
| P_SC_LIST SC_P_ENTER_CHARACTER_LIST
| P_SC_LEAVE SC_P_LEAVE
| P_SC_MOVE SC_P_MOVE
| P_SC_INTERACTION SC_P_INTERACTION
| P_SC_HEARTBEAT packet_body
| P_SC_ECHO SC_P_ECHO

fun s2c_collect :: "serializer \<Rightarrow> s2c_packet \<Rightarrow> serializer option" where
  "s2c_collect s (P_SC_AUTH_RESULT p) = map_option snd (pack_with SC_P_AUTH_RESULT_Serialize s p)"
| "s2c_collect s (P_SC_ENTER p) = map_option snd (pack_with SC_P_ENTER_Serialize s p)"
| "s2c_collect s (P_SC_LIST p) = map_option snd (pack_with CHARACTER_LIST_Serialize s p)"
| "s2c_collect s (P_SC_LEAVE p) = map_option snd (pack_with SC_P_LEAVE_Serialize s p)"
| "s2c_collect s (P_SC_MOVE p) = map_option snd (pack_with SC_P_MOVE_Serialize s p)"
| "s2c_collect s (P_SC_INTERACTION p) = map_option snd (pack_with SC_P_INTERACTION_Serialize s p)"
| "s2c_collect s (P_SC_HEARTBEAT p) = map_option snd (pack_with SC_P_HEARTBEAT_Serialize s p)"
| "s2c_collect s (P_SC_ECHO p) = map_option snd (pack_with SC_P_ECHO_Serialize s p)"

fun s2c_valid :: "s2c_packet \<Rightarrow> bool" where
  "s2c_valid (P_SC_AUTH_RESULT p) = sc_typed S2C_auth_result p"
| "s2c_valid (P_SC_ENTER p) = sc_typed S2C_enter p"
| "s2c_valid (P_SC_LIST p) = character_list_valid p"
| "s2c_valid (P_SC_LEAVE p) = sc_typed S2C_leave p"
| "s2c_valid (P_SC_MOVE p) = sc_typed S2C_move p"
| "s2c_valid (P_SC_INTERACTION p) = sc_typed S2C_interaction p"
| "s2c_valid (P_SC_HEARTBEAT p) = sc_typed S2C_heartbeat p"
| "s2c_valid (P_SC_ECHO p) = sc_echo_valid p"

fun s2c_tag :: "s2c_packet \<Rightarrow> PacketTypeS2C" where
  "s2c_tag (P_SC_AUTH_RESULT p) = S2C_auth_result"
| "s2c_tag (P_SC_ENTER p) = S2C_enter"
| "s2c_tag (P_SC_LIST p) = S2C_enter_character"
| "s2c_tag (P_SC_LEAVE p) = S2C_leave"
| "s2c_tag (P_SC_MOVE p) = S2C_move"
| "s2c_tag (P_SC_INTERACTION p) = S2C_interaction"
| "s2c_tag (P_SC_HEARTBEAT p) = S2C_heartbeat"
| "s2c_tag (P_SC_ECHO p) = S2C_echo"

fun s2c_image :: "s2c_packet \<Rightarrow> bytes" where
  "s2c_image (P_SC_AUTH_RESULT p) =
     body_image (\<lambda>p. le_bytes 4 (result_id p) @ le_bytes 8 (result_token p)) p"
| "s2c_image (P_SC_ENTER p) =
     body_image (\<lambda>p. le_bytes 8 (sc_enter_token p) @ le_bytes 4 (sc_enter_x p) @ le_bytes 4 (sc_enter_y p)) p"
| "s2c_image (P_SC_LIST p) =
     body_image character_list_fields p"
| "s2c_image (P_SC_LEAVE p) =
     body_image (\<lambda>p. le_bytes 8 (sc_leave_token p)) p"
| "s2c_image (P_SC_MOVE p) =
     body_image (\<lambda>p. le_bytes 8 (sc_move_token p) @ le_bytes 4 (sc_move_x p) @ le_bytes 4 (sc_move_y p)) p"
| "s2c_image (P_SC_INTERACTION p) =
     body_image (\<lambda>p. le_bytes 8 (sc_inter_token p) @ le_bytes 8 (sc_targetToken p) @
       le_bytes 4 (sc_interactionType p)) p"
| "s2c_image (P_SC_HEARTBEAT p) =
     body_image (\<lambda>p. []) p"
| "s2c_image (P_SC_ECHO p) =
     body_image sc_echo_fields p"

fun s2c_functor ::
  "(nat \<Rightarrow> byte) \<Rightarrow> ('s \<Rightarrow> s2c_packet \<Rightarrow> (bool \<times> 's) option) \<Rightarrow> PacketTypeS2C \<Rightarrow> 's packet_functor option" where
  "s2c_functor junk f S2C_auth_result = Some (PacketFunctor_Execute junk (pack_with SC_P_AUTH_RESULT_Serialize)
     SC_P_AUTH_RESULT (\<lambda>st p. f st (P_SC_AUTH_RESULT p)))"
| "s2c_functor junk f S2C_enter = Some (PacketFunctor_Execute junk (pack_with SC_P_ENTER_Serialize)
     SC_P_ENTER (\<lambda>st p. f st (P_SC_ENTER p)))"
| "s2c_functor junk f S2C_enter_character = Some (PacketFunctor_Execute junk (pack_with CHARACTER_LIST_Serialize)
     SC_P_ENTER_CHARACTER_LIST (\<lambda>st p. f st (P_SC_LIST p)))"
| "s2c_functor junk f S2C_leave = Some (PacketFunctor_Execute junk (pack_with SC_P_LEAVE_Serialize)
     SC_P_LEAVE (\<lambda>st p. f st (P_SC_LEAVE p)))"
| "s2c_functor junk f S2C_move = Some (PacketFunctor_Execute junk (pack_with SC_P_MOVE_Serialize)
     SC_P_MOVE (\<lambda>st p. f st (P_SC_MOVE p)))"
| "s2c_functor junk f S2C_interaction = Some (PacketFunctor_Execute junk (pack_with SC_P_INTERACTION_Serialize)
     SC_P_INTERACTION (\<lambda>st p. f st (P_SC_INTERACTION p)))"
| "s2c_functor junk f S2C_heartbeat = Some (PacketFunctor_Execute junk (pack_with SC_P_HEARTBEAT_Serialize)
     SC_P_HEARTBEAT (\<lambda>st p. f st (P_SC_HEARTBEAT p)))"
| "s2c_functor junk f S2C_echo = Some (PacketFunctor_Execute junk (pack_with SC_P_ECHO_Serialize)
     SC_P_ECHO (\<lambda>st p. f st (P_SC_ECHO p)))"
| "s2c_functor junk f _ = None"

lemmas s2c_packed = sc_auth.packed sc_enter.packed sc_list.packed sc_leave.packed
  sc_move.packed sc_interaction.packed sc_heartbeat.packed sc_echo.packed

lemmas s2c_calls_handler = sc_auth.functor_calls_handler sc_enter.functor_calls_handler
  sc_list.functor_calls_handler sc_leave.functor_calls_handler sc_move.functor_calls_handler
  sc_interaction.functor_calls_handler sc_heartbeat.functor_calls_handler sc_echo.functor_calls_handler

lemma s2c_collect_ok:
  assumes "s2c_valid p"
  shows "\<exists>s. s2c_collect (Serializer_send junk) p = Some s \<and> ser_out s (s2c_image p)"
  using assms
  by (cases p; simp only: s2c_valid.simps s2c_collect.simps s2c_image.simps)
    (rule s2c_packed [THEN collected], assumption)+

lemma s2c_image_fits: "s2c_valid p \<Longrightarrow> length (s2c_image p) + 20 \<le> max_packet"
  by (cases p) (use sc_list.image_fits sc_echo.image_fits in \<open>auto simp: body_image_def\<close>)

lemma s2c_image_type:
  "s2c_valid p \<Longrightarrow> 4 \<le> length (s2c_image p) \<and> take 4 (s2c_image p) = le_bytes 4 (s2c_code (s2c_tag p))"
  by (cases p) (auto simp: body_image_def sc_typed_def sc_echo_valid_def character_list_valid_def)

lemma s2c_functor_ok:
  assumes "s2c_valid p" and "unat len = length (s2c_image p)"
  shows "\<exists>pf. s2c_functor junk f (s2c_tag p) = Some pf \<and> pf (s2c_image p @ rest) len st = f st p"
  using assms by (cases p) (simp_all add: s2c_calls_handler)

subsection \<open>Filling a character list\<close>

fun fill_list :: "SC_P_ENTER_CHARACTER_LIST \<Rightarrow> CharacterDbData list \<Rightarrow> SC_P_ENTER_CHARACTER_LIST option" where
  "fill_list p [] = Some p"
| "fill_list p (d # ds) = do { (r, p) \<leftarrow> CHARACTER_LIST_SetData p d; fill_list p ds }"

definition listed :: "CharacterDbData list \<Rightarrow> SC_P_ENTER_CHARACTER_LIST" where
  "listed ds = SC_P_ENTER_CHARACTER_LIST\<lparr>list_count := of_nat (length ds),
     list_data := ds @ replicate (20 - length ds) CharacterDbData_init\<rparr>"

lemma listed_Nil: "listed [] = SC_P_ENTER_CHARACTER_LIST"
  by (simp add: listed_def SC_P_ENTER_CHARACTER_LIST_def MAX_SEND_COUNT_CHARACTER_DB_DATA_def)

lemma Reset_listed: "length ds \<le> 20 \<Longrightarrow> CHARACTER_LIST_Reset (listed ds) = SC_P_ENTER_CHARACTER_LIST"
  by (simp add: listed_def CHARACTER_LIST_Reset_def SC_P_ENTER_CHARACTER_LIST_def
      MAX_SEND_COUNT_CHARACTER_DB_DATA_def)

lemma listed_valid: "length ds \<le> 20 \<Longrightarrow> character_list_valid (listed ds)"
  by (simp add: character_list_valid_def listed_def sc_typed_def SC_P_ENTER_CHARACTER_LIST_def
      MAX_SEND_COUNT_CHARACTER_DB_DATA_def unat_of_nat)

lemma sint_small_of_nat: "n \<le> 20 \<Longrightarrow> sint (of_nat n :: u32) = int n"
  using sint_nonneg32 [of "of_nat n"] by (simp add: unat_of_nat)

lemma SetData_listed:
  assumes "length ds < 20"
  shows "CHARACTER_LIST_SetData (listed ds) d = Some (True, listed (ds @ [d]))"
proof -
  let ?c = "of_nat (length ds) :: u32"
  have rep: "replicate (20 - length ds) CharacterDbData_init =
      CharacterDbData_init # replicate (20 - length (ds @ [d])) CharacterDbData_init"
    using assms by (metis Suc_diff_Suc length_append_singleton replicate_Suc)
  have c1: "?c + 1 = of_nat (length (ds @ [d]))" by (simp add: add.commute)
  have s: "sint ?c = int (length ds)" "sint (?c + 1) = int (length ds) + 1"
    unfolding c1 by (subst sint_small_of_nat; use assms in simp)+
  have u: "unat ?c = length ds" using assms by (simp add: unat_of_nat)
  have upd: "(ds @ CharacterDbData_init # xs)[length ds := d] = (ds @ [d]) @ xs" for xs
    by simp
  have sel: "list_count (listed ds) = ?c"
    "list_data (listed ds) = ds @ CharacterDbData_init # replicate (20 - length (ds @ [d])) CharacterDbData_init"
    unfolding listed_def rep by simp_all
  have guard: "0 \<le> sint (list_count (listed ds))"
    "sint (list_count (listed ds)) < int (length (list_data (listed ds)))"
    "int MAX_SEND_COUNT_CHARACTER_DB_DATA \<ge> sint (?c + 1)"
    unfolding sel s using assms by (simp_all add: MAX_SEND_COUNT_CHARACTER_DB_DATA_def)
  have c2: "list_count (listed (ds @ [d])) = ?c + 1" unfolding c1 by (simp add: listed_def)
  have "(listed ds)\<lparr>list_count := ?c + 1, list_data := (list_data (listed ds))[length ds := d]\<rparr> = listed (ds @ [d])"
    unfolding sel upd c1 by (simp add: listed_def)
  then show ?thesis
    unfolding CHARACTER_LIST_SetData_def Let_def using guard by (simp add: sel u c2)
qed

lemma fill_listed: "length (es @ ds) \<le> 20 \<Longrightarrow> fill_list (listed es) ds = Some (listed (es @ ds))"
  by (induction ds arbitrary: es) (simp_all add: SetData_listed)

subsection \<open>Properties\<close>

text \<open>
  C30: Character lists round trip.  Any list of at most 20 characters can be put into one packet by
  \<open>SetData\<close>; the packet is serialized into a body of 8 bytes and 20 for each character, and the
  receiver's functor calls its handler with exactly that packet: the same count, the same entries in
  the same order.
\<close>

theorem character_list_roundtrip:
  assumes "length ds \<le> 20"
  shows "\<exists>p s. fill_list SC_P_ENTER_CHARACTER_LIST ds = Some p \<and>
    pack_with CHARACTER_LIST_Serialize (Serializer_send junk) p = Some (p, s) \<and>
    unat (nDataSize s) = 8 + 20 * length ds \<and>
    unat (list_count p) = length ds \<and> take (length ds) (list_data p) = ds \<and>
    PacketFunctor_Execute junk' (pack_with CHARACTER_LIST_Serialize) SC_P_ENTER_CHARACTER_LIST func
      (pBuffer s) (nDataSize s) st = func st p"
proof -
  have p: "unat (list_count (listed ds)) = length ds" "take (length ds) (list_data (listed ds)) = ds"
    using assms by (simp_all add: listed_def unat_of_nat)
  then have "length (body_image character_list_fields (listed ds)) = 8 + 20 * length ds"
    by (simp add: body_image_def character_list_fields_def length_concat_db)
  then show ?thesis
    using sc_list.packed_then_executed [OF listed_valid [OF assms], of junk junk' func st]
      fill_listed [of "[]" ds] assms p by (auto simp: listed_Nil)
qed

theorem character_list_roundtrip_witness:
  "\<exists>p s. fill_list SC_P_ENTER_CHARACTER_LIST [CharacterDbData_init\<lparr>db_token := 7\<rparr>] = Some p \<and>
    pack_with CHARACTER_LIST_Serialize (Serializer_send (\<lambda>_. 1)) p = Some (p, s) \<and>
    unat (nDataSize s) = 28 \<and>
    PacketFunctor_Execute (\<lambda>_. 0) (pack_with CHARACTER_LIST_Serialize) SC_P_ENTER_CHARACTER_LIST
      (\<lambda>st q. Some (True, list_count q)) (pBuffer s) (nDataSize s) 0 = Some (True, list_count p)"
  using character_list_roundtrip [of "[CharacterDbData_init\<lparr>db_token := 7\<rparr>]" "\<lambda>_. 1" "\<lambda>_. 0"
      "\<lambda>st q. Some (True, list_count q)" 0] by auto

lemma serialize_entries_overflow:
  "ser_in s (concat (map db_image es) @ ys) \<Longrightarrow> length d = idx + length es \<Longrightarrow> length es < n \<Longrightarrow>
   serialize_entries s d idx n = None"
proof (induction es arbitrary: s d idx n)
  case Nil
  then obtain m where "n = Suc m" by (cases n) auto
  then show ?case using Nil by simp
next
  case (Cons e es)
  then obtain m where n: "n = Suc m" by (cases n) auto
  obtain s' where s': "CharacterDbData_Serialize s (d ! idx) = Some (e, s')"
    "ser_in s' (concat (map db_image es) @ ys)"
    using recvsD [OF recvs_CharacterDbData, of s e "concat (map db_image es) @ ys"] Cons.prems(1) by auto
  have "serialize_entries s' (d[idx := e]) (idx + 1) m = None"
    using Cons.prems n by (intro Cons.IH [OF s'(2)]) auto
  then show ?case using s'(1) n by simp
qed

text \<open>
  The count of a character list is trusted on receipt: a body that announces more than 20 entries
  and carries at least 20 of them makes the client's functor run past the 20-entry array.
\<close>

theorem character_list_count_overflows:
  assumes "length es = 20" and "20 < sint n" and "length rest + 408 \<le> max_packet"
    and "unat len = length rest + 408"
  shows "PacketFunctor_Execute junk (pack_with CHARACTER_LIST_Serialize) SC_P_ENTER_CHARACTER_LIST func
    (le_bytes 4 (s2c_code S2C_enter_character) @ le_bytes 4 (n :: u32) @ concat (map db_image es) @ rest)
    len st = None"
proof -
  let ?p = SC_P_ENTER_CHARACTER_LIST
  let ?ent = "concat (map db_image es) @ rest"
  let ?d = "le_bytes 4 (s2c_code S2C_enter_character) @ le_bytes 4 n @ ?ent"
  have "length ?d = length rest + 408" using assms(1) by (simp add: length_concat_db)
  then obtain s where s: "Serializer_recv junk ?d len = Some s" "ser_in s ?d"
    using Serializer_recv_ok [of len ?d junk] assms by auto
  obtain s1 where s1: "SerializeHead s ?p = Some (?p, s1)" "ser_in s1 (le_bytes 4 n @ ?ent)"
    using recvsD [OF recvs_SerializeHead, of s "s2c_code S2C_enter_character" _ ?p] s(2)
    by (auto simp: SC_P_ENTER_CHARACTER_LIST_def)
  obtain s2 where s2: "Value_INT32 s1 (list_count ?p) = Some (n, s2)" "ser_in s2 ?ent"
    using recvsD [OF recvs_scalars(3) s1(2), of "list_count ?p"] by auto
  have "serialize_entries s2 (list_data ?p) 0 (nat (sint n)) = None"
    using assms by (intro serialize_entries_overflow [OF s2(2)])
      (simp_all add: SC_P_ENTER_CHARACTER_LIST_def MAX_SEND_COUNT_CHARACTER_DB_DATA_def)
  then show ?thesis
    using s(1) s1(1) s2(1) by (simp add: PacketFunctor_Execute_def pack_with_def CHARACTER_LIST_Serialize_def)
qed

theorem character_list_count_overflows_witness:
  "PacketFunctor_Execute (\<lambda>_. 0) (pack_with CHARACTER_LIST_Serialize) SC_P_ENTER_CHARACTER_LIST
    (\<lambda>st q. Some (True, ()))
    (le_bytes 4 (s2c_code S2C_enter_character) @ le_bytes 4 (21 :: u32) @
     concat (map db_image (replicate 20 CharacterDbData_init)) @ []) 408 () = None"
  by (rule character_list_count_overflows) simp_all

end
