(* ===== verification/Command_Queue.thy ===== *)
theory Command_Queue
  imports PL_Prelude
begin

text \<open>
  \<^verbatim>\<open>_lib/command_unit_base.h\<close> and \<^verbatim>\<open>command_unit_base.cpp\<close>: the queue of deferred commands.  A command's
  \<open>Operator\<close> runs on a state that contains the queue itself, because commands add commands; \<open>get\<close> and
  \<open>put\<close> reach the queue in that state.
\<close>

datatype eCommandUnitPriority = Low | Normal | Highest | Priority_MAX

record 'c command_queue =
  cmds :: "'c list"

definition CommandUnitQueue :: "'c command_queue" where
  "CommandUnitQueue = \<lparr>cmds = []\<rparr>"

definition Add :: "'c command_queue \<Rightarrow> 'c \<Rightarrow> 'c command_queue" where
  "Add q c = q\<lparr>cmds := cmds q @ [c]\<rparr>"

definition SwapOpList :: "'c command_queue \<Rightarrow> 'c list \<Rightarrow> 'c list \<times> 'c command_queue" where
  "SwapOpList q firing = (cmds q, q\<lparr>cmds := firing\<rparr>)"

fun ProcessAll :: "('c \<Rightarrow> 's \<Rightarrow> 's option) \<Rightarrow> 'c list \<Rightarrow> 's \<Rightarrow> 's option" where
  "ProcessAll op [] st = Some st"
| "ProcessAll op (c # cs) st = do { st \<leftarrow> op c st; ProcessAll op cs st }"

definition FireOps ::
  "('s \<Rightarrow> 'c command_queue) \<Rightarrow> ('c command_queue \<Rightarrow> 's \<Rightarrow> 's) \<Rightarrow> ('c \<Rightarrow> 's \<Rightarrow> 's option) \<Rightarrow> 's \<Rightarrow> 's option" where
  "FireOps get put op st =
     (let (firing, q) = SwapOpList (get st) [] in ProcessAll op firing (put q st))"

definition Tick ::
  "('s \<Rightarrow> 'c command_queue) \<Rightarrow> ('c command_queue \<Rightarrow> 's \<Rightarrow> 's) \<Rightarrow> ('c \<Rightarrow> 's \<Rightarrow> 's option) \<Rightarrow> 's \<Rightarrow> 's option" where
  "Tick get put op st = FireOps get put op st"

definition Queue_destroy :: "'c command_queue \<Rightarrow> 'c list" where
  "Queue_destroy q = cmds q"

subsection \<open>A program that hosts a command queue\<close>

text \<open>
  The host promises that a command only appends to the queue: what is waiting stays, in order, at the
  front.
\<close>

locale command_host =
  fixes get :: "'s \<Rightarrow> 'c command_queue"
    and put :: "'c command_queue \<Rightarrow> 's \<Rightarrow> 's"
    and op :: "'c \<Rightarrow> 's \<Rightarrow> 's option"
  assumes get_put: "get (put q st) = q"
    and op_appends: "op c st = Some st' \<Longrightarrow> \<exists>new. cmds (get st') = cmds (get st) @ new"
begin

lemma ProcessAll_appends:
  "ProcessAll op cs st = Some st' \<Longrightarrow> \<exists>new. cmds (get st') = cmds (get st) @ new"
proof (induction cs arbitrary: st)
  case Nil
  then show ?case by simp
next
  case (Cons c cs)
  then obtain st1 where st1: "op c st = Some st1" "ProcessAll op cs st1 = Some st'"
    by (auto simp: Option.bind_eq_Some_conv)
  then show ?case using op_appends [OF st1(1)] Cons.IH [OF st1(2)] by (metis append.assoc)
qed

lemma ProcessAll_append:
  "ProcessAll op (as @ bs) st = do { st \<leftarrow> ProcessAll op as st; ProcessAll op bs st }"
proof (induction as arbitrary: st)
  case (Cons a as)
  then show ?case by (cases "op a st") simp_all
qed simp

text \<open>A tick runs exactly the commands queued when it starts, in order.\<close>

lemma Tick_eq: "Tick get put op st = ProcessAll op (cmds (get st)) (put ((get st)\<lparr>cmds := []\<rparr>) st)"
  by (simp add: Tick_def FireOps_def SwapOpList_def)

end

end
