(* ===== verification/Zone.thy ===== *)
theory Zone
  imports Object_Pool Character_Base Command_Queue
begin

text \<open>
  \<^verbatim>\<open>svr/zone.h\<close>, \<^verbatim>\<open>zone.cpp\<close> and \<^verbatim>\<open>zone_mgr.h\<close>.  A zone keeps pointers to characters, which are parts of
  user sessions; \<open>deref\<close> reads the character behind a pointer and yields \<open>None\<close> when the object is gone.
  The map is keyed by the signed value of the token, in whose order \<open>std::map\<close> iterates.
\<close>

record zone =
  zone_id :: u32
  characterMap :: "(int, addr) omap"

definition Zone_init :: zone where
  "Zone_init = \<lparr>zone_id = 0, characterMap = []\<rparr>"

type_synonym deref = "addr \<Rightarrow> Character option"

definition OnRegistCharacter :: "deref \<Rightarrow> zone \<Rightarrow> addr \<Rightarrow> zone option" where
  "OnRegistCharacter deref z a = do {
     ch \<leftarrow> deref a;
     Some (z\<lparr>characterMap := omap_insert (sint (ch_token ch)) a (characterMap z)\<rparr>) }"

definition OnUnregistToken :: "zone \<Rightarrow> u64 \<Rightarrow> zone" where
  "OnUnregistToken z token =
     (if map_of (characterMap z) (sint token) \<noteq> None
      then z\<lparr>characterMap := omap_erase (sint token) (characterMap z)\<rparr> else z)"

definition OnUnregistCharacter :: "deref \<Rightarrow> zone \<Rightarrow> addr \<Rightarrow> zone option" where
  "OnUnregistCharacter deref z a = do { ch \<leftarrow> deref a; Some (OnUnregistToken z (ch_token ch)) }"

definition GetCharacterCount :: "zone \<Rightarrow> nat" where
  "GetCharacterCount z = length (characterMap z)"

text \<open>\<open>PacketBroadcast\<close> queues one command per character; here the tokens it queues them for.\<close>

fun broadcast_tokens :: "deref \<Rightarrow> (int, addr) omap \<Rightarrow> u64 list option" where
  "broadcast_tokens deref [] = Some []"
| "broadcast_tokens deref ((k, a) # m) = do {
     ch \<leftarrow> deref a;
     ts \<leftarrow> broadcast_tokens deref m;
     Some (ch_token ch # ts) }"

fun GetCharacterDbList :: "deref \<Rightarrow> (int, addr) omap \<Rightarrow> u64 \<Rightarrow> CharacterDbData list option" where
  "GetCharacterDbList deref [] except = Some []"
| "GetCharacterDbList deref ((k, a) # m) except =
     (if k = sint except then GetCharacterDbList deref m except
      else do {
        ch \<leftarrow> deref a;
        ds \<leftarrow> GetCharacterDbList deref m except;
        Some (GetDbData ch # ds) })"

subsection \<open>ZoneMgr\<close>

text \<open>\<open>zones\<close> is the store of zone objects; \<open>base\<close> is where the pool grows if it has to.\<close>

record zone_mgr =
  zm_objects :: object_mgr
  zones :: "addr \<Rightarrow> zone"
  zoneMap :: "(int, addr) omap"

definition ZoneMgr :: zone_mgr where
  "ZoneMgr = \<lparr>zm_objects = ObjectMgrBase, zones = (\<lambda>a. Zone_init), zoneMap = []\<rparr>"

definition ZoneMgr_EnterCharacter :: "deref \<Rightarrow> addr \<Rightarrow> zone_mgr \<Rightarrow> u32 \<Rightarrow> addr \<Rightarrow> zone_mgr option" where
  "ZoneMgr_EnterCharacter deref base zm zid ch =
     (case map_of (zoneMap zm) (sint zid) of
        Some z \<Rightarrow> do {
          zn \<leftarrow> OnRegistCharacter deref (zones zm z) ch;
          Some (zm\<lparr>zones := (zones zm)(z := zn)\<rparr>) }
      | None \<Rightarrow>
          let (z, p) = GetFreeObjectPtr base (objectPool (zm_objects zm))
          in do {
            zn \<leftarrow> OnRegistCharacter deref (Zone_init\<lparr>zone_id := zid\<rparr>) ch;
            Some (zm\<lparr>zm_objects := (zm_objects zm)\<lparr>objectPool := p\<rparr>,
                     zones := (zones zm)(z := zn),
                     zoneMap := omap_insert (sint zid) z (zoneMap zm)\<rparr>) })"

definition ZoneMgr_LeaveCharacter :: "zone_mgr \<Rightarrow> u32 \<Rightarrow> u64 \<Rightarrow> zone_mgr" where
  "ZoneMgr_LeaveCharacter zm zid token =
     (case map_of (zoneMap zm) (sint zid) of
        Some z \<Rightarrow> zm\<lparr>zones := (zones zm)(z := OnUnregistToken (zones zm z) token)\<rparr>
      | None \<Rightarrow> zm)"

definition ZoneMgr_LeavePtr :: "deref \<Rightarrow> zone_mgr \<Rightarrow> u32 \<Rightarrow> addr \<Rightarrow> zone_mgr option" where
  "ZoneMgr_LeavePtr deref zm zid ch =
     (case map_of (zoneMap zm) (sint zid) of
        Some z \<Rightarrow> do {
          zn \<leftarrow> OnUnregistCharacter deref (zones zm z) ch;
          Some (zm\<lparr>zones := (zones zm)(z := zn)\<rparr>) }
      | None \<Rightarrow> Some zm)"

definition GetZone :: "zone_mgr \<Rightarrow> u32 \<Rightarrow> addr option" where
  "GetZone zm zid = map_of (zoneMap zm) (sint zid)"

subsection \<open>Who is in a zone\<close>

definition members :: "zone_mgr \<Rightarrow> u32 \<Rightarrow> (int, addr) omap" where
  "members zm zid = (case GetZone zm zid of Some z \<Rightarrow> characterMap (zones zm z) | None \<Rightarrow> [])"

text \<open>Different zone numbers have different objects, all of them allocated.\<close>

definition zone_mgr_ok :: "zone_mgr \<Rightarrow> bool" where
  "zone_mgr_ok zm \<longleftrightarrow> omap_ok (zoneMap zm) \<and> pool_ok (objectPool (zm_objects zm)) (map snd (zoneMap zm)) \<and>
     (\<forall>z. omap_ok (characterMap (zones zm z)))"

lemma zone_mgr_ok_new: "zone_mgr_ok ZoneMgr"
  using pool_ok_new by (simp add: zone_mgr_ok_def ZoneMgr_def ObjectMgrBase_def Zone_init_def)

lemma sint_inj: "sint (a :: 'a::len word) = sint b \<longleftrightarrow> a = b"
  by (auto intro: signed_word_eqI)

lemma zone_ptr_inj:
  assumes "zone_mgr_ok zm" and "map_of (zoneMap zm) i = Some z" and "map_of (zoneMap zm) j = Some z"
  shows "i = j"
proof -
  have "distinct (map snd (zoneMap zm))"
    using pool_ok_distinct assms(1) by (fastforce simp: zone_mgr_ok_def)
  then show ?thesis
    using map_of_SomeD [OF assms(2)] map_of_SomeD [OF assms(3)]
    by (fastforce simp: distinct_map inj_on_def)
qed

lemma other_zone_ptr:
  "zone_mgr_ok zm \<Longrightarrow> other \<noteq> zid \<Longrightarrow> map_of (zoneMap zm) (sint zid) = Some z \<Longrightarrow>
   map_of (zoneMap zm) (sint other) \<noteq> Some z"
  using zone_ptr_inj sint_inj by metis

lemma mset_omap_insert_absent:
  "map_of m k = None \<Longrightarrow> mset (omap_insert k v m) = add_mset (k, v) (mset m)"
  by (induction k v m rule: omap_insert.induct) (auto split: if_splits)

lemma members_EnterCharacter:
  assumes ok: "zone_mgr_ok zm" and fresh: "fresh_block base (objectPool (zm_objects zm))"
    and ch: "deref a = Some ch"
  shows "\<exists>zm'. ZoneMgr_EnterCharacter deref base zm zid a = Some zm' \<and> zone_mgr_ok zm' \<and>
    members zm' zid = omap_insert (sint (ch_token ch)) a (members zm zid) \<and>
    (\<forall>other. other \<noteq> zid \<longrightarrow> members zm' other = members zm other) \<and> GetZone zm' zid \<noteq> None"
proof (cases "map_of (zoneMap zm) (sint zid)")
  case (Some z)
  let ?zm' = "zm\<lparr>zones := (zones zm)(z := (zones zm z)
      \<lparr>characterMap := omap_insert (sint (ch_token ch)) a (characterMap (zones zm z))\<rparr>)\<rparr>"
  have "ZoneMgr_EnterCharacter deref base zm zid a = Some ?zm'"
    using Some ch by (simp add: ZoneMgr_EnterCharacter_def OnRegistCharacter_def)
  moreover have "zone_mgr_ok ?zm'" using ok by (simp add: zone_mgr_ok_def)
  moreover have "members ?zm' other = members zm other" if "other \<noteq> zid" for other
    using other_zone_ptr [OF ok that Some] by (simp add: members_def GetZone_def split: option.splits)
  moreover have "members ?zm' zid = omap_insert (sint (ch_token ch)) a (members zm zid)"
    using Some by (simp add: members_def GetZone_def)
  ultimately show ?thesis using Some by (intro exI [of _ ?zm']) (simp add: GetZone_def)
next
  case None
  obtain z p where zp: "GetFreeObjectPtr base (objectPool (zm_objects zm)) = (z, p)" by fastforce
  let ?zn = "Zone_init\<lparr>zone_id := zid, characterMap := [(sint (ch_token ch), a)]\<rparr>"
  let ?zm' = "zm\<lparr>zm_objects := (zm_objects zm)\<lparr>objectPool := p\<rparr>, zones := (zones zm)(z := ?zn),
      zoneMap := omap_insert (sint zid) z (zoneMap zm)\<rparr>"
  have om: "omap_ok (zoneMap zm)" and po: "pool_ok (objectPool (zm_objects zm)) (map snd (zoneMap zm))"
    using ok by (simp_all add: zone_mgr_ok_def)
  have po': "pool_ok p (map snd (zoneMap zm) @ [z])" using GetFreeObjectPtr_ok [OF po fresh zp] .
  have new: "z \<notin> set (map snd (zoneMap zm))" using pool_ok_distinct [OF po'] by auto
  have "image_mset snd (mset (omap_insert (sint zid) z (zoneMap zm))) = mset (map snd (zoneMap zm) @ [z])"
    using mset_omap_insert_absent [OF None, of z] by (simp flip: mset_map)
  then have ok': "zone_mgr_ok ?zm'"
    using ok po' omap_ok_insert [OF om, of "sint zid" z]
    by (auto simp: zone_mgr_ok_def pool_ok_def Zone_init_def omap_ok_def)
  have eq: "ZoneMgr_EnterCharacter deref base zm zid a = Some ?zm'"
    using None ch zp by (simp add: ZoneMgr_EnterCharacter_def OnRegistCharacter_def Zone_init_def)
  have "members ?zm' other = members zm other" if "other \<noteq> zid" for other
  proof -
    have "map_of (zoneMap zm) (sint other) \<noteq> Some z" using new by (force dest: map_of_SomeD)
    then show ?thesis
      using that None om sint_inj [of other zid]
      by (simp add: members_def GetZone_def map_of_omap_insert split: option.splits)
  qed
  moreover have "members ?zm' zid = omap_insert (sint (ch_token ch)) a (members zm zid)"
    using None om by (simp add: members_def GetZone_def map_of_omap_insert)
  ultimately show ?thesis using eq ok' None om
    by (intro exI [of _ ?zm']) (simp add: GetZone_def map_of_omap_insert)
qed

lemma members_LeaveCharacter:
  assumes ok: "zone_mgr_ok zm"
  shows "zone_mgr_ok (ZoneMgr_LeaveCharacter zm zid token)"
    "members (ZoneMgr_LeaveCharacter zm zid token) zid = omap_erase (sint token) (members zm zid)"
    "other \<noteq> zid \<Longrightarrow> members (ZoneMgr_LeaveCharacter zm zid token) other = members zm other"
proof -
  have er: "characterMap (OnUnregistToken z token) = omap_erase (sint token) (characterMap z)" for z
    by (force simp: OnUnregistToken_def omap_erase_def map_of_eq_None_iff intro!: filter_True [symmetric])
  show "zone_mgr_ok (ZoneMgr_LeaveCharacter zm zid token)"
    using ok er by (auto simp: zone_mgr_ok_def ZoneMgr_LeaveCharacter_def split: option.splits)
  show "members (ZoneMgr_LeaveCharacter zm zid token) zid = omap_erase (sint token) (members zm zid)"
    by (auto simp: members_def GetZone_def ZoneMgr_LeaveCharacter_def er omap_erase_def split: option.splits)
  show "members (ZoneMgr_LeaveCharacter zm zid token) other = members zm other" if "other \<noteq> zid"
    using other_zone_ptr [OF ok that]
    by (auto simp: members_def GetZone_def ZoneMgr_LeaveCharacter_def split: option.splits)
qed

text \<open>Walking over a zone whose characters are all there.\<close>

definition all_live :: "deref \<Rightarrow> (int, addr) omap \<Rightarrow> bool" where
  "all_live deref m \<longleftrightarrow> (\<forall>(k, a) \<in> set m. \<exists>ch. deref a = Some ch \<and> sint (ch_token ch) = k)"

lemma broadcast_tokens_live:
  "all_live deref m \<Longrightarrow> \<exists>ts. broadcast_tokens deref m = Some ts \<and> map sint ts = map fst m"
  by (induction m) (auto simp: all_live_def)

lemma broadcast_tokens_dead:
  "(k, a) \<in> set m \<Longrightarrow> deref a = None \<Longrightarrow> broadcast_tokens deref m = None"
  by (induction m) (auto split: option.splits)

lemma GetCharacterDbList_live:
  "all_live deref m \<Longrightarrow> \<exists>ds. GetCharacterDbList deref m except = Some ds \<and>
     map (\<lambda>d. sint (db_token d)) ds = filter (\<lambda>k. k \<noteq> sint except) (map fst m)"
  by (induction m) (auto simp: all_live_def GetDbData_def)

end
