(* ===== verification/Server.thy ===== *)
theory Server
  imports Network Protocol_CS Protocol_SC Zone
begin

text \<open>
  The server program: \<^verbatim>\<open>svr/user_session.h/.cpp\<close>, \<^verbatim>\<open>user_session_mgr.h/.cpp\<close>,
  \<^verbatim>\<open>command_unit_process.h/.cpp\<close> and the loops of \<^verbatim>\<open>process.cpp\<close>.  All objects live in one state: the
  network, the store of user sessions (\<open>None\<close> where no session is constructed), the session and zone
  managers and the command queue.  A character pointer is the address of the session that contains the
  character.  What the clock, the random numbers and the sockets answer is in \<open>svr_env\<close>.
\<close>

record user_session =
  us_uid :: u32
  us_pConnector :: "addr option"
  us_HeartbeatTimer :: int
  us_HeartbeatCount :: u32
  us_UpdateTime :: int
  nub :: Character

definition UserSession :: "u32 \<Rightarrow> user_session" where
  "UserSession uid = \<lparr>us_uid = uid, us_pConnector = None, us_HeartbeatTimer = 0, us_HeartbeatCount = 0,
     us_UpdateTime = 0, nub = Character_init\<rparr>"

datatype command =
  SendBroadcastToAllUser u32 bytes u32
| SendPacketToUser u64 bytes u32
| EnterCharacter u64 u32 u32 u32
| LeaveCharacter u64 u32
| SendCharacterList u64 u32

record server =
  net :: network
  sessions :: "addr \<Rightarrow> user_session option"
  unique_session_uid :: u32
  sm_objects :: object_mgr
  releaseList :: "addr list"
  userMap :: "(int, addr) omap"
  sm_UpdateTime :: int
  zoneMgr :: zone_mgr
  commandQueue :: "command command_queue"
  unique_id :: u64
  loop_pConnector :: "addr option"

record svr_env =
  e_junk :: "nat \<Rightarrow> byte"
  e_now :: u32
  e_wsa :: wsa
  e_time :: u64
  e_rand1 :: nat
  e_rand2 :: nat
  e_base :: addr

definition INT64_MAX :: int where
  "INT64_MAX = 2 ^ 63 - 1"

subsection \<open>Packing and sending\<close>

text \<open>
  The sequence every sender goes through: collect the fields, put the frame around them.  The result of
  \<open>MakeNetworkPacket\<close> is not looked at.
\<close>

definition make_send_buffer :: "(nat \<Rightarrow> byte) \<Rightarrow> u32 \<Rightarrow> s2c_packet \<Rightarrow> (bytes \<times> u32) option" where
  "make_send_buffer junk now p = do {
     pack \<leftarrow> s2c_collect (Serializer_send junk) p;
     (code, buf, n) \<leftarrow> MakeNetworkPacket (pBuffer pack) (nDataSize pack)
       (replicate (unat MAX_PACKET_BUFFER_SIZE) 0) MAX_PACKET_BUFFER_SIZE 0 now;
     Some (buf, n) }"

definition new_broadcast :: "svr_env \<Rightarrow> u32 \<Rightarrow> s2c_packet \<Rightarrow> command option" where
  "new_broadcast e zid p = do {
     (buf, n) \<leftarrow> make_send_buffer (e_junk e) (e_now e) p;
     Some (SendBroadcastToAllUser zid buf n) }"

definition new_packet_to :: "svr_env \<Rightarrow> u64 \<Rightarrow> s2c_packet \<Rightarrow> command option" where
  "new_packet_to e token p = do {
     (buf, n) \<leftarrow> make_send_buffer (e_junk e) (e_now e) p;
     Some (SendPacketToUser token buf n) }"

text \<open>The constructor that copies a finished buffer with \<open>memcpy_s\<close>.\<close>

definition new_packet_copy :: "u64 \<Rightarrow> bytes \<Rightarrow> u32 \<Rightarrow> command option" where
  "new_packet_copy token buf n =
     (if unat n \<le> unat MAX_PACKET_BUFFER_SIZE
      then do {
        xs \<leftarrow> mem_read buf 0 (unat n);
        m \<leftarrow> mem_write (replicate (unat MAX_PACKET_BUFFER_SIZE) 0) 0 xs;
        Some (SendPacketToUser token m n) }
      else None)"

definition add_cmd :: "command \<Rightarrow> server \<Rightarrow> server" where
  "add_cmd c st = st\<lparr>commandQueue := Add (commandQueue st) c\<rparr>"

definition SendPacket_buffer ::
  "svr_env \<Rightarrow> server \<Rightarrow> addr \<Rightarrow> bytes \<Rightarrow> u32 \<Rightarrow> (eResultCode \<times> server) option" where
  "SendPacket_buffer e st a buf n = do {
     us \<leftarrow> sessions st a;
     c \<leftarrow> us_pConnector us;
     (r, nt) \<leftarrow> Write (e_junk e) (e_wsa e) (net st) (Some c) (Some buf) n;
     Some (r, st\<lparr>net := nt\<rparr>) }"

definition SendPacket :: "svr_env \<Rightarrow> server \<Rightarrow> addr \<Rightarrow> s2c_packet \<Rightarrow> (eResultCode \<times> server) option" where
  "SendPacket e st a p = do {
     (buf, n) \<leftarrow> make_send_buffer (e_junk e) (e_now e) p;
     SendPacket_buffer e st a buf n }"

subsection \<open>UserSessionMgr\<close>

definition upd_session :: "server \<Rightarrow> addr \<Rightarrow> user_session \<Rightarrow> server" where
  "upd_session st a us = st\<lparr>sessions := (sessions st)(a := Some us)\<rparr>"

definition session_deref :: "server \<Rightarrow> deref" where
  "session_deref st a = map_option nub (sessions st a)"

definition GetFreeSession :: "addr \<Rightarrow> server \<Rightarrow> addr \<times> server" where
  "GetFreeSession base st =
     (let (a, m) = ObjectMgr_GetFreeObject base (sm_objects st); uid = unique_session_uid st + 1
      in (a, (upd_session st a (UserSession uid))\<lparr>sm_objects := m, unique_session_uid := uid\<rparr>))"

definition SetFreeSession :: "addr \<Rightarrow> server \<Rightarrow> server" where
  "SetFreeSession a st = st\<lparr>sm_objects := ObjectMgr_SetFreeObject a (sm_objects st),
     sessions := (sessions st)(a := None)\<rparr>"

definition SetReleaseObj :: "addr \<Rightarrow> server \<Rightarrow> server" where
  "SetReleaseObj a st = st\<lparr>releaseList := releaseList st @ [a]\<rparr>"

definition SwapReleaseList :: "server \<Rightarrow> addr list \<times> server" where
  "SwapReleaseList st = (releaseList st, st\<lparr>releaseList := []\<rparr>)"

definition AddUserSessionMap :: "addr \<Rightarrow> server \<Rightarrow> server option" where
  "AddUserSessionMap a st = do {
     us \<leftarrow> sessions st a;
     Some (st\<lparr>userMap := omap_insert (sint (ch_token (nub us))) a (userMap st)\<rparr>) }"

definition DelUserSessionToken :: "u64 \<Rightarrow> server \<Rightarrow> server" where
  "DelUserSessionToken token st =
     (if map_of (userMap st) (sint token) \<noteq> None
      then st\<lparr>userMap := omap_erase (sint token) (userMap st)\<rparr> else st)"

definition DelUserSessionMap :: "addr \<Rightarrow> server \<Rightarrow> server option" where
  "DelUserSessionMap a st = do {
     us \<leftarrow> sessions st a;
     Some (DelUserSessionToken (ch_token (nub us)) st) }"

definition GetUserSession :: "server \<Rightarrow> u64 \<Rightarrow> addr option" where
  "GetUserSession st token = map_of (userMap st) (sint token)"

subsection \<open>UserSession\<close>

definition UserSession_Release :: "addr \<Rightarrow> server \<Rightarrow> server option" where
  "UserSession_Release a st = do {
     us \<leftarrow> sessions st a;
     let st = (if zoneId (ch_pos (nub us)) \<noteq> 0
               then add_cmd (LeaveCharacter (ch_token (nub us)) (zoneId (ch_pos (nub us)))) st else st);
     let st = upd_session st a (us\<lparr>us_HeartbeatTimer := 0, us_HeartbeatCount := 0, us_UpdateTime := 0\<rparr>);
     Some (case us_pConnector us of
         None \<Rightarrow> st
       | Some c \<Rightarrow>
           let nt = upd_connector (net st) c ((connectors (net st) c)\<lparr>cn_param := None\<rparr>)
           in st\<lparr>net := net_TryRelease nt c\<rparr>) }"

definition UserSession_DoUpdate :: "svr_env \<Rightarrow> int \<Rightarrow> addr \<Rightarrow> server \<Rightarrow> server option" where
  "UserSession_DoUpdate e biCurrTime a st = do {
     us \<leftarrow> sessions st a;
     if us_UpdateTime us < biCurrTime then
       (let us = us\<lparr>us_UpdateTime := biCurrTime + MILLISEC_A_SEC * 5\<rparr>; st = upd_session st a us
        in case us_pConnector us of
             None \<Rightarrow> Some (upd_session (SetReleaseObj a st) a (us\<lparr>us_UpdateTime := INT64_MAX\<rparr>))
           | Some c \<Rightarrow>
               if \<not> GetActive (connectors (net st) c)
               then Some (upd_session (SetReleaseObj a st) a (us\<lparr>us_UpdateTime := INT64_MAX\<rparr>))
               else if us_HeartbeatTimer us < biCurrTime then
                 let us = us\<lparr>us_HeartbeatTimer := biCurrTime + MILLISEC_A_SEC * 15,
                             us_HeartbeatCount := us_HeartbeatCount us + 1\<rparr>;
                     st = upd_session st a us
                 in if 4 < sint (us_HeartbeatCount us)
                    then let st = upd_session st a (us\<lparr>us_HeartbeatTimer := INT64_MAX\<rparr>)
                         in Some (st\<lparr>net := net_TryRelease (net st) c\<rparr>)
                    else do { (r, st) \<leftarrow> SendPacket e st a (P_SC_HEARTBEAT SC_P_HEARTBEAT); Some st }
               else Some st)
     else Some st }"

fun for_each :: "('a \<Rightarrow> 's \<Rightarrow> 's option) \<Rightarrow> 'a list \<Rightarrow> 's \<Rightarrow> 's option" where
  "for_each f [] st = Some st"
| "for_each f (x # xs) st = do { st \<leftarrow> f x st; for_each f xs st }"

definition UserSessionMgr_DoUpdate :: "svr_env \<Rightarrow> int \<Rightarrow> int \<Rightarrow> server \<Rightarrow> server option" where
  "UserSessionMgr_DoUpdate e currTime timeNow st =
     (if sm_UpdateTime st < currTime then do {
        st \<leftarrow> for_each (UserSession_DoUpdate e currTime) (om_usedList (sm_objects st)) st;
        let (rel, st) = SwapReleaseList st;
        st \<leftarrow> for_each UserSession_Release rel st;
        st \<leftarrow> for_each (\<lambda>a st. do { st \<leftarrow> DelUserSessionMap a st; Some (SetFreeSession a st) }) rel st;
        Some (st\<lparr>sm_UpdateTime := timeNow + MILLISEC_A_SEC * 5\<rparr>) }
      else Some st)"

subsection \<open>Commands\<close>

fun queue_broadcast :: "bytes \<Rightarrow> u32 \<Rightarrow> u64 list \<Rightarrow> server \<Rightarrow> server option" where
  "queue_broadcast buf n [] st = Some st"
| "queue_broadcast buf n (t # ts) st = do {
     c \<leftarrow> new_packet_copy t buf n;
     queue_broadcast buf n ts (add_cmd c st) }"

definition PacketBroadcast :: "addr \<Rightarrow> bytes \<Rightarrow> u32 \<Rightarrow> server \<Rightarrow> server option" where
  "PacketBroadcast z buf n st = do {
     ts \<leftarrow> broadcast_tokens (session_deref st) (characterMap (zones (zoneMgr st) z));
     queue_broadcast buf n ts st }"

text \<open>
  The loop of \<open>SendCharacterList::Operator\<close>: the packet that is being filled is carried along.
\<close>

fun send_list :: "svr_env \<Rightarrow> u64 \<Rightarrow> CharacterDbData list \<Rightarrow> SC_P_ENTER_CHARACTER_LIST \<Rightarrow> server \<Rightarrow>
    (SC_P_ENTER_CHARACTER_LIST \<times> server) option" where
  "send_list e token [] p st = Some (p, st)"
| "send_list e token (d # ds) p st = do {
     (full, p) \<leftarrow> CHARACTER_LIST_SetData p d;
     if full then do {
       c \<leftarrow> new_packet_to e token (P_SC_LIST p);
       send_list e token ds (CHARACTER_LIST_Reset p) (add_cmd c st) }
     else send_list e token ds p st }"

fun Operator :: "svr_env \<Rightarrow> command \<Rightarrow> server \<Rightarrow> server option" where
  "Operator e (SendBroadcastToAllUser zid buf n) st =
     (case GetZone (zoneMgr st) zid of None \<Rightarrow> Some st | Some z \<Rightarrow> PacketBroadcast z buf n st)"
| "Operator e (SendPacketToUser token buf n) st =
     (case GetUserSession st token of
        None \<Rightarrow> Some st
      | Some a \<Rightarrow> do { (r, st) \<leftarrow> SendPacket_buffer e st a buf n; Some st })"
| "Operator e (EnterCharacter token zid x y) st =
     (case GetUserSession st token of
        None \<Rightarrow> Some st
      | Some a \<Rightarrow> do {
          zm \<leftarrow> ZoneMgr_EnterCharacter (session_deref st) (e_base e) (zoneMgr st) zid a;
          let st = st\<lparr>zoneMgr := zm\<rparr>;
          c \<leftarrow> new_broadcast e zid (P_SC_ENTER (SC_P_ENTER_SetPos SC_P_ENTER token x y));
          Some (add_cmd (SendCharacterList token zid) (add_cmd c st)) })"
| "Operator e (LeaveCharacter token zid) st = do {
     st \<leftarrow> (case GetUserSession st token of
              None \<Rightarrow> Some st
            | Some a \<Rightarrow> do {
                us \<leftarrow> sessions st a;
                Some (upd_session st a (us\<lparr>nub := Character_ResetPos (nub us)\<rparr>)) });
     let st = st\<lparr>zoneMgr := ZoneMgr_LeaveCharacter (zoneMgr st) zid token\<rparr>;
     c \<leftarrow> new_broadcast e zid (P_SC_LEAVE (SC_P_LEAVE_SetToken SC_P_LEAVE token));
     Some (add_cmd c st) }"
| "Operator e (SendCharacterList token zid) st =
     (case GetUserSession st token of
        None \<Rightarrow> Some st
      | Some a \<Rightarrow> (case GetZone (zoneMgr st) zid of
            None \<Rightarrow> Some st
          | Some z \<Rightarrow> do {
              ds \<leftarrow> GetCharacterDbList (session_deref st) (characterMap (zones (zoneMgr st) z)) token;
              (p, st) \<leftarrow> send_list e token ds SC_P_ENTER_CHARACTER_LIST st;
              if 0 < sint (list_count p) then do {
                c \<leftarrow> new_packet_to e token (P_SC_LIST p);
                Some (add_cmd c st) }
              else Some st }))"

definition server_Tick :: "svr_env \<Rightarrow> server \<Rightarrow> server option" where
  "server_Tick e = Tick commandQueue (\<lambda>q st. st\<lparr>commandQueue := q\<rparr>) (Operator e)"

subsection \<open>Handlers\<close>

text \<open>Each handler works on the session at \<open>a\<close>; a handler on a destroyed session is undefined.\<close>

definition C2S_Auth :: "svr_env \<Rightarrow> addr \<Rightarrow> server \<Rightarrow> CS_P_AUTH \<Rightarrow> (bool \<times> server) option" where
  "C2S_Auth e a st packet = do {
     us \<leftarrow> sessions st a;
     let serial = unique_id st + 1;
     let token = e_time e * 10000 + serial;
     let us = us\<lparr>nub := Character_SetToken (Character_SetId (nub us) (auth_id packet)) token\<rparr>;
     let st = (upd_session st a us)\<lparr>unique_id := serial\<rparr>;
     st \<leftarrow> AddUserSessionMap a st;
     (r, st) \<leftarrow> SendPacket e st a
       (P_SC_AUTH_RESULT (SC_P_AUTH_RESULT_SetToken SC_P_AUTH_RESULT (auth_id packet) token));
     Some (True, st) }"

definition C2S_Enter :: "svr_env \<Rightarrow> addr \<Rightarrow> server \<Rightarrow> CS_P_ENTER \<Rightarrow> (bool \<times> server) option" where
  "C2S_Enter e a st packet = do {
     us \<leftarrow> sessions st a;
     let zid = 1; let x = of_nat (e_rand1 e mod 1000); let y = of_nat (e_rand2 e mod 1000);
     let token = ch_token (nub us);
     let st = upd_session st a (us\<lparr>nub := Character_SetPos3 (nub us) zid x y\<rparr>);
     Some (True, add_cmd (EnterCharacter token zid x y) st) }"

definition C2S_LEAVE :: "svr_env \<Rightarrow> addr \<Rightarrow> server \<Rightarrow> CS_P_LEAVE \<Rightarrow> (bool \<times> server) option" where
  "C2S_LEAVE e a st packet = do {
     us \<leftarrow> sessions st a;
     Some (True, add_cmd (LeaveCharacter (ch_token (nub us)) (zoneId (ch_pos (nub us)))) st) }"

definition C2S_Move :: "svr_env \<Rightarrow> addr \<Rightarrow> server \<Rightarrow> CS_P_MOVE \<Rightarrow> (bool \<times> server) option" where
  "C2S_Move e a st packet = do {
     us \<leftarrow> sessions st a;
     let token = ch_token (nub us);
     let us = us\<lparr>nub := Character_SetPos2 (nub us) (move_x packet) (move_y packet)\<rparr>;
     let st = upd_session st a us;
     c \<leftarrow> new_broadcast e (zoneId (ch_pos (nub us)))
       (P_SC_MOVE (SC_P_MOVE_SetPos SC_P_MOVE token (move_x packet) (move_y packet)));
     Some (True, add_cmd c st) }"

definition C2S_Heartbeat :: "svr_env \<Rightarrow> addr \<Rightarrow> server \<Rightarrow> packet_body \<Rightarrow> (bool \<times> server) option" where
  "C2S_Heartbeat e a st packet = do {
     us \<leftarrow> sessions st a;
     Some (True, upd_session st a (us\<lparr>us_HeartbeatCount := us_HeartbeatCount us - 1\<rparr>)) }"

definition C2S_Interaction :: "svr_env \<Rightarrow> addr \<Rightarrow> server \<Rightarrow> CS_P_INTERACTION \<Rightarrow> (bool \<times> server) option" where
  "C2S_Interaction e a st packet = do {
     us \<leftarrow> sessions st a;
     c \<leftarrow> new_broadcast e (zoneId (ch_pos (nub us)))
       (P_SC_INTERACTION (SC_P_INTERACTION_SetInteraction SC_P_INTERACTION (ch_token (nub us))
          (targetToken packet) (interactionType packet)));
     Some (True, add_cmd c st) }"

text \<open>
  \<open>C2S_Echo\<close> prints the array as a C string: without a zero byte in it the read runs past its end.
\<close>

definition C2S_Echo :: "svr_env \<Rightarrow> addr \<Rightarrow> server \<Rightarrow> CS_P_ECHO \<Rightarrow> (bool \<times> server) option" where
  "C2S_Echo e a st packet = do {
     us \<leftarrow> sessions st a;
     if 0 \<notin> set (echoData packet) then None
     else do {
       p \<leftarrow> SC_P_ECHO_SetData SC_P_ECHO (ch_token (nub us)) (echoData packet) (echoDataSize packet);
       c \<leftarrow> new_broadcast e (zoneId (ch_pos (nub us))) (P_SC_ECHO p);
       Some (True, add_cmd c st) } }"

definition RegisterPacketHandlers :: "svr_env \<Rightarrow> addr \<Rightarrow> server packet_handler option" where
  "RegisterPacketHandlers e a = (let j = e_junk e in do {
     h \<leftarrow> Register (PacketHandler (unat (c2s_code C2S_Max))) (c2s_code C2S_auth)
            (PacketFunctor_Execute j (pack_with CS_P_AUTH_Serialize) CS_P_AUTH (C2S_Auth e a));
     h \<leftarrow> Register h (c2s_code C2S_enter)
            (PacketFunctor_Execute j (pack_with CS_P_ENTER_Serialize) CS_P_ENTER (C2S_Enter e a));
     h \<leftarrow> Register h (c2s_code C2S_leave)
            (PacketFunctor_Execute j (pack_with CS_P_LEAVE_Serialize) CS_P_LEAVE (C2S_LEAVE e a));
     h \<leftarrow> Register h (c2s_code C2S_move)
            (PacketFunctor_Execute j (pack_with CS_P_MOVE_Serialize) CS_P_MOVE (C2S_Move e a));
     h \<leftarrow> Register h (c2s_code C2S_heartbeat)
            (PacketFunctor_Execute j (pack_with CS_P_HEARTBEAT_Serialize) CS_P_HEARTBEAT (C2S_Heartbeat e a));
     h \<leftarrow> Register h (c2s_code C2S_interaction)
            (PacketFunctor_Execute j (pack_with CS_P_INTERACTION_Serialize) CS_P_INTERACTION (C2S_Interaction e a));
     Register h (c2s_code C2S_echo)
            (PacketFunctor_Execute j (pack_with CS_P_ECHO_Serialize) CS_P_ECHO (C2S_Echo e a)) })"

text \<open>
  \<open>MessageProcess\<close>: the buffer and its length; the signed length is compared as an unsigned one.
\<close>

definition MessageProcess :: "svr_env \<Rightarrow> addr \<Rightarrow> server \<Rightarrow> bytes \<Rightarrow> u32 \<Rightarrow> (bool \<times> server) option" where
  "MessageProcess e a st pData nLen =
     (if 8 > unat (scast nLen :: u64) then Some (False, st)
      else do {
        hd \<leftarrow> mem_read pData 0 8;
        let dwPacketLength = ui32Length (head_of hd) - 8 - 12;
        h \<leftarrow> RegisterPacketHandlers e a;
        PacketHandler_Execute (e_junk e) h (drop 8 pData) dwPacketLength st })"

subsection \<open>The process thread\<close>

text \<open>
  One round of \<open>ProcessThread\<close> after \<open>Pop\<close> returned a packet.  The variable \<open>pConnector\<close> survives from
  the previous round; a failed tail check disconnects it.
\<close>

definition ProcessThread_round :: "svr_env \<Rightarrow> server \<Rightarrow> PacketStruct \<Rightarrow> server option" where
  "ProcessThread_round e st pPacket = do {
     hd \<leftarrow> mem_read (pBuffer pPacket) 0 8;
     let off = uint (ui32Length (head_of hd)) - 12;
     tl \<leftarrow> (if off < 0 then None else mem_read (pBuffer pPacket) (nat off) 4);
     let st = (if PACKET_CHECK_TAIL_KEY \<noteq> le_word tl
               then st\<lparr>net := snd (Disconnect (net st) (loop_pConnector st))\<rparr> else st);
     let st = st\<lparr>loop_pConnector := ps_pConnector pPacket\<rparr>;
     (case ps_pConnector pPacket of
        None \<Rightarrow> Some st
      | Some c \<Rightarrow>
          (case cn_param (connectors (net st) c) of
             Some a \<Rightarrow> do {
               (r, st) \<leftarrow> MessageProcess e a st (pBuffer pPacket) (nDataSize pPacket);
               Some st }
           | None \<Rightarrow>
               (case GetFreeSession (e_base e) st of (a, st) \<Rightarrow> do {
                  let nt = upd_connector (net st) c ((connectors (net st) c)\<lparr>cn_param := Some a\<rparr>);
                  let st = st\<lparr>net := nt\<rparr>;
                  us \<leftarrow> sessions st a;
                  let st = upd_session st a (us\<lparr>us_pConnector := Some c\<rparr>);
                  (r, st) \<leftarrow> MessageProcess e a st (pBuffer pPacket) (nDataSize pPacket);
                  Some st }))) }"

text \<open>One round of \<open>UpdateThread\<close>: \<open>next\<close> is its local timer for the session manager.\<close>

definition UpdateThread_round :: "svr_env \<Rightarrow> int \<Rightarrow> int \<Rightarrow> int \<times> server \<Rightarrow> (int \<times> server) option" where
  "UpdateThread_round e biCurrTime timeNow = (\<lambda>(next, st). do {
     (next, st) \<leftarrow> (if next < biCurrTime then do {
                st \<leftarrow> UserSessionMgr_DoUpdate e biCurrTime timeNow st;
                Some (biCurrTime + MILLISEC_A_SEC, st) }
              else Some (next, st));
     st \<leftarrow> server_Tick e st;
     Some (next, st) })"

subsection \<open>What a sender puts on the wire\<close>

definition s2c_frame :: "u32 \<Rightarrow> s2c_packet \<Rightarrow> bytes" where
  "s2c_frame now p = frame (s2c_image p) 0 now"

lemma length_s2c_frame: "s2c_valid p \<Longrightarrow> length (s2c_frame now p) \<le> max_packet \<and> 24 \<le> length (s2c_frame now p)"
  using s2c_image_fits [of p] s2c_image_type [of p] by (simp add: s2c_frame_def)

lemma make_send_buffer_ok:
  assumes "s2c_valid p"
  shows "\<exists>buf n. make_send_buffer junk now p = Some (buf, n) \<and> length buf = max_packet \<and>
    unat n = length (s2c_frame now p) \<and> take (unat n) buf = s2c_frame now p"
proof -
  obtain s where s: "s2c_collect (Serializer_send junk) p = Some s" "ser_out s (s2c_image p)"
    using s2c_collect_ok [OF assms] by blast
  have d: "take (unat (nDataSize s)) (pBuffer s) = s2c_image p" "unat (nDataSize s) = length (s2c_image p)"
    "unat (nDataSize s) \<le> length (pBuffer s)"
    using ser_out_data [OF s(2)] by auto
  have f: "length (s2c_image p) + 20 \<le> max_packet" by (rule s2c_image_fits [OF assms])
  obtain out where out: "MakeNetworkPacket (pBuffer s) (nDataSize s) (replicate max_packet 0)
      MAX_PACKET_BUFFER_SIZE 0 now = Some (succ, out, nDataSize s + 20)"
    "unat (nDataSize s + 20) = unat (nDataSize s) + 20" "length out = max_packet"
    "take (unat (nDataSize s) + 20) out = frame (take (unat (nDataSize s)) (pBuffer s)) 0 now"
    using MakeNetworkPacket_ok [of "nDataSize s" "pBuffer s" MAX_PACKET_BUFFER_SIZE "replicate max_packet 0" 0 now]
      d f by auto
  have "make_send_buffer junk now p = Some (out, nDataSize s + 20)"
    using s(1) out(1) by (simp add: make_send_buffer_def)
  then show ?thesis using out(2,3,4) d(1,2) by (simp add: s2c_frame_def)
qed

subsection \<open>Dispatch\<close>

fun c2s_handle :: "svr_env \<Rightarrow> addr \<Rightarrow> server \<Rightarrow> c2s_packet \<Rightarrow> (bool \<times> server) option" where
  "c2s_handle e a st (P_CS_AUTH p) = C2S_Auth e a st p"
| "c2s_handle e a st (P_CS_ENTER p) = C2S_Enter e a st p"
| "c2s_handle e a st (P_CS_LEAVE p) = C2S_LEAVE e a st p"
| "c2s_handle e a st (P_CS_MOVE p) = C2S_Move e a st p"
| "c2s_handle e a st (P_CS_INTERACTION p) = C2S_Interaction e a st p"
| "c2s_handle e a st (P_CS_HEARTBEAT p) = C2S_Heartbeat e a st p"
| "c2s_handle e a st (P_CS_ECHO p) = C2S_Echo e a st p"

lemma server_handlers:
  "\<exists>h. RegisterPacketHandlers e a = Some h \<and>
     packetFunctors h = map (c2s_functor (e_junk e) (c2s_handle e a))
       [C2S_invalid, C2S_auth, C2S_enter, C2S_leave, C2S_move, C2S_interaction, C2S_heartbeat, C2S_echo]"
proof -
  have rep: "replicate 8 x = [x, x, x, x, x, x, x, x]" for x :: "server packet_functor option"
    by (simp add: numeral_eq_Suc)
  show ?thesis
    by (simp add: RegisterPacketHandlers_def Register_def PacketHandler_def Let_def rep list_update_numeral)
qed

lemma c2s_handler_at:
  "RegisterPacketHandlers e a = Some h \<Longrightarrow>
   unat (c2s_code (c2s_tag p)) < length (packetFunctors h) \<and>
   packetFunctors h ! unat (c2s_code (c2s_tag p)) = c2s_functor (e_junk e) (c2s_handle e a) (c2s_tag p)"
  using server_handlers [of e a] by (cases p) auto

lemma MessageProcess_dispatch:
  assumes v: "c2s_valid p" and n: "unat nLen = length (c2s_image p) + 20"
  shows "MessageProcess e a st (frame (c2s_image p) seq now @ rest) nLen = c2s_handle e a st p"
proof -
  let ?i = "c2s_image p" and ?d = "frame (c2s_image p) seq now @ rest"
  have fits: "length ?i + 20 \<le> max_packet" using c2s_image_fits [OF v] .
  obtain h where h: "RegisterPacketHandlers e a = Some h" using server_handlers by blast
  have len: "ui32Length (head_of (take 8 ?d)) - 8 - 12 = of_nat (length ?i)"
    unfolding head_of_take [OF order_refl] head_of_frame by simp
  have rd: "mem_read ?d 0 8 = Some (take 8 ?d)" by (subst mem_read_Some) simp_all
  have u: "unat (of_nat (length ?i) :: u32) = length ?i" using fits by (simp add: unat_of_nat)
  obtain tl where tl: "drop 8 ?d = ?i @ tl" by (simp add: frame_def)
  have ty: "body_type (?i @ tl) (of_nat (length ?i)) = c2s_code (c2s_tag p)"
    using c2s_image_type [OF v] u fits by (simp add: body_type_def)
  obtain pf where pf: "c2s_functor (e_junk e) (c2s_handle e a) (c2s_tag p) = Some pf"
    "pf (?i @ tl) (of_nat (length ?i)) st = c2s_handle e a st p"
    using c2s_functor_ok [OF v u, of "e_junk e" "c2s_handle e a" tl st] by blast
  have small: "\<not> 8 > unat (scast nLen :: u64)" using unat_scast_nonneg [of nLen] n fits by simp
  have "PacketHandler_Execute (e_junk e) h (?i @ tl) (of_nat (length ?i)) st = c2s_handle e a st p"
    using PacketHandler_Execute_eq [of "of_nat (length ?i)" "?i @ tl" "e_junk e" h st] u ty
      c2s_handler_at [OF h, of p] pf by simp
  then show ?thesis
    unfolding MessageProcess_def using small h by (simp only: rd bind.bind_lunit if_False Let_def len tl)
qed

subsection \<open>The command queue of the server\<close>

lemma cmds_add_cmd [simp]: "cmds (commandQueue (add_cmd c st)) = cmds (commandQueue st) @ [c]"
  by (simp add: add_cmd_def Add_def)

lemma cmds_upd_session [simp]: "commandQueue (upd_session st a us) = commandQueue st"
  by (simp add: upd_session_def)

lemma SendPacket_buffer_queue:
  "SendPacket_buffer e st a buf n = Some (r, st') \<Longrightarrow> commandQueue st' = commandQueue st"
  by (auto simp: SendPacket_buffer_def Option.bind_eq_Some_conv)

lemma queue_broadcast_appends:
  "queue_broadcast buf n ts st = Some st' \<Longrightarrow> \<exists>new. cmds (commandQueue st') = cmds (commandQueue st) @ new"
proof (induction ts arbitrary: st)
  case (Cons t ts)
  then obtain c where "queue_broadcast buf n ts (add_cmd c st) = Some st'"
    by (auto simp: Option.bind_eq_Some_conv)
  from Cons.IH [OF this] show ?case by auto
qed simp

lemma send_list_appends:
  "send_list e token ds p st = Some (p', st') \<Longrightarrow> \<exists>new. cmds (commandQueue st') = cmds (commandQueue st) @ new"
proof (induction ds arbitrary: p st)
  case (Cons d ds)
  then obtain full p1 where p1: "CHARACTER_LIST_SetData p d = Some (full, p1)"
    by (auto simp: Option.bind_eq_Some_conv)
  show ?case
  proof (cases full)
    case True
    then obtain c where "send_list e token ds (CHARACTER_LIST_Reset p1) (add_cmd c st) = Some (p', st')"
      using Cons.prems p1 by (auto simp: Option.bind_eq_Some_conv)
    from Cons.IH [OF this] show ?thesis by auto
  next
    case False
    then show ?thesis using Cons p1 by simp
  qed
qed simp

lemma Operator_appends:
  assumes "Operator e c st = Some st'"
  shows "\<exists>new. cmds (commandQueue st') = cmds (commandQueue st) @ new"
proof (cases c)
  case (SendBroadcastToAllUser zid buf n)
  then show ?thesis
    using assms queue_broadcast_appends
    by (fastforce simp: PacketBroadcast_def Option.bind_eq_Some_conv split: option.splits)
next
  case (SendPacketToUser token buf n)
  then show ?thesis
    using assms SendPacket_buffer_queue by (fastforce simp: Option.bind_eq_Some_conv split: option.splits)
next
  case (EnterCharacter token zid x y)
  then show ?thesis
    using assms by (auto simp: Option.bind_eq_Some_conv Let_def split: option.splits)
next
  case (LeaveCharacter token zid)
  then show ?thesis
    using assms by (auto simp: Option.bind_eq_Some_conv Let_def split: option.splits)
next
  case (SendCharacterList token zid)
  then show ?thesis
    using assms
    by (auto simp: Option.bind_eq_Some_conv split: option.splits if_splits dest!: send_list_appends)
qed

interpretation svr: command_host commandQueue "\<lambda>q st. st\<lparr>commandQueue := q\<rparr>" "Operator e"
  for e
  by unfold_locales (simp, rule Operator_appends)

subsection \<open>Broadcasting\<close>

lemma new_packet_copy_ok:
  assumes "unat n \<le> max_packet" and "unat n \<le> length buf"
  shows "new_packet_copy token buf n =
    Some (SendPacketToUser token (take (unat n) buf @ replicate (max_packet - unat n) 0) n)"
  using assms by (simp add: new_packet_copy_def mem_simps)

lemma queue_broadcast_ok:
  assumes "unat n \<le> max_packet" and "unat n \<le> length buf"
  shows "\<exists>st'. queue_broadcast buf n ts st = Some st' \<and>
    cmds (commandQueue st') = cmds (commandQueue st) @
      map (\<lambda>t. SendPacketToUser t (take (unat n) buf @ replicate (max_packet - unat n) 0) n) ts \<and>
    st' = st\<lparr>commandQueue := commandQueue st'\<rparr>"
proof (induction ts arbitrary: st)
  case (Cons t ts)
  then show ?case
    using new_packet_copy_ok [OF assms, of t]
      Cons.IH [of "add_cmd (SendPacketToUser t (take (unat n) buf @ replicate (max_packet - unat n) 0) n) st"]
    by (auto simp: add_cmd_def Add_def)
qed simp

text \<open>The members of a zone are live sessions, known to the session manager under their tokens.\<close>

definition zone_consistent :: "server \<Rightarrow> u32 \<Rightarrow> bool" where
  "zone_consistent st zid \<longleftrightarrow> all_live (session_deref st) (members (zoneMgr st) zid) \<and>
     (\<forall>(k, a) \<in> set (members (zoneMgr st) zid). map_of (userMap st) k = Some a)"

lemma broadcast_queues:
  assumes "zone_consistent st zid" and "unat n \<le> max_packet" and "unat n \<le> length buf"
  shows "\<exists>st' ts. Operator e (SendBroadcastToAllUser zid buf n) st = Some st' \<and>
    map sint ts = map fst (members (zoneMgr st) zid) \<and>
    cmds (commandQueue st') = cmds (commandQueue st) @
      map (\<lambda>t. SendPacketToUser t (take (unat n) buf @ replicate (max_packet - unat n) 0) n) ts \<and>
    st' = st\<lparr>commandQueue := commandQueue st'\<rparr>"
proof (cases "GetZone (zoneMgr st) zid")
  case None
  then show ?thesis by (simp add: members_def)
next
  case (Some z)
  then have m: "members (zoneMgr st) zid = characterMap (zones (zoneMgr st) z)" by (simp add: members_def)
  obtain ts where ts: "broadcast_tokens (session_deref st) (characterMap (zones (zoneMgr st) z)) = Some ts"
    "map sint ts = map fst (members (zoneMgr st) zid)"
    using broadcast_tokens_live [of "session_deref st" "members (zoneMgr st) zid"] assms(1) m
    by (auto simp: zone_consistent_def)
  show ?thesis
    using Some ts queue_broadcast_ok [OF assms(2,3), of ts st] by (auto simp: PacketBroadcast_def)
qed

lemma Write_other:
  "Write junk w nt (Some a) data n = Some (r, nt') \<Longrightarrow> b \<noteq> a \<Longrightarrow> connectors nt' b = connectors nt b"
  by (auto simp: Write_def issue_send_def Let_def Option.bind_eq_Some_conv split: if_splits prod.splits)

definition session_conn :: "server \<Rightarrow> int \<Rightarrow> addr option" where
  "session_conn st k = do { a \<leftarrow> map_of (userMap st) k; us \<leftarrow> sessions st a; us_pConnector us }"

abbreviation conn_out :: "server \<Rightarrow> addr \<Rightarrow> bytes" where
  "conn_out st c \<equiv> outstanding (connectors (net st) c)"

lemma Operator_SendPacketToUser:
  assumes c: "session_conn st (sint t) = Some c" and live: "send_live (connectors (net st) c)"
    and n: "0 < unat n" "unat n \<le> max_packet" "unat n \<le> length buf" and w: "e_wsa e \<noteq> WSA_FAILED"
  shows "\<exists>nt. Operator e (SendPacketToUser t buf n) st = Some (st\<lparr>net := nt\<rparr>) \<and>
    send_live (connectors nt c) \<and> outstanding (connectors nt c) = conn_out st c @ take (unat n) buf \<and>
    (\<forall>d. d \<noteq> c \<longrightarrow> connectors nt d = connectors (net st) d)"
proof -
  obtain a us where a: "GetUserSession st t = Some a" "sessions st a = Some us" "us_pConnector us = Some c"
    using c by (auto simp: session_conn_def GetUserSession_def Option.bind_eq_Some_conv)
  obtain nt where nt: "Write (e_junk e) (e_wsa e) (net st) (Some c) (Some buf) n = Some (succ, nt)"
    "send_live (connectors nt c)" "outstanding (connectors nt c) = conn_out st c @ take (unat n) buf"
    using Write_live [OF live n w] by blast
  then show ?thesis
    using a Write_other [OF nt(1)] by (intro exI [of _ nt]) (simp add: SendPacket_buffer_def)
qed

text \<open>The connectors of a list of users: all there, all healthy, no two the same.\<close>

definition reachable_users :: "server \<Rightarrow> int list \<Rightarrow> bool" where
  "reachable_users st ks \<longleftrightarrow> distinct (map (session_conn st) ks) \<and>
     (\<forall>k \<in> set ks. \<exists>c. session_conn st k = Some c \<and> send_live (connectors (net st) c))"

lemma session_conn_net [simp]: "session_conn (st\<lparr>net := nt\<rparr>) = session_conn st"
  "session_conn (st\<lparr>commandQueue := q\<rparr>) = session_conn st"
  by (simp_all add: session_conn_def fun_eq_iff)

lemma deliver_to_all:
  assumes n: "0 < unat n" "unat n \<le> max_packet" "unat n \<le> length buf" and w: "e_wsa e \<noteq> WSA_FAILED"
  shows "reachable_users st (map sint ts) \<Longrightarrow>
    \<exists>nt. ProcessAll (Operator e) (map (\<lambda>t. SendPacketToUser t buf n) ts) st = Some (st\<lparr>net := nt\<rparr>) \<and>
      (\<forall>c. outstanding (connectors nt c) =
        conn_out st c @ (if Some c \<in> session_conn st ` set (map sint ts) then take (unat n) buf else []))"
proof (induction ts arbitrary: st)
  case Nil
  then show ?case by (intro exI [of _ "net st"]) simp
next
  case (Cons t ts)
  obtain c where c: "session_conn st (sint t) = Some c" "send_live (connectors (net st) c)"
    using Cons.prems by (auto simp: reachable_users_def)
  obtain nt1 where nt1: "Operator e (SendPacketToUser t buf n) st = Some (st\<lparr>net := nt1\<rparr>)"
    "outstanding (connectors nt1 c) = conn_out st c @ take (unat n) buf"
    "\<forall>d. d \<noteq> c \<longrightarrow> connectors nt1 d = connectors (net st) d"
    using Operator_SendPacketToUser [OF c n w] by blast
  have fresh: "Some c \<notin> session_conn st ` set (map sint ts)"
    using Cons.prems c(1) by (auto simp: reachable_users_def)
  have ru: "reachable_users (st\<lparr>net := nt1\<rparr>) (map sint ts)"
    unfolding reachable_users_def
  proof (intro conjI ballI)
    show "distinct (map (session_conn (st\<lparr>net := nt1\<rparr>)) (map sint ts))"
      using Cons.prems by (simp add: reachable_users_def)
    fix k assume k: "k \<in> set (map sint ts)"
    obtain d where d: "session_conn st k = Some d" "send_live (connectors (net st) d)"
      using Cons.prems k by (auto simp: reachable_users_def)
    then have "d \<noteq> c" using fresh k by (metis image_eqI)
    then show "\<exists>d. session_conn (st\<lparr>net := nt1\<rparr>) k = Some d \<and> send_live (connectors (net (st\<lparr>net := nt1\<rparr>)) d)"
      using d nt1(3) by simp
  qed
  obtain nt where nt: "ProcessAll (Operator e) (map (\<lambda>t. SendPacketToUser t buf n) ts) (st\<lparr>net := nt1\<rparr>) =
      Some (st\<lparr>net := nt1, net := nt\<rparr>)"
    "\<forall>d. outstanding (connectors nt d) = outstanding (connectors nt1 d) @
      (if Some d \<in> session_conn st ` set (map sint ts) then take (unat n) buf else [])"
    using Cons.IH [OF ru] by auto
  have "outstanding (connectors nt d) = conn_out st d @
      (if Some d \<in> session_conn st ` set (map sint (t # ts)) then take (unat n) buf else [])" for d
    using nt(2) nt1(2,3) fresh c(1) by (cases "d = c") auto
  then show ?case using nt1(1) nt(1) by (intro exI [of _ nt]) simp
qed

end
