(* ===== verification/Server_Props.thy ===== *)
theory Server_Props
  imports Server
begin

text \<open>
  What the server does with client packets: dispatch, what reaches the other players of a zone, the
  life of a session, and the paths on which the server leaves defined behaviour.
\<close>

subsection \<open>Reading a frame\<close>

text \<open>What the process threads read from a packet that holds a frame.\<close>

lemma frame_packet_read:
  assumes pb: "packet_bytes pk = frame body seq now" and n: "unat (nDataSize pk) \<le> length (pBuffer pk)"
    and fits: "length body + 20 \<le> max_packet"
  shows "\<exists>rest tl. pBuffer pk = frame body seq now @ rest \<and> unat (nDataSize pk) = length body + 20 \<and>
    mem_read (pBuffer pk) 0 8 = Some (take 8 (pBuffer pk)) \<and>
    uint (ui32Length (head_of (take 8 (pBuffer pk)))) - 12 = int (length body + 8) \<and>
    mem_read (pBuffer pk) (length body + 8) 4 = Some tl \<and> le_word tl = PACKET_CHECK_TAIL_KEY"
proof -
  define rest where "rest = drop (unat (nDataSize pk)) (pBuffer pk)"
  have b: "pBuffer pk = frame body seq now @ rest"
    using pb append_take_drop_id [of "unat (nDataSize pk)" "pBuffer pk"] by (simp add: packet_bytes_def rest_def)
  have len: "unat (nDataSize pk) = length body + 20"
    using pb n length_frame [of body seq now] by (metis length_take min.absorb2 packet_bytes_def)
  have hd: "head_of (take 8 (pBuffer pk)) = \<lparr>ui32CheckHead = PACKET_CHECK_HEAD_KEY, ui32Length = of_nat (length body + 20)\<rparr>"
    unfolding head_of_take [OF order_refl] b by (rule head_of_frame)
  have u: "unat (of_nat (length body + 20) :: u32) = length body + 20" using fits unat_len20 [of "length body"] by simp
  have off: "uint (ui32Length (head_of (take 8 (pBuffer pk)))) - 12 = int (length body + 8)"
    unfolding hd packet_head.simps uint_nat u by simp
  let ?tl = "take 4 (drop (length body + 8) (pBuffer pk))"
  have "le_word ?tl = ui32CheckTail (tail_of (drop (length body + 8) (pBuffer pk)))" by (simp add: tail_of_def)
  also have "\<dots> = PACKET_CHECK_TAIL_KEY" unfolding b frame_parts(2) by simp
  finally have "le_word ?tl = PACKET_CHECK_TAIL_KEY" .
  moreover have "mem_read (pBuffer pk) (length body + 8) 4 = Some ?tl" "mem_read (pBuffer pk) 0 8 = Some (take 8 (pBuffer pk))"
    by (simp_all add: mem_read_def b)
  ultimately show ?thesis using b len off by blast
qed

subsection \<open>Two ticks deliver a broadcast\<close>

lemma server_Tick_eq:
  "server_Tick e st = ProcessAll (Operator e) (cmds (commandQueue st)) (st\<lparr>commandQueue := CommandUnitQueue\<rparr>)"
proof -
  have "(commandQueue st)\<lparr>cmds := []\<rparr> = CommandUnitQueue"
    by (cases "commandQueue st") (simp add: CommandUnitQueue_def)
  then show ?thesis by (simp add: server_Tick_def svr.Tick_eq)
qed

lemma session_deref_cong: "session_deref (st\<lparr>net := nt\<rparr>) = session_deref st"
  "session_deref (st\<lparr>commandQueue := q\<rparr>) = session_deref st"
  by (simp_all add: session_deref_def fun_eq_iff)

lemma members_cong:
  "zone_consistent (st\<lparr>commandQueue := q\<rparr>) zid = zone_consistent st zid"
  "reachable_users (st\<lparr>commandQueue := q\<rparr>) ks = reachable_users st ks"
  by (simp_all add: session_deref_cong zone_consistent_def reachable_users_def)

lemma broadcast_two_ticks:
  assumes v: "s2c_valid p" and zc: "zone_consistent st zid"
    and ru: "reachable_users st (map fst (members (zoneMgr st) zid))"
    and q: "cmds (commandQueue st) = []" and w: "e_wsa e \<noteq> WSA_FAILED"
    and c: "new_broadcast e zid p = Some c"
  shows "\<exists>st1 st2. server_Tick e (add_cmd c st) = Some st1 \<and> server_Tick e st1 = Some st2 \<and>
    (\<forall>d. conn_out st2 d = conn_out st d @
       (if Some d \<in> session_conn st ` fst ` set (members (zoneMgr st) zid) then s2c_frame (e_now e) p else [])) \<and>
    sessions st2 = sessions st \<and> userMap st2 = userMap st \<and> zoneMgr st2 = zoneMgr st \<and>
    cmds (commandQueue st2) = []"
proof -
  obtain buf n where buf: "make_send_buffer (e_junk e) (e_now e) p = Some (buf, n)" "length buf = max_packet"
    "unat n = length (s2c_frame (e_now e) p)" "take (unat n) buf = s2c_frame (e_now e) p"
    using make_send_buffer_ok [OF v] by blast
  have n: "0 < unat n" "unat n \<le> max_packet" "unat n \<le> length buf"
    using length_s2c_frame [OF v, of "e_now e"] buf(2,3) by auto
  have cc: "c = SendBroadcastToAllUser zid buf n" using c buf(1) by (simp add: new_broadcast_def)
  let ?s0 = "st\<lparr>commandQueue := CommandUnitQueue\<rparr>"
  let ?b = "take (unat n) buf @ replicate (max_packet - unat n) 0"
  have zc0: "zone_consistent ?s0 zid" and z0: "zoneMgr ?s0 = zoneMgr st"
    using zc by (simp_all add: members_cong)
  obtain st1 ts where t1: "Operator e c ?s0 = Some st1" "map sint ts = map fst (members (zoneMgr st) zid)"
    "cmds (commandQueue st1) = map (\<lambda>t. SendPacketToUser t ?b n) ts"
    "st1 = st\<lparr>commandQueue := commandQueue st1\<rparr>"
    using broadcast_queues [OF zc0 n(2,3), of e] unfolding cc z0 by (auto simp: CommandUnitQueue_def)
  have tick1: "server_Tick e (add_cmd c st) = Some st1"
    using t1(1) q by (simp add: server_Tick_eq add_cmd_def Add_def)
  have s1: "st1\<lparr>commandQueue := CommandUnitQueue\<rparr> = ?s0" by (subst t1(4)) simp
  have ru0: "reachable_users ?s0 (map sint ts)" using ru t1(2) by (simp add: members_cong)
  have nb: "unat n \<le> length ?b" using n by simp
  obtain nt where nt: "ProcessAll (Operator e) (map (\<lambda>t. SendPacketToUser t ?b n) ts) ?s0 = Some (?s0\<lparr>net := nt\<rparr>)"
    "\<forall>d. outstanding (connectors nt d) = conn_out st d @
      (if Some d \<in> session_conn st ` set (map sint ts) then take (unat n) ?b else [])"
    using deliver_to_all [OF n(1,2) nb w ru0] by auto
  have tick2: "server_Tick e st1 = Some (?s0\<lparr>net := nt\<rparr>)"
    unfolding server_Tick_eq t1(3) s1 by (rule nt(1))
  have "take (unat n) ?b = s2c_frame (e_now e) p" unfolding buf(4) using buf(3) by simp
  then show ?thesis
    using tick1 tick2 nt(2) t1(2)
    by (intro exI [of _ st1] exI [of _ "?s0\<lparr>net := nt\<rparr>"]) (simp add: CommandUnitQueue_def)
qed

lemma new_broadcast_total: "s2c_valid p \<Longrightarrow> \<exists>c. new_broadcast e zid p = Some c"
  using make_send_buffer_ok [of p "e_junk e" "e_now e"] by (auto simp: new_broadcast_def)

lemma upd_session_same_identity:
  assumes "sessions st a = Some us" and "ch_token (nub us') = ch_token (nub us)"
    and "us_pConnector us' = us_pConnector us"
  shows "zone_consistent (upd_session st a us') zid = zone_consistent st zid"
    "session_conn (upd_session st a us') = session_conn st"
    "reachable_users (upd_session st a us') ks = reachable_users st ks"
proof -
  have "all_live (session_deref (upd_session st a us')) m = all_live (session_deref st) m" for m
    using assms(1,2) by (force simp: all_live_def session_deref_def upd_session_def split: if_splits)
  then show "zone_consistent (upd_session st a us') zid = zone_consistent st zid"
    by (simp add: zone_consistent_def) (simp add: upd_session_def)
  show sc: "session_conn (upd_session st a us') = session_conn st"
  proof
    fix k
    show "session_conn (upd_session st a us') k = session_conn st k"
      using assms(1,3) by (cases "map_of (userMap st) k") (auto simp: session_conn_def upd_session_def)
  qed
  show "reachable_users (upd_session st a us') ks = reachable_users st ks"
    by (simp add: reachable_users_def sc) (simp add: upd_session_def)
qed

text \<open>Two players in zone 1, for concrete instances.\<close>

definition demo_user :: "u64 \<Rightarrow> addr \<Rightarrow> user_session" where
  "demo_user t c = (UserSession 1)\<lparr>us_pConnector := Some c,
     nub := \<lparr>ch_id = 0, ch_token = t, ch_pos = \<lparr>zoneId = 1, posX = 0, posY = 0\<rparr>\<rparr>\<rparr>"

definition demo_svr :: server where
  "demo_svr = \<lparr>net = demo_net 7, sessions = [0 \<mapsto> demo_user 5 0, 1 \<mapsto> demo_user 6 1],
     unique_session_uid = 2, sm_objects = ObjectMgrBase\<lparr>om_usedList := [0, 1]\<rparr>, releaseList = [],
     userMap = [(5, 0), (6, 1)], sm_UpdateTime = 0,
     zoneMgr = ZoneMgr\<lparr>zoneMap := [(1, 0)],
       zones := (\<lambda>a. \<lparr>zone_id = 1, characterMap = [(5, 0), (6, 1)]\<rparr>)\<rparr>,
     commandQueue = CommandUnitQueue, unique_id = 0, loop_pConnector = None\<rparr>"

definition demo_env :: svr_env where
  "demo_env = \<lparr>e_junk = (\<lambda>_. 0), e_now = 9, e_wsa = WSA_OK, e_time = 100, e_rand1 = 3, e_rand2 = 4, e_base = 50\<rparr>"

lemma demo_members: "members (zoneMgr demo_svr) 1 = [(5, 0), (6, 1)]"
  by (simp add: demo_svr_def members_def GetZone_def)

lemma demo_sessions:
  "sessions demo_svr 0 = Some (demo_user 5 0)" "sessions demo_svr 1 = Some (demo_user 6 1)"
  "session_conn demo_svr 5 = Some 0" "session_conn demo_svr 6 = Some 1"
  "cmds (commandQueue demo_svr) = []" "e_wsa demo_env \<noteq> WSA_FAILED" "net demo_svr = demo_net 7"
  by (simp_all add: demo_svr_def session_conn_def demo_user_def CommandUnitQueue_def demo_env_def)

lemma demo_consistent: "zone_consistent demo_svr 1" "reachable_users demo_svr (map fst (members (zoneMgr demo_svr) 1))"
proof -
  have s: "(7 :: SOCKET) \<noteq> INVALID_SOCKET" by (simp add: INVALID_SOCKET_def)
  show "zone_consistent demo_svr 1"
    by (simp add: zone_consistent_def demo_members all_live_def session_deref_def demo_sessions)
      (simp add: demo_svr_def demo_user_def)
  show "reachable_users demo_svr (map fst (members (zoneMgr demo_svr) 1))"
    using demo_net_ok(1) [OF s] by (simp add: reachable_users_def demo_members demo_sessions)
qed

lemma move_broadcast:
  assumes us: "sessions st a = Some us" "zid = zoneId (ch_pos (nub us))"
    and zc: "zone_consistent st zid" and ru: "reachable_users st (map fst (members (zoneMgr st) zid))"
    and q: "cmds (commandQueue st) = []" and w: "e_wsa e \<noteq> WSA_FAILED"
  shows "\<exists>st0 st1 st2 us'. C2S_Move e a st packet = Some (True, st0) \<and>
    server_Tick e st0 = Some st1 \<and> server_Tick e st1 = Some st2 \<and>
    sessions st2 a = Some us' \<and> posX (ch_pos (nub us')) = move_x packet \<and> posY (ch_pos (nub us')) = move_y packet \<and>
    (\<forall>d. conn_out st2 d = conn_out st d @
       (if Some d \<in> session_conn st ` fst ` set (members (zoneMgr st) zid)
        then s2c_frame (e_now e)
          (P_SC_MOVE (SC_P_MOVE_SetPos SC_P_MOVE (ch_token (nub us)) (move_x packet) (move_y packet)))
        else []))"
proof -
  define us' where "us' = us\<lparr>nub := Character_SetPos2 (nub us) (move_x packet) (move_y packet)\<rparr>"
  have id: "ch_token (nub us') = ch_token (nub us)" "us_pConnector us' = us_pConnector us"
    "zoneId (ch_pos (nub us')) = zid" "posX (ch_pos (nub us')) = move_x packet"
    "posY (ch_pos (nub us')) = move_y packet"
    using us(2) by (simp_all add: us'_def character_defs)
  let ?p = "P_SC_MOVE (SC_P_MOVE_SetPos SC_P_MOVE (ch_token (nub us)) (move_x packet) (move_y packet))"
  let ?st = "upd_session st a us'"
  have v: "s2c_valid ?p" by (simp add: sc_typed_def SC_P_MOVE_SetPos_def SC_P_MOVE_def)
  obtain c where c: "new_broadcast e zid ?p = Some c" using new_broadcast_total [OF v] by blast
  have step: "C2S_Move e a st packet = Some (True, add_cmd c ?st)"
    using us c by (simp add: C2S_Move_def Let_def us'_def character_defs)
  note same = upd_session_same_identity [OF us(1) id(1,2)]
  have z: "zoneMgr ?st = zoneMgr st" "net ?st = net st" "sessions ?st a = Some us'"
    "cmds (commandQueue ?st) = []"
    using q by (simp_all add: upd_session_def)
  obtain st1 st2 where "server_Tick e (add_cmd c ?st) = Some st1" "server_Tick e st1 = Some st2"
    "sessions st2 = sessions ?st"
    "\<forall>d. conn_out st2 d = conn_out st d @
       (if Some d \<in> session_conn st ` fst ` set (members (zoneMgr st) zid) then s2c_frame (e_now e) ?p else [])"
    using broadcast_two_ticks [OF v, of ?st zid e c] zc ru w c unfolding same z by blast
  then show ?thesis using step z(3) id by metis
qed

subsection \<open>Properties: dispatch and play\<close>

text \<open>
  Dispatch.  Every well-formed client packet, framed and handed to \<open>UserSession::MessageProcess\<close>
  with whatever lies behind it in the buffer, is given, field for field, to the handler registered for
  its type, and to no other.
\<close>

theorem client_packet_dispatched:
  assumes "c2s_valid p" and "unat nLen = length (c2s_image p) + 20"
  shows "MessageProcess e a st (frame (c2s_image p) seq now @ rest) nLen = c2s_handle e a st p"
  by (rule MessageProcess_dispatch [OF assms])

theorem client_packet_dispatched_witness:
  "MessageProcess demo_env 0 demo_svr (frame (c2s_image (P_CS_HEARTBEAT CS_P_HEARTBEAT)) 0 0 @ [1, 2]) 24 =
   C2S_Heartbeat demo_env 0 demo_svr CS_P_HEARTBEAT"
  using client_packet_dispatched [of "P_CS_HEARTBEAT CS_P_HEARTBEAT" 24 demo_env 0 demo_svr 0 0 "[1, 2]"]
  by (simp add: body_image_def cs_typed_def CS_P_HEARTBEAT_def)

text \<open>
  A frame too short for any body is ignored.  When the length in the head is below 20 the body length
  wraps around to nearly \<open>2^32\<close>; the serializer refuses it, the type reads as 0 and no handler is
  called: \<open>MessageProcess\<close> answers \<open>false\<close> and changes nothing.
\<close>

theorem short_frame_ignored:
  assumes "8 \<le> unat nLen" and "unat nLen \<le> max_packet" and "8 \<le> length pData"
    and "unat (ui32Length (head_of pData)) < 20"
  shows "MessageProcess e a st pData nLen = Some (False, st)"
proof -
  let ?w = "ui32Length (head_of pData)"
  have "unat (?w - 20) = unat ?w + 2 ^ 32 - 20"
    using assms(4) by (simp add: unat_sub_if_size word_size word_le_nat_alt)
  then have big: "max_packet < unat (?w - 20)" by simp
  obtain h where h: "RegisterPacketHandlers e a = Some h" using server_handlers by blast
  have zero: "packetFunctors h ! 0 = None" "0 < length (packetFunctors h)"
    using server_handlers [of e a] h by auto
  have "\<not> 8 > unat (scast nLen :: u64)" using unat_scast_nonneg [of nLen] assms(1,2) by simp
  then show ?thesis
    using PacketHandler_Execute_eq [of "?w - 20" "drop 8 pData" "e_junk e" h st] big zero h assms(3)
    by (simp add: MessageProcess_def mem_simps head_of_take body_type_def)
qed

theorem short_frame_ignored_witness:
  "MessageProcess demo_env 0 demo_svr [0, 0, 0, 0, 9, 0, 0, 0, 7] 9 = Some (False, demo_svr)"
  by (rule short_frame_ignored) (simp_all add: head_of_def)

text \<open>
  C8: A move is seen by the whole zone.  When a player moves, its character has the new position at once;
  after the next two ticks of the command queue every member of its zone, the mover included, has exactly
  one more frame on its connection, the move packet with the mover's token and the new position, and
  every other connection is as before.
\<close>

theorem move_seen_by_zone:
  assumes us: "sessions st a = Some us" "zid = zoneId (ch_pos (nub us))"
    and zc: "zone_consistent st zid" and ru: "reachable_users st (map fst (members (zoneMgr st) zid))"
    and q: "cmds (commandQueue st) = []" and w: "e_wsa e \<noteq> WSA_FAILED"
  shows "\<exists>st0 st1 st2 us'. C2S_Move e a st packet = Some (True, st0) \<and>
    server_Tick e st0 = Some st1 \<and> server_Tick e st1 = Some st2 \<and>
    sessions st2 a = Some us' \<and> posX (ch_pos (nub us')) = move_x packet \<and> posY (ch_pos (nub us')) = move_y packet \<and>
    (\<forall>d. conn_out st2 d = conn_out st d @
       (if Some d \<in> session_conn st ` fst ` set (members (zoneMgr st) zid)
        then s2c_frame (e_now e)
          (P_SC_MOVE (SC_P_MOVE_SetPos SC_P_MOVE (ch_token (nub us)) (move_x packet) (move_y packet)))
        else []))"
  using move_broadcast [OF assms] .

theorem move_seen_by_zone_witness:
  "\<exists>st0 st1 st2. C2S_Move demo_env 0 demo_svr (CS_P_MOVE_SetPos CS_P_MOVE 11 12) = Some (True, st0) \<and>
    server_Tick demo_env st0 = Some st1 \<and> server_Tick demo_env st1 = Some st2 \<and>
    conn_out st2 0 = s2c_frame 9 (P_SC_MOVE (SC_P_MOVE_SetPos SC_P_MOVE 5 11 12)) \<and>
    conn_out st2 1 = s2c_frame 9 (P_SC_MOVE (SC_P_MOVE_SetPos SC_P_MOVE 5 11 12)) \<and> conn_out st2 2 = []"
proof -
  have s: "(7 :: SOCKET) \<noteq> INVALID_SOCKET" by (simp add: INVALID_SOCKET_def)
  have d: "zoneId (ch_pos (nub (demo_user 5 0))) = 1" "ch_token (nub (demo_user 5 0)) = 5" "e_now demo_env = 9"
    "move_x (CS_P_MOVE_SetPos CS_P_MOVE 11 12) = 11" "move_y (CS_P_MOVE_SetPos CS_P_MOVE 11 12) = 12"
    by (simp_all add: demo_user_def demo_env_def CS_P_MOVE_SetPos_def)
  show ?thesis
    using move_seen_by_zone [OF demo_sessions(1) d(1) [symmetric] demo_consistent demo_sessions(5,6),
        of "CS_P_MOVE_SetPos CS_P_MOVE 11 12"]
      demo_net_ok(2) [OF s]
    unfolding demo_members d by (auto simp: demo_sessions)
qed

text \<open>
  C13: Entering a zone.  For a known player the command of \<open>C2S_Enter\<close> makes the zone, creating it when it
  does not exist, contain the player under its token, changes no other zone, and queues first the
  announcement to everyone in the zone and then the list of those already there.
\<close>

theorem enter_registers_player:
  assumes zm: "zone_mgr_ok (zoneMgr st)" "fresh_block (e_base e) (objectPool (zm_objects (zoneMgr st)))"
    and u: "GetUserSession st token = Some a" "sessions st a = Some us" "ch_token (nub us) = token"
    and absent: "map_of (members (zoneMgr st) zid) (sint token) = None" "omap_ok (members (zoneMgr st) zid)"
  shows "\<exists>st' c. Operator e (EnterCharacter token zid x y) st = Some st' \<and>
    new_broadcast e zid (P_SC_ENTER (SC_P_ENTER_SetPos SC_P_ENTER token x y)) = Some c \<and>
    zone_mgr_ok (zoneMgr st') \<and>
    map_of (members (zoneMgr st') zid) = (map_of (members (zoneMgr st) zid))(sint token \<mapsto> a) \<and>
    (\<forall>other. other \<noteq> zid \<longrightarrow> members (zoneMgr st') other = members (zoneMgr st) other) \<and>
    cmds (commandQueue st') = cmds (commandQueue st) @ [c, SendCharacterList token zid]"
proof -
  let ?p = "P_SC_ENTER (SC_P_ENTER_SetPos SC_P_ENTER token x y)"
  have v: "s2c_valid ?p" by (simp add: sc_typed_def SC_P_ENTER_SetPos_def SC_P_ENTER_def)
  obtain c where c: "new_broadcast e zid ?p = Some c" using new_broadcast_total [OF v] by blast
  have dr: "session_deref st a = Some (nub us)" using u(2) by (simp add: session_deref_def)
  obtain zm' where zm': "ZoneMgr_EnterCharacter (session_deref st) (e_base e) (zoneMgr st) zid a = Some zm'"
    "zone_mgr_ok zm'" "members zm' zid = omap_insert (sint token) a (members (zoneMgr st) zid)"
    "\<forall>other. other \<noteq> zid \<longrightarrow> members zm' other = members (zoneMgr st) other"
    using members_EnterCharacter [OF zm, of "session_deref st" a "nub us" zid, OF dr] u(3) by auto
  have "Operator e (EnterCharacter token zid x y) st =
      Some (add_cmd (SendCharacterList token zid) (add_cmd c (st\<lparr>zoneMgr := zm'\<rparr>)))"
    using u(1) zm'(1) c by (simp add: Let_def)
  moreover have "map_of (members zm' zid) = (map_of (members (zoneMgr st) zid))(sint token \<mapsto> a)"
    using map_of_omap_insert [OF absent(2), of "sint token" a] absent(1) zm'(3) by simp
  ultimately show ?thesis
    using c zm'(2,4) by (intro exI conjI) (auto simp: add_cmd_def Add_def simp del: Operator.simps)
qed

theorem enter_registers_player_witness:
  "\<exists>st'. Operator demo_env (EnterCharacter 5 3 0 0) (demo_svr\<lparr>zoneMgr := ZoneMgr\<rparr>) = Some st' \<and>
     map_of (members (zoneMgr st') 3) 5 = Some 0"
proof -
  let ?st = "demo_svr\<lparr>zoneMgr := ZoneMgr\<rparr>"
  have "fresh_block (e_base demo_env) (objectPool (zm_objects ZoneMgr))"
    by (simp add: fresh_block_def ZoneMgr_def ObjectMgrBase_def ObjectPool_def pool_slots_def)
  moreover have "GetUserSession ?st 5 = Some 0" "ch_token (nub (demo_user 5 0)) = 5" "members (zoneMgr ?st) 3 = []"
    by (simp_all add: GetUserSession_def demo_svr_def demo_user_def members_def GetZone_def ZoneMgr_def)
  ultimately show ?thesis
    using enter_registers_player [of ?st demo_env 5 0 "demo_user 5 0" 3 0 0] zone_mgr_ok_new demo_sessions(1)
    by auto
qed

text \<open>
  C14: Leaving a zone.  The command removes the player's token from the zone and nothing else, resets the
  position of the player if it is still known, and queues the announcement for those who remain.
\<close>

theorem leave_removes_player:
  assumes zm: "zone_mgr_ok (zoneMgr st)"
    and known: "\<And>a. GetUserSession st token = Some a \<Longrightarrow> sessions st a \<noteq> None"
  shows "\<exists>st' c. Operator e (LeaveCharacter token zid) st = Some st' \<and>
    new_broadcast e zid (P_SC_LEAVE (SC_P_LEAVE_SetToken SC_P_LEAVE token)) = Some c \<and>
    members (zoneMgr st') zid = omap_erase (sint token) (members (zoneMgr st) zid) \<and>
    (\<forall>other. other \<noteq> zid \<longrightarrow> members (zoneMgr st') other = members (zoneMgr st) other) \<and>
    (\<forall>a us. GetUserSession st token = Some a \<and> sessions st a = Some us \<longrightarrow>
       sessions st' a = Some (us\<lparr>nub := Character_ResetPos (nub us)\<rparr>)) \<and>
    cmds (commandQueue st') = cmds (commandQueue st) @ [c]"
proof -
  let ?p = "P_SC_LEAVE (SC_P_LEAVE_SetToken SC_P_LEAVE token)"
  have v: "s2c_valid ?p" by (simp add: sc_typed_def SC_P_LEAVE_SetToken_def SC_P_LEAVE_def)
  obtain c where c: "new_broadcast e zid ?p = Some c" using new_broadcast_total [OF v] by blast
  note zl = members_LeaveCharacter [OF zm]
  show ?thesis
  proof (cases "GetUserSession st token")
    case None
    then show ?thesis using c zl by (simp add: Let_def add_cmd_def Add_def)
  next
    case (Some a)
    then obtain us where "sessions st a = Some us" using known by blast
    then show ?thesis using Some c zl by (simp add: Let_def add_cmd_def Add_def upd_session_def)
  qed
qed

theorem leave_removes_player_witness:
  "\<exists>st'. Operator demo_env (LeaveCharacter 6 2) (demo_svr\<lparr>zoneMgr := ZoneMgr\<rparr>) = Some st' \<and>
     sessions st' 1 = Some ((demo_user 6 1)\<lparr>nub := Character_ResetPos (nub (demo_user 6 1))\<rparr>)"
proof -
  let ?st = "demo_svr\<lparr>zoneMgr := ZoneMgr\<rparr>"
  have k: "GetUserSession ?st 6 = Some 1" "sessions ?st 1 = Some (demo_user 6 1)"
    by (simp_all add: GetUserSession_def demo_svr_def)
  then show ?thesis using leave_removes_player [of ?st 6 demo_env 2] zone_mgr_ok_new by auto
qed

end
