(* ===== verification/Server_Inv.thy ===== *)
theory Server_Inv
  imports Server_Props
begin

text \<open>
  The shape of the server's state and that every round of every thread keeps it.  \<open>server_wf\<close> says that
  the pool of sessions, the store and the list of used sessions agree, that connectors and sessions
  point at each other, that the maps are ordered, that there is at most the one zone players enter, and
  that queued commands carry whole buffers.  \<open>server_step\<close> is one round of the worker, accept, process
  or update thread; the states it reaches from a fresh server are all well-formed.
\<close>

subsection \<open>The session pointers of the connectors\<close>

definition params :: "network \<Rightarrow> addr \<Rightarrow> addr option" where
  "params nt c = cn_param (connectors nt c)"

lemma params_upd [simp]:
  "params (upd_connector nt a c) = (params nt)(a := cn_param c)"
  "params (emit nt cs) = params nt"
  "params (SetFreeConnector nt a) = params nt"
  "params (nt\<lparr>recvPacketQueue := q\<rparr>) = params nt"
  "params (nt\<lparr>connectorMgr := m\<rparr>) = params nt"
  "params (nt\<lparr>unique_connector_uid := u\<rparr>) = params nt"
  "params (close_and_free nt a s) = params nt"
  "params (issue_recv nt a) = params nt"
  by (auto simp: params_def upd_connector_def emit_def SetFreeConnector_def close_and_free_def
      issue_recv_def fun_eq_iff)

lemma params_same [simp]: "cn_param c = params nt a \<Longrightarrow> (params nt)(a := cn_param c) = params nt"
  by auto

lemma params_eqI: "cn_param (connectors nt a) = params nt a"
  by (simp add: params_def)

lemma params_TryRelease [simp]: "params (net_TryRelease nt a) = params nt"
  by (auto simp: net_TryRelease_def TryRelease_def Connector_Release_def close_socket_def Let_def params_eqI)

lemma params_Disconnect [simp]: "params (snd (Disconnect nt p)) = params nt"
  by (auto simp: Disconnect_def close_socket_def Let_def params_eqI split: option.splits)

lemma cn_param_kept:
  "SendPrepare a c = (r, c') \<Longrightarrow> cn_param c' = cn_param c"
  "SendComplete c n = (r, c') \<Longrightarrow> cn_param c' = cn_param c"
  "AddSendQueue junk a c data n = Some (r, c') \<Longrightarrow> cn_param c' = cn_param c"
  "RecvComplete junk a c n = Some (r, p, c') \<Longrightarrow> cn_param c' = cn_param c"
  by (auto simp: SendPrepare_def SendComplete_def AddSendQueue_def
      RecvComplete_def Let_def Option.bind_eq_Some_conv split: list.splits option.splits if_splits prod.splits)

lemma cn_param_prepared:
  "RecvPrepare a c = Some (r, c') \<Longrightarrow> cn_param c' = cn_param c"
  "Connector_AcceptPrepare a c = Some (r, c') \<Longrightarrow> cn_param c' = cn_param c"
  by (cases "Reset (RecvRequest_pBuffer c)"; force simp: RecvPrepare_def Connector_AcceptPrepare_def Let_def
      split: prod.splits)+

lemma params_RecvPrepare: "net_RecvPrepare nt a = Some (r, nt') \<Longrightarrow> params nt' = params nt"
  by (auto simp: net_RecvPrepare_def Option.bind_eq_Some_conv params_eqI dest!: cn_param_prepared)

lemma params_issue_send: "issue_send nt a = Some nt' \<Longrightarrow> params nt' = params nt"
  by (auto simp: issue_send_def Option.bind_eq_Some_conv)

lemma params_Write: "Write junk w nt p data n = Some (r, nt') \<Longrightarrow> params nt' = params nt"
  by (fastforce simp: Write_def Let_def Option.bind_eq_Some_conv params_eqI
      split: option.splits if_splits prod.splits dest!: params_issue_send dest: cn_param_kept)

lemma params_DoSend: "DoSend w nt a n = Some nt' \<Longrightarrow> params nt' = params nt"
  by (fastforce simp: DoSend_def Let_def Option.bind_eq_Some_conv params_eqI
      split: option.splits if_splits prod.splits dest!: params_issue_send dest: cn_param_kept)

lemma params_DoRecv: "DoRecv junk w nt a n = Some nt' \<Longrightarrow> params nt' = params nt"
  by (fastforce simp: DoRecv_def Let_def Option.bind_eq_Some_conv params_eqI
      split: option.splits if_splits prod.splits dest!: params_RecvPrepare dest: cn_param_kept)

lemma params_DoAccept: "DoAccept ok w nt a = Some nt' \<Longrightarrow> params nt' = params nt"
  by (auto simp: DoAccept_def Let_def Option.bind_eq_Some_conv split: if_splits dest!: params_RecvPrepare)

lemma params_worker_disconnect: "params (worker_disconnect nt a op) = params nt"
  by (auto simp: worker_disconnect_def Let_def params_eqI split: eNetworkOperator.splits)

text \<open>A growing pool constructs connectors at the addresses the allocator answers.\<close>

lemma params_construct_all:
  "\<forall>a \<in> set as. params nt a = None \<Longrightarrow> params (construct_all junk nt as) = params nt"
proof (induction as arbitrary: nt)
  case (Cons a as)
  let ?nt = "(upd_connector nt a (Connector junk (unique_connector_uid nt + 1)))
    \<lparr>unique_connector_uid := unique_connector_uid nt + 1\<rparr>"
  have "params ?nt = params nt" using Cons.prems by (auto simp: Connector_def)
  then show ?case using Cons by (simp add: Let_def)
qed simp

text \<open>Storage the allocator hands out belongs to no connector a session is attached to.\<close>

definition fresh_storage :: "(nat \<Rightarrow> addr) \<Rightarrow> network \<Rightarrow> bool" where
  "fresh_storage fresh nt \<longleftrightarrow> (\<forall>i. params nt (fresh i) = None)"

lemma params_GetFreeConnector:
  assumes "GetFreeConnector junk fresh nt = (r, nt')" and "fresh_storage fresh nt"
  shows "params nt' = params nt"
proof -
  obtain m where m: "PoolMgr_GetFreeObject fresh (connectorMgr nt) = (r, m)"
    "nt' = construct_all junk (nt\<lparr>connectorMgr := m\<rparr>)
       (drop (length (pm_poolList (connectorMgr nt))) (pm_poolList m))"
    using assms(1) by (auto simp: GetFreeConnector_def Let_def split: prod.splits)
  have "set (drop (length (pm_poolList (connectorMgr nt))) (pm_poolList m)) \<subseteq> range fresh"
    using m(1) by (auto simp: PoolMgr_GetFreeObject_def PoolMgr_AddAlloc_def Let_def
        split: if_splits list.splits)
  then have "params nt a = None"
    if "a \<in> set (drop (length (pm_poolList (connectorMgr nt))) (pm_poolList m))" for a
    using that assms(2) by (force simp: fresh_storage_def)
  then show ?thesis using params_construct_all unfolding m(2) by simp
qed

lemma params_AcceptPrepare:
  assumes "AcceptPrepare junk fresh s w nt = Some nt'" and "fresh_storage fresh nt"
  shows "params nt' = params nt"
proof -
  obtain r nt1 where nt1: "GetFreeConnector junk fresh nt = (r, nt1)" by fastforce
  have k: "params nt1 = params nt" by (rule params_GetFreeConnector [OF nt1 assms(2)])
  have "params nt' = params nt1"
    using assms(1) nt1
    by (auto simp: AcceptPrepare_def Let_def Option.bind_eq_Some_conv params_eqI
        split: if_splits dest!: cn_param_prepared)
  then show ?thesis using k by simp
qed

lemma params_AcceptThread_round:
  assumes "AcceptThread_round junk fresh s ok w nt = Some nt'" and "fresh_storage fresh nt"
  shows "params nt' = params nt"
proof -
  obtain r nt1 where nt1: "GetFreeConnector junk fresh nt = (r, nt1)" by fastforce
  have k: "params nt1 = params nt" by (rule params_GetFreeConnector [OF nt1 assms(2)])
  have "params nt' = params nt1 \<or> params nt' = params nt"
    using assms(1) nt1
    by (auto simp: AcceptThread_round_def Let_def Option.bind_eq_Some_conv params_eqI
        split: if_splits option.splits dest!: params_RecvPrepare)
  then show ?thesis using k by auto
qed

lemma params_WorkerThread_round:
  assumes "WorkerThread_round oe nt k = Some nt'" and "fresh_storage (env_fresh oe) nt"
  shows "params nt' = params nt"
proof (cases k)
  case (Finished r n)
  show ?thesis
  proof (cases "ov_pConnector (request_of nt r)")
    case None
    then show ?thesis using assms(1) Finished by (simp add: WorkerThread_round_def Let_def)
  next
    case (Some a)
    show ?thesis
    proof (cases "NetOp (request_of nt r)")
      case OP_ACCEPT
      then obtain nt1 where nt1: "DoAccept (env_port_ok oe) (env_wsa oe) nt a = Some nt1"
        "AcceptPrepare (env_junk oe) (env_fresh oe) (env_socket oe) (env_accept oe) nt1 = Some nt'"
        using assms(1) Finished Some by (auto simp: WorkerThread_round_def Let_def Option.bind_eq_Some_conv)
      have "fresh_storage (env_fresh oe) nt1"
        using assms(2) params_DoAccept [OF nt1(1)] by (simp add: fresh_storage_def)
      then show ?thesis using params_AcceptPrepare [OF nt1(2)] params_DoAccept [OF nt1(1)] by simp
    qed (use assms(1) Finished Some params_DoSend params_DoRecv in
        \<open>auto simp: WorkerThread_round_def Let_def params_worker_disconnect split: if_splits\<close>)
  qed
qed (use assms(1) in \<open>auto simp: WorkerThread_round_def split: option.splits\<close>)

subsection \<open>Well-formed states\<close>

text \<open>Commands carry a whole buffer with a size inside it, and players only enter zone 1.\<close>

fun cmd_ok :: "command \<Rightarrow> bool" where
  "cmd_ok (SendBroadcastToAllUser zid buf n) \<longleftrightarrow> length buf = max_packet \<and> unat n \<le> max_packet"
| "cmd_ok (SendPacketToUser token buf n) \<longleftrightarrow> length buf = max_packet \<and> unat n \<le> max_packet"
| "cmd_ok (EnterCharacter token zid x y) \<longleftrightarrow> zid = 1"
| "cmd_ok (LeaveCharacter token zid) \<longleftrightarrow> True"
| "cmd_ok (SendCharacterList token zid) \<longleftrightarrow> True"

definition one_zone :: "zone_mgr \<Rightarrow> bool" where
  "one_zone zm \<longleftrightarrow> zone_mgr_ok zm \<and>
     (map fst (zoneMap zm) = [1] \<or> zoneMap zm = [] \<and> objectPool (zm_objects zm) = ObjectPool)"

text \<open>What a session is to the rest of the server: the connector it talks to and its token.\<close>

definition identity :: "server \<Rightarrow> addr \<Rightarrow> (addr option \<times> u64) option" where
  "identity st a = map_option (\<lambda>us. (us_pConnector us, ch_token (nub us))) (sessions st a)"

text \<open>
  \<open>linked R st\<close>: a connector points at a session exactly if the session talks through that connector,
  where the sessions in \<open>R\<close> have been detached already.
\<close>

definition linked :: "addr set \<Rightarrow> server \<Rightarrow> bool" where
  "linked R st \<longleftrightarrow> (\<forall>a p t. identity st a = Some (p, t) \<longrightarrow> p \<noteq> None) \<and>
     (\<forall>c a. params (net st) c = Some a \<longleftrightarrow> a \<notin> R \<and> (\<exists>t. identity st a = Some (Some c, t)))"

lemma linked_params:
  "linked R st \<Longrightarrow> params (net st) c = Some a \<longleftrightarrow> a \<notin> R \<and> (\<exists>t. identity st a = Some (Some c, t))"
  by (simp add: linked_def)

lemma linked_connector: "linked R st \<Longrightarrow> identity st a = Some (p, t) \<Longrightarrow> p \<noteq> None"
  unfolding linked_def by blast

lemma linkedI:
  assumes "\<And>a p t. identity st a = Some (p, t) \<Longrightarrow> p \<noteq> None"
    and "\<And>c a. params (net st) c = Some a \<longleftrightarrow> a \<notin> R \<and> (\<exists>t. identity st a = Some (Some c, t))"
  shows "linked R st"
  using assms unfolding linked_def by blast

definition wf_upto :: "addr set \<Rightarrow> server \<Rightarrow> bool" where
  "wf_upto R st \<longleftrightarrow> mgr_ok (sm_objects st) \<and> (\<forall>a. identity st a \<noteq> None \<longleftrightarrow> a \<in> mgr_in_use (sm_objects st)) \<and>
     omap_ok (userMap st) \<and> one_zone (zoneMgr st) \<and> list_all cmd_ok (cmds (commandQueue st)) \<and> linked R st"

definition server_wf :: "server \<Rightarrow> bool" where
  "server_wf st \<longleftrightarrow> wf_upto {} st \<and> releaseList st = []"

text \<open>The user map names living sessions under their own tokens.\<close>

definition users_live :: "server \<Rightarrow> bool" where
  "users_live st \<longleftrightarrow> (\<forall>(k, a) \<in> set (userMap st). \<exists>p t. identity st a = Some (p, t) \<and> sint t = k)"

text \<open>Most operations leave all of this alone and at most queue commands.\<close>

definition links :: "server \<Rightarrow>
    object_mgr \<times> (int, addr) omap \<times> zone_mgr \<times> addr list \<times> (addr \<Rightarrow> (addr option \<times> u64) option) \<times> (addr \<Rightarrow> addr option)" where
  "links st = (sm_objects st, userMap st, zoneMgr st, releaseList st, identity st, params (net st))"

definition quiet :: "server \<Rightarrow> server \<Rightarrow> bool" where
  "quiet st st' \<longleftrightarrow> links st' = links st \<and>
     (list_all cmd_ok (cmds (commandQueue st)) \<longrightarrow> list_all cmd_ok (cmds (commandQueue st')))"

lemma quiet_refl [simp]: "quiet st st"
  by (simp add: quiet_def)

lemma quiet_trans: "quiet st st' \<Longrightarrow> quiet st' st'' \<Longrightarrow> quiet st st''"
  by (simp add: quiet_def)

lemma quiet_wf: "quiet st st' \<Longrightarrow> wf_upto R st \<Longrightarrow> wf_upto R st'"
  by (auto simp: quiet_def links_def wf_upto_def linked_def)

lemma quiet_server_wf: "quiet st st' \<Longrightarrow> server_wf st \<Longrightarrow> server_wf st'"
  using quiet_wf [of st st' "{}"] by (auto simp: server_wf_def quiet_def links_def)

lemma quiet_users: "quiet st st' \<Longrightarrow> users_live st \<Longrightarrow> users_live st'"
  by (simp add: quiet_def links_def users_live_def)

lemma identity_cong [simp]:
  "identity (st\<lparr>net := nt\<rparr>) = identity st" "identity (st\<lparr>commandQueue := q\<rparr>) = identity st"
  "identity (st\<lparr>zoneMgr := zm\<rparr>) = identity st" "identity (st\<lparr>userMap := um\<rparr>) = identity st"
  "identity (st\<lparr>releaseList := rl\<rparr>) = identity st" "identity (st\<lparr>unique_id := u\<rparr>) = identity st"
  "identity (st\<lparr>loop_pConnector := l\<rparr>) = identity st" "identity (st\<lparr>sm_UpdateTime := t\<rparr>) = identity st"
  "identity (st\<lparr>sm_objects := m\<rparr>) = identity st" "identity (st\<lparr>unique_session_uid := v\<rparr>) = identity st"
  by (simp_all add: identity_def fun_eq_iff)

lemma identity_upd [simp]:
  "identity (upd_session st a us) = (identity st)(a \<mapsto> (us_pConnector us, ch_token (nub us)))"
  by (auto simp: identity_def upd_session_def)

lemma quiet_upd_session:
  assumes "identity st a = Some (us_pConnector us, ch_token (nub us))"
  shows "quiet st (upd_session st a us)"
proof -
  have "identity (upd_session st a us) = identity st" using assms by auto
  then show ?thesis by (simp add: quiet_def links_def del: identity_upd) (simp add: upd_session_def)
qed

lemma quiet_add_cmd: "cmd_ok c \<Longrightarrow> quiet st (add_cmd c st)"
  by (simp add: quiet_def links_def) (simp add: add_cmd_def)

lemma quiet_net: "params nt = params (net st) \<Longrightarrow> quiet st (st\<lparr>net := nt\<rparr>)"
  by (simp add: quiet_def links_def)

lemma identity_Some: "sessions st a = Some us \<Longrightarrow> identity st a = Some (us_pConnector us, ch_token (nub us))"
  by (simp add: identity_def)

lemma identity_None: "identity st a = None \<longleftrightarrow> sessions st a = None"
  by (simp add: identity_def)

subsection \<open>Quiet operations\<close>

lemma length_mem_write: "mem_write m p xs = Some m' \<Longrightarrow> length m' = length m"
  by (auto simp: mem_write_def split: if_splits)

lemma make_send_buffer_shape:
  assumes "make_send_buffer junk now p = Some (buf, n)"
  shows "length buf = max_packet \<and> unat n \<le> max_packet"
  using assms
  by (auto simp: make_send_buffer_def MakeNetworkPacket_def mem_write_at_def Let_def word_le_nat_alt not_less
      Option.bind_eq_Some_conv split: if_splits dest!: length_mem_write)

lemma new_broadcast_cmd_ok: "new_broadcast e zid p = Some c \<Longrightarrow> cmd_ok c"
  by (auto simp: new_broadcast_def Option.bind_eq_Some_conv dest!: make_send_buffer_shape)

lemma new_packet_to_cmd_ok: "new_packet_to e t p = Some c \<Longrightarrow> cmd_ok c"
  by (auto simp: new_packet_to_def Option.bind_eq_Some_conv dest!: make_send_buffer_shape)

lemma new_packet_copy_cmd_ok: "new_packet_copy t buf n = Some c \<Longrightarrow> cmd_ok c"
  by (auto simp: new_packet_copy_def Option.bind_eq_Some_conv split: if_splits dest!: length_mem_write)

lemmas new_cmds_ok = new_broadcast_cmd_ok new_packet_to_cmd_ok new_packet_copy_cmd_ok

lemma quiet_SendPacket_buffer: "SendPacket_buffer e st a buf n = Some (r, st') \<Longrightarrow> quiet st st'"
  by (auto simp: SendPacket_buffer_def Option.bind_eq_Some_conv intro!: quiet_net dest: params_Write)

lemma quiet_SendPacket: "SendPacket e st a p = Some (r, st') \<Longrightarrow> quiet st st'"
  by (auto simp: SendPacket_def Option.bind_eq_Some_conv dest: quiet_SendPacket_buffer)

lemma quiet_queue_broadcast: "queue_broadcast buf n ts st = Some st' \<Longrightarrow> quiet st st'"
proof (induction ts arbitrary: st)
  case (Cons t ts)
  then obtain c where c: "new_packet_copy t buf n = Some c" "queue_broadcast buf n ts (add_cmd c st) = Some st'"
    by (auto simp: Option.bind_eq_Some_conv)
  then show ?case using Cons.IH quiet_trans quiet_add_cmd new_cmds_ok by blast
qed simp

lemma quiet_send_list: "send_list e token ds p st = Some (p', st') \<Longrightarrow> quiet st st'"
proof (induction ds arbitrary: p st)
  case (Cons d ds)
  then obtain full q where q: "CHARACTER_LIST_SetData p d = Some (full, q)"
    by (auto simp: Option.bind_eq_Some_conv)
  show ?case
  proof (cases full)
    case True
    then obtain c where c: "new_packet_to e token (P_SC_LIST q) = Some c"
      "send_list e token ds (CHARACTER_LIST_Reset q) (add_cmd c st) = Some (p', st')"
      using Cons.prems q by (auto simp: Option.bind_eq_Some_conv)
    then show ?thesis using Cons.IH quiet_trans quiet_add_cmd new_cmds_ok by blast
  next
    case False
    then show ?thesis using Cons q by simp
  qed
qed simp

text \<open>The handlers other than the one that gives out tokens.\<close>

definition is_auth :: "c2s_packet \<Rightarrow> bool" where
  "is_auth p \<longleftrightarrow> c2s_tag p = C2S_auth"

lemma handler_quiet:
  assumes "c2s_handle e a st p = Some (r, st')" and "\<not> is_auth p"
  shows "quiet st st'"
proof -
  have step: "quiet st (add_cmd c (upd_session st a us'))"
    if "sessions st a = Some us" "us_pConnector us' = us_pConnector us"
      "ch_token (nub us') = ch_token (nub us)" "cmd_ok c" for us us' c
    using that quiet_trans [OF quiet_upd_session quiet_add_cmd] by (simp add: identity_Some)
  show ?thesis
    using assms
    by (cases p) (auto simp: is_auth_def C2S_Enter_def C2S_LEAVE_def C2S_Move_def C2S_Heartbeat_def
        C2S_Interaction_def C2S_Echo_def Let_def Option.bind_eq_Some_conv character_defs identity_Some
        intro!: step quiet_add_cmd quiet_upd_session dest!: new_cmds_ok split: if_splits)
qed

subsection \<open>Authentication\<close>

lemma C2S_Auth_split:
  assumes "C2S_Auth e a st p = Some (r, st')"
  obtains us t where "sessions st a = Some us" and "t = e_time e * 10000 + (unique_id st + 1)"
    and "quiet (st\<lparr>sessions := (sessions st)(a \<mapsto> us\<lparr>nub := Character_SetToken (Character_SetId (nub us) (auth_id p)) t\<rparr>),
      unique_id := unique_id st + 1, userMap := omap_insert (sint t) a (userMap st)\<rparr>) st'"
  using assms
  by (auto simp: C2S_Auth_def AddUserSessionMap_def upd_session_def Let_def Option.bind_eq_Some_conv
      Character_SetToken_def dest!: quiet_SendPacket)

lemma identity_auth:
  "identity (st\<lparr>sessions := (sessions st)(a \<mapsto> us\<lparr>nub := Character_SetToken ch t\<rparr>), unique_id := u, userMap := m\<rparr>) =
   (identity st)(a \<mapsto> (us_pConnector us, t))"
  by (auto simp: identity_def Character_SetToken_def)

lemma linked_same_connector:
  assumes "linked R st" and "identity st a = Some (p, t)" and "params (net st') = params (net st)"
    and "identity st' = (identity st)(a \<mapsto> (p, t'))"
  shows "linked R st'"
  using assms by (auto simp: linked_def)

lemma auth_wf:
  assumes "C2S_Auth e a st p = Some (r, st')" and "server_wf st"
  shows "server_wf st'"
proof -
  obtain us t where us: "sessions st a = Some us" and
    q: "quiet (st\<lparr>sessions := (sessions st)(a \<mapsto> us\<lparr>nub := Character_SetToken (Character_SetId (nub us) (auth_id p)) t\<rparr>),
      unique_id := unique_id st + 1, userMap := omap_insert (sint t) a (userMap st)\<rparr>) st'" (is "quiet ?st st'")
    using C2S_Auth_split [OF assms(1)] by metis
  have i: "identity ?st = (identity st)(a \<mapsto> (us_pConnector us, t))" by (rule identity_auth)
  have "linked {} ?st"
    by (rule linked_same_connector [OF _ identity_Some [OF us] _ i])
      (use assms(2) in \<open>simp_all add: server_wf_def wf_upto_def\<close>)
  moreover have "identity ?st b \<noteq> None \<longleftrightarrow> identity st b \<noteq> None" for b
    using us by (simp only: i) (simp add: identity_Some)
  ultimately have "server_wf ?st" using assms(2) by (simp add: server_wf_def wf_upto_def del: not_None_eq)
  then show ?thesis by (rule quiet_server_wf [OF q])
qed

lemma auth_users:
  assumes "C2S_Auth e a st p = Some (r, st')" and "server_wf st" and "users_live st"
    and "a \<notin> snd ` set (userMap st)"
  shows "users_live st'"
proof -
  obtain us t where us: "sessions st a = Some us" and
    q: "quiet (st\<lparr>sessions := (sessions st)(a \<mapsto> us\<lparr>nub := Character_SetToken (Character_SetId (nub us) (auth_id p)) t\<rparr>),
      unique_id := unique_id st + 1, userMap := omap_insert (sint t) a (userMap st)\<rparr>) st'" (is "quiet ?st st'")
    using C2S_Auth_split [OF assms(1)] by metis
  have ok: "omap_ok (userMap st)" using assms(2) by (simp add: server_wf_def wf_upto_def)
  have "set (omap_insert (sint t) a (userMap st)) \<subseteq> insert (sint t, a) (set (userMap st))"
    using omap_insert_present [OF ok, of "sint t" a] set_omap_insert_absent [of "userMap st" "sint t" a]
    by (cases "map_of (userMap st) (sint t)") auto
  then have m: "x = (sint t, a) \<or> x \<in> set (userMap st)" if "x \<in> set (userMap ?st)" for x
    using that by auto
  have i: "identity ?st = (identity st)(a \<mapsto> (us_pConnector us, t))" by (rule identity_auth)
  have "\<exists>p t. identity ?st b = Some (p, t) \<and> sint t = k" if "(k, b) \<in> set (userMap ?st)" for k b
  proof (cases "b = a")
    case True
    then show ?thesis using m [OF that] assms(4) unfolding i by force
  next
    case False
    then show ?thesis using m [OF that] assms(3) unfolding i by (auto simp: users_live_def)
  qed
  then have "users_live ?st" unfolding users_live_def by blast
  then show ?thesis by (rule quiet_users [OF q])
qed

lemma handler_wf:
  assumes "c2s_handle e a st p = Some (r, st')" and "server_wf st"
  shows "server_wf st'"
proof (cases "is_auth p")
  case True
  then show ?thesis using assms auth_wf by (cases p) (auto simp: is_auth_def)
next
  case False
  then show ?thesis using assms handler_quiet quiet_server_wf by blast
qed

lemma handler_users:
  assumes "c2s_handle e a st p = Some (r, st')" and "server_wf st" and "users_live st"
    and "is_auth p \<longrightarrow> a \<notin> snd ` set (userMap st)"
  shows "users_live st'"
proof (cases "is_auth p")
  case True
  then show ?thesis using assms auth_users by (cases p) (auto simp: is_auth_def)
next
  case False
  then show ?thesis using assms handler_quiet quiet_users by blast
qed

subsection \<open>Commands keep the state well-formed\<close>

lemma one_zone_Enter:
  assumes "one_zone zm" and "ZoneMgr_EnterCharacter d base zm 1 a = Some zm'"
  shows "one_zone zm'"
proof -
  have f: "fresh_block base ObjectPool" by (simp add: fresh_block_def pool_slots_def ObjectPool_def)
  obtain ch where ch: "d a = Some ch"
    using assms(2) by (auto simp: ZoneMgr_EnterCharacter_def OnRegistCharacter_def Option.bind_eq_Some_conv
        split: option.splits prod.splits)
  show ?thesis
  proof (cases "zoneMap zm = []")
    case True
    then have ok: "zone_mgr_ok zm" "fresh_block base (objectPool (zm_objects zm))"
      using assms(1) f by (auto simp: one_zone_def)
    have "zone_mgr_ok zm'" using members_EnterCharacter [of zm base d a ch 1] ok ch assms(2) by simp
    moreover have "map fst (zoneMap zm') = [1]"
      using True assms(2) by (auto simp: ZoneMgr_EnterCharacter_def Option.bind_eq_Some_conv split: prod.splits)
    ultimately show ?thesis by (simp add: one_zone_def)
  next
    case False
    then obtain z where z: "zoneMap zm = [(1, z)]" using assms(1) by (auto simp: one_zone_def)
    then show ?thesis
      using assms by (auto simp: one_zone_def zone_mgr_ok_def ZoneMgr_EnterCharacter_def OnRegistCharacter_def
          Option.bind_eq_Some_conv)
  qed
qed

lemma one_zone_Leave: "one_zone zm \<Longrightarrow> one_zone (ZoneMgr_LeaveCharacter zm zid t)"
  using members_LeaveCharacter(1) [of zm zid t]
  by (auto simp: one_zone_def ZoneMgr_LeaveCharacter_def split: option.splits)

lemma wf_zone: "wf_upto R st \<Longrightarrow> one_zone zm \<Longrightarrow> wf_upto R (st\<lparr>zoneMgr := zm\<rparr>)"
  by (simp add: wf_upto_def linked_def)

text \<open>A command changes the zones and is quiet otherwise.\<close>

lemma quiet_zone: "quiet st st' \<Longrightarrow> \<exists>zm. (one_zone (zoneMgr st) \<longrightarrow> one_zone zm) \<and> quiet (st\<lparr>zoneMgr := zm\<rparr>) st'"
  by (intro exI [of _ "zoneMgr st"]) simp

lemma Operator_split:
  assumes "Operator e c st = Some st'" and "cmd_ok c"
  shows "\<exists>zm. (one_zone (zoneMgr st) \<longrightarrow> one_zone zm) \<and> quiet (st\<lparr>zoneMgr := zm\<rparr>) st'"
proof (cases c)
  case (SendBroadcastToAllUser zid buf n)
  then show ?thesis
    using assms(1) quiet_queue_broadcast by (intro quiet_zone)
      (fastforce simp: PacketBroadcast_def Option.bind_eq_Some_conv split: option.splits)
next
  case (SendPacketToUser token buf n)
  then show ?thesis
    using assms(1) quiet_SendPacket_buffer by (intro quiet_zone)
      (fastforce simp: Option.bind_eq_Some_conv split: option.splits)
next
  case (EnterCharacter token zid x y)
  show ?thesis
  proof (cases "GetUserSession st token")
    case None
    then show ?thesis using assms(1) EnterCharacter by (intro quiet_zone) simp
  next
    case (Some a)
    then obtain zm c1 where zm: "ZoneMgr_EnterCharacter (session_deref st) (e_base e) (zoneMgr st) 1 a = Some zm"
      "new_broadcast e 1 (P_SC_ENTER (SC_P_ENTER_SetPos SC_P_ENTER token x y)) = Some c1"
      "st' = add_cmd (SendCharacterList token 1) (add_cmd c1 (st\<lparr>zoneMgr := zm\<rparr>))"
      using assms EnterCharacter by (auto simp: Let_def Option.bind_eq_Some_conv)
    have "quiet (st\<lparr>zoneMgr := zm\<rparr>) st'"
      unfolding zm(3) by (intro quiet_trans [OF quiet_add_cmd quiet_add_cmd] new_cmds_ok(1) [OF zm(2)]) simp
    then show ?thesis using one_zone_Enter [OF _ zm(1)] by blast
  qed
next
  case (LeaveCharacter token zid)
  then obtain st1 c1 where st1: "(case GetUserSession st token of None \<Rightarrow> Some st
      | Some a \<Rightarrow> do { us \<leftarrow> sessions st a; Some (upd_session st a (us\<lparr>nub := Character_ResetPos (nub us)\<rparr>)) }) = Some st1"
    "new_broadcast e zid (P_SC_LEAVE (SC_P_LEAVE_SetToken SC_P_LEAVE token)) = Some c1"
    "st' = add_cmd c1 (st1\<lparr>zoneMgr := ZoneMgr_LeaveCharacter (zoneMgr st1) zid token\<rparr>)"
    using assms(1) by (auto simp: Let_def Option.bind_eq_Some_conv)
  have "quiet st st1"
    using st1(1) by (auto simp: Option.bind_eq_Some_conv identity_Some character_defs
        intro!: quiet_upd_session split: option.splits)
  then have "quiet (st\<lparr>zoneMgr := ZoneMgr_LeaveCharacter (zoneMgr st) zid token\<rparr>)
      (st1\<lparr>zoneMgr := ZoneMgr_LeaveCharacter (zoneMgr st1) zid token\<rparr>)"
    by (simp add: quiet_def links_def)
  then have "quiet (st\<lparr>zoneMgr := ZoneMgr_LeaveCharacter (zoneMgr st) zid token\<rparr>) st'"
    unfolding st1(3) using quiet_add_cmd [OF new_cmds_ok(1) [OF st1(2)]] quiet_trans by blast
  then show ?thesis using one_zone_Leave by blast
next
  case (SendCharacterList token zid)
  have "quiet st st'"
    using assms(1) SendCharacterList
    by (auto simp: Option.bind_eq_Some_conv split: option.splits if_splits
        dest!: quiet_send_list new_cmds_ok intro: quiet_trans quiet_add_cmd)
  then show ?thesis by (rule quiet_zone)
qed

lemma Operator_wf:
  assumes "Operator e c st = Some st'" and "cmd_ok c" and "server_wf st"
  shows "server_wf st'"
proof -
  obtain zm where zm: "one_zone (zoneMgr st) \<longrightarrow> one_zone zm" "quiet (st\<lparr>zoneMgr := zm\<rparr>) st'"
    using Operator_split [OF assms(1,2)] by blast
  have "server_wf (st\<lparr>zoneMgr := zm\<rparr>)"
    using assms(3) zm(1) wf_zone [of "{}" st zm] by (auto simp: server_wf_def wf_upto_def)
  then show ?thesis by (rule quiet_server_wf [OF zm(2)])
qed

lemma Operator_users:
  assumes "Operator e c st = Some st'" and "cmd_ok c" and "users_live st"
  shows "users_live st'"
proof -
  obtain zm where zm: "quiet (st\<lparr>zoneMgr := zm\<rparr>) st'" using Operator_split [OF assms(1,2)] by blast
  have "users_live (st\<lparr>zoneMgr := zm\<rparr>)" using assms(3) by (simp add: users_live_def)
  then show ?thesis by (rule quiet_users [OF zm])
qed

lemma ProcessAll_wf:
  "ProcessAll (Operator e) cs st = Some st' \<Longrightarrow> list_all cmd_ok cs \<Longrightarrow> server_wf st \<Longrightarrow> server_wf st'"
  by (induction cs arbitrary: st) (auto simp: Option.bind_eq_Some_conv dest: Operator_wf)

lemma ProcessAll_users:
  "ProcessAll (Operator e) cs st = Some st' \<Longrightarrow> list_all cmd_ok cs \<Longrightarrow> users_live st \<Longrightarrow> users_live st'"
  by (induction cs arbitrary: st) (auto simp: Option.bind_eq_Some_conv dest: Operator_users)

lemma Tick_wf:
  assumes "server_Tick e st = Some st'" and "server_wf st"
  shows "server_wf st'" "users_live st \<Longrightarrow> users_live st'"
proof -
  have ok: "list_all cmd_ok (cmds (commandQueue st))" using assms(2) by (simp add: server_wf_def wf_upto_def)
  have run: "ProcessAll (Operator e) (cmds (commandQueue st)) (st\<lparr>commandQueue := CommandUnitQueue\<rparr>) = Some st'"
    using assms(1) by (simp add: server_Tick_eq)
  have "server_wf (st\<lparr>commandQueue := CommandUnitQueue\<rparr>)"
    using assms(2) by (simp add: server_wf_def wf_upto_def linked_def CommandUnitQueue_def)
  then show "server_wf st'" by (rule ProcessAll_wf [OF run ok])
  assume "users_live st"
  then have "users_live (st\<lparr>commandQueue := CommandUnitQueue\<rparr>)" by (simp add: users_live_def)
  then show "users_live st'" by (rule ProcessAll_users [OF run ok])
qed

subsection \<open>The process thread keeps the state well-formed\<close>

lemma Serializer_recv_bounds:
  assumes "Serializer_recv junk src len = Some s"
  shows "unat len \<le> length src \<or> max_packet < unat len"
  using assms
  by (auto simp: Serializer_recv_def ser_Write_def BufferBase_Write_def BufferBase_def GetEmptySize_def
      mem_read_def Let_def Option.bind_eq_Some_conv word_less_nat_alt not_less split: if_splits)

text \<open>What a buffer is dispatched to: a handler with some packet of the type it announces, or none.\<close>

definition packet_type :: "bytes \<Rightarrow> u32" where
  "packet_type data = body_type (drop 8 data) (ui32Length (head_of (take 8 data)) - 8 - 12)"

lemma c2s_functor_calls:
  assumes "c2s_functor junk f tag = Some pf" and "pf data len st = Some x"
  shows "\<exists>p. c2s_tag p = tag \<and> f st p = Some x"
  using assms
  by (cases tag; clarsimp simp: PacketFunctor_Execute_def Option.bind_eq_Some_conv; metis c2s_tag.simps)

definition c2s_tags :: "PacketTypeC2S list" where
  "c2s_tags = [C2S_invalid, C2S_auth, C2S_enter, C2S_leave, C2S_move, C2S_interaction, C2S_heartbeat, C2S_echo]"

lemma c2s_tags_codes: "map c2s_code c2s_tags = map of_nat [0 ..< length c2s_tags]"
  by (simp add: c2s_tags_def upt_rec)

lemma Execute_calls:
  assumes h: "RegisterPacketHandlers e a = Some h"
    and x: "PacketHandler_Execute junk h data len st = Some (r, st')"
  shows "st' = st \<or> (\<exists>p. c2s_handle e a st p = Some (r, st') \<and> c2s_code (c2s_tag p) = body_type data len)"
proof -
  obtain s where "Serializer_recv junk data len = Some s"
    using x by (auto simp: PacketHandler_Execute_def Option.bind_eq_Some_conv)
  then have b: "unat len \<le> length data \<or> max_packet < unat len" by (rule Serializer_recv_bounds)
  let ?i = "unat (body_type data len)"
  have fs: "packetFunctors h = map (c2s_functor (e_junk e) (c2s_handle e a)) c2s_tags"
    using server_handlers [of e a] h by (auto simp: c2s_tags_def)
  have run: "?i < length c2s_tags" "(case packetFunctors h ! ?i of
      Some pf \<Rightarrow> pf data len st | None \<Rightarrow> Some (False, st)) = Some (r, st')"
    using x unfolding PacketHandler_Execute_eq [OF b] by (simp_all add: fs split: if_splits)
  have code: "c2s_code (c2s_tags ! ?i) = body_type data len"
    using arg_cong [OF c2s_tags_codes, of "\<lambda>xs. xs ! ?i"] run(1) by simp
  show ?thesis
  proof (cases "packetFunctors h ! ?i")
    case None
    then show ?thesis using run(2) by simp
  next
    case (Some pf)
    then have "c2s_functor (e_junk e) (c2s_handle e a) (c2s_tags ! ?i) = Some pf" using run(1) by (simp add: fs)
    from c2s_functor_calls [OF this, of data len st] show ?thesis using run(2) Some code by auto
  qed
qed

lemma MessageProcess_calls:
  assumes "MessageProcess e a st data n = Some (r, st')"
  shows "st' = st \<or> (\<exists>p. c2s_handle e a st p = Some (r, st') \<and> c2s_code (c2s_tag p) = packet_type data)"
  using assms Execute_calls
  by (fastforce simp: MessageProcess_def packet_type_def mem_read_def Let_def Option.bind_eq_Some_conv
      split: if_splits)

text \<open>Attaching a new session to a connector that has none.\<close>

lemma attach_wf:
  assumes wf: "server_wf st" and free: "params (net st) c = None"
    and room: "mgr_room base (sm_objects st)" and get: "ObjectMgr_GetFreeObject base (sm_objects st) = (a, m)"
    and new: "sm_objects st' = m" "identity st' = (identity st)(a \<mapsto> (Some c, t))"
      "params (net st') = (params (net st))(c \<mapsto> a)" "userMap st' = userMap st" "zoneMgr st' = zoneMgr st"
      "commandQueue st' = commandQueue st" "releaseList st' = releaseList st"
  shows "server_wf st'" "identity st a = None" "users_live st \<Longrightarrow> users_live st'"
proof -
  have ok: "mgr_ok (sm_objects st)" and l: "linked {} st"
    and dom: "\<forall>b. identity st b \<noteq> None \<longleftrightarrow> b \<in> mgr_in_use (sm_objects st)"
    using wf by (auto simp: server_wf_def wf_upto_def)
  have m: "mgr_ok m" "a \<notin> mgr_in_use (sm_objects st)" "mgr_in_use m = insert a (mgr_in_use (sm_objects st))"
    using mgr.take_ok [OF ok room get] by auto
  show none: "identity st a = None" using dom m(2) by blast
  have nobody: "params (net st) d \<noteq> Some a" for d using linked_params [OF l, of d a] none by simp
  have nowhere: "identity st b \<noteq> Some (Some c, u)" for b u using linked_params [OF l, of c b] free by simp
  have "linked {} st'"
  proof (rule linkedI)
    fix b p u assume "identity st' b = Some (p, u)"
    then show "p \<noteq> None" using l unfolding new by (auto simp: linked_def split: if_splits)
  next
    fix d b
    show "params (net st') d = Some b \<longleftrightarrow> b \<notin> {} \<and> (\<exists>u. identity st' b = Some (Some d, u))"
      using linked_params [OF l, of d b] nobody [of d] nowhere [of b] unfolding new by auto
  qed
  then show "server_wf st'"
    using wf m dom unfolding server_wf_def wf_upto_def new by (auto simp: new)
  show "users_live st'" if live: "users_live st"
    unfolding users_live_def
  proof clarify
    fix k b assume "(k, b) \<in> set (userMap st')"
    then obtain p u where "identity st b = Some (p, u)" "sint u = k"
      using live by (auto simp: users_live_def new)
    then show "\<exists>p t. identity st' b = Some (p, t) \<and> sint t = k" using none by (auto simp: new)
  qed
qed

text \<open>
  One round: the tail check may disconnect the connector of the round before, the rest is the dispatch
  on the session of the packet's connector, which is created first if there is none.
\<close>

definition dispatch_session :: "svr_env \<Rightarrow> addr \<Rightarrow> server \<Rightarrow> addr \<times> server" where
  "dispatch_session e c st =
     (case params (net st) c of
        Some a \<Rightarrow> (a, st)
      | None \<Rightarrow>
          (case GetFreeSession (e_base e) st of (a, st1) \<Rightarrow>
             (a, upd_session (st1\<lparr>net := upd_connector (net st1) c ((connectors (net st1) c)\<lparr>cn_param := Some a\<rparr>)\<rparr>)
                   a ((UserSession (unique_session_uid st1))\<lparr>us_pConnector := Some c\<rparr>))))"

lemma ProcessThread_round_split:
  assumes "ProcessThread_round e st p = Some st'"
  shows "\<exists>st0. quiet st st0 \<and> (st' = st0 \<or> (\<exists>c a st1 r. ps_pConnector p = Some c \<and>
    dispatch_session e c st0 = (a, st1) \<and>
    MessageProcess e a st1 (pBuffer p) (nDataSize p) = Some (r, st')))"
proof -
  obtain hd tl where r: "(let st = (if PACKET_CHECK_TAIL_KEY \<noteq> le_word tl
               then st\<lparr>net := snd (Disconnect (net st) (loop_pConnector st))\<rparr> else st);
     st = st\<lparr>loop_pConnector := ps_pConnector p\<rparr> in
     (case ps_pConnector p of
        None \<Rightarrow> Some st
      | Some c \<Rightarrow>
          (case cn_param (connectors (net st) c) of
             Some a \<Rightarrow> do { (r, st) \<leftarrow> MessageProcess e a st (pBuffer p) (nDataSize p); Some st }
           | None \<Rightarrow>
               (case GetFreeSession (e_base e) st of (a, st) \<Rightarrow> do {
                  let nt = upd_connector (net st) c ((connectors (net st) c)\<lparr>cn_param := Some a\<rparr>);
                  let st = st\<lparr>net := nt\<rparr>;
                  us \<leftarrow> sessions st a;
                  let st = upd_session st a (us\<lparr>us_pConnector := Some c\<rparr>);
                  (r, st) \<leftarrow> MessageProcess e a st (pBuffer p) (nDataSize p);
                  Some st })))) = Some st'"
    using assms unfolding ProcessThread_round_def Let_def Option.bind_eq_Some_conv by blast
  define st0 where "st0 = (if PACKET_CHECK_TAIL_KEY \<noteq> le_word tl
    then st\<lparr>net := snd (Disconnect (net st) (loop_pConnector st))\<rparr> else st)\<lparr>loop_pConnector := ps_pConnector p\<rparr>"
  have q: "quiet st st0" by (auto simp: st0_def quiet_def links_def)
  have fresh: "sessions st1 a = Some (UserSession (unique_session_uid st1))"
    if "GetFreeSession b s = (a, st1)" for b s a st1
    using that by (auto simp: GetFreeSession_def upd_session_def Let_def split: prod.splits)
  show ?thesis
  proof (cases "ps_pConnector p")
    case None
    then show ?thesis using r q by (auto simp: Let_def st0_def)
  next
    case (Some c)
    note r' = r [unfolded Let_def Some option.case, folded st0_def [unfolded Some]]
    show ?thesis
    proof (cases "params (net st0) c")
      case None
      obtain a st1 where g: "GetFreeSession (e_base e) st0 = (a, st1)" by fastforce
      show ?thesis
        using r' None q fresh [OF g] Some g
        by (auto simp: params_def dispatch_session_def Option.bind_eq_Some_conv)
    next
      case (Some a)
      then show ?thesis
        using r' q \<open>ps_pConnector p = Some c\<close>
        by (auto simp: params_def dispatch_session_def Option.bind_eq_Some_conv)
    qed
  qed
qed

lemma dispatch_session_wf:
  assumes wf: "server_wf st" and room: "mgr_room (e_base e) (sm_objects st)"
    and d: "dispatch_session e c st = (a, st')"
  shows "server_wf st'" "users_live st \<Longrightarrow> users_live st'"
    "users_live st \<Longrightarrow> params (net st) c = None \<Longrightarrow> a \<notin> snd ` set (userMap st')" "userMap st' = userMap st"
proof -
  have "server_wf st' \<and> (users_live st \<longrightarrow> users_live st') \<and> userMap st' = userMap st \<and>
    (users_live st \<longrightarrow> params (net st) c = None \<longrightarrow> a \<notin> snd ` set (userMap st'))"
  proof (cases "params (net st) c")
    case (Some b)
    then show ?thesis using d wf by (auto simp: dispatch_session_def)
  next
    case None
    obtain b m where g: "ObjectMgr_GetFreeObject (e_base e) (sm_objects st) = (b, m)" by fastforce
    let ?uid = "unique_session_uid st + 1"
    let ?st1 = "(upd_session st b (UserSession ?uid))\<lparr>sm_objects := m, unique_session_uid := ?uid\<rparr>"
    have st': "a = b" "st' = upd_session (?st1\<lparr>net := upd_connector (net st) c
        ((connectors (net st) c)\<lparr>cn_param := Some b\<rparr>)\<rparr>) b ((UserSession ?uid)\<lparr>us_pConnector := Some c\<rparr>)"
      using d None g by (auto simp: dispatch_session_def GetFreeSession_def upd_session_def Let_def)
    have i: "identity st' = (identity st)(b \<mapsto> (Some c, ch_token Character_init))"
      by (auto simp: st'(2) UserSession_def)
    have rest: "sm_objects st' = m" "params (net st') = (params (net st))(c \<mapsto> b)"
      "userMap st' = userMap st" "zoneMgr st' = zoneMgr st"
      "commandQueue st' = commandQueue st" "releaseList st' = releaseList st"
      unfolding st'(2) by (simp_all add: upd_session_def)
    note new = attach_wf [OF wf None room g rest(1) i rest(2-6)]
    have "b \<notin> snd ` set (userMap st)" if "users_live st"
      using that new(2) by (fastforce simp: users_live_def)
    then show ?thesis using new(1,3) st'(1) rest(3) by simp
  qed
  then show "server_wf st'" "users_live st \<Longrightarrow> users_live st'" "userMap st' = userMap st"
    "users_live st \<Longrightarrow> params (net st) c = None \<Longrightarrow> a \<notin> snd ` set (userMap st')"
    by blast+
qed

text \<open>The packet does not ask to authenticate a session that is in the user map already.\<close>

definition auth_once :: "server \<Rightarrow> PacketStruct \<Rightarrow> bool" where
  "auth_once st p \<longleftrightarrow> packet_type (pBuffer p) = c2s_code C2S_auth \<longrightarrow>
     (case ps_pConnector p of None \<Rightarrow> True | Some c \<Rightarrow>
        (case params (net st) c of None \<Rightarrow> True | Some a \<Rightarrow> a \<notin> snd ` set (userMap st)))"

lemma quiet_sel:
  assumes "quiet st st'"
  shows "sm_objects st' = sm_objects st" "userMap st' = userMap st" "params (net st') = params (net st)"
    "identity st' = identity st" "zoneMgr st' = zoneMgr st" "releaseList st' = releaseList st"
  using assms by (simp_all add: quiet_def links_def)

lemma quiet_auth_once: "quiet st st' \<Longrightarrow> auth_once st' p \<longleftrightarrow> auth_once st p"
  by (simp add: auth_once_def quiet_sel cong: option.case_cong)

lemma auth_params:
  assumes "C2S_Auth e a st p = Some (r, st')"
  shows "params (net st') = params (net st)"
proof -
  obtain us t where "quiet (st\<lparr>sessions := (sessions st)(a \<mapsto> us\<lparr>nub := Character_SetToken (Character_SetId (nub us) (auth_id p)) t\<rparr>),
      unique_id := unique_id st + 1, userMap := omap_insert (sint t) a (userMap st)\<rparr>) st'"
    using C2S_Auth_split [OF assms] by metis
  from quiet_sel(3) [OF this] show ?thesis by simp
qed

lemma process_wf:
  assumes run: "ProcessThread_round e st p = Some st'" and wf: "server_wf st"
    and room: "mgr_room (e_base e) (sm_objects st)"
  shows "server_wf st'" "users_live st \<Longrightarrow> auth_once st p \<Longrightarrow> users_live st'"
proof -
  obtain st0 where q: "quiet st st0" and st0: "st' = st0 \<or> (\<exists>c a st1 r. ps_pConnector p = Some c \<and>
      dispatch_session e c st0 = (a, st1) \<and> MessageProcess e a st1 (pBuffer p) (nDataSize p) = Some (r, st'))"
    using ProcessThread_round_split [OF run] by blast
  have wf0: "server_wf st0" and room0: "mgr_room (e_base e) (sm_objects st0)"
    using quiet_server_wf [OF q wf] room quiet_sel [OF q] by simp_all
  have "server_wf st' \<and> (users_live st \<longrightarrow> auth_once st p \<longrightarrow> users_live st')"
  proof (cases "st' = st0")
    case True
    then show ?thesis using wf0 quiet_users [OF q] by simp
  next
    case False
    then obtain c a st1 r where c: "ps_pConnector p = Some c" and d: "dispatch_session e c st0 = (a, st1)"
      and m: "MessageProcess e a st1 (pBuffer p) (nDataSize p) = Some (r, st')"
      using st0 by blast
    note ds = dispatch_session_wf [OF wf0 room0 d]
    have once: "a \<notin> snd ` set (userMap st1)"
      if "users_live st" "auth_once st p" "packet_type (pBuffer p) = c2s_code C2S_auth"
    proof (cases "params (net st0) c")
      case None
      then show ?thesis using ds(3) quiet_users [OF q that(1)] by blast
    next
      case (Some b)
      then show ?thesis
        using that(2,3) c d quiet_sel [OF q] by (simp add: auth_once_def dispatch_session_def)
    qed
    from MessageProcess_calls [OF m] show ?thesis
    proof
      assume "st' = st1"
      then show ?thesis using ds(1,2) quiet_users [OF q] by blast
    next
      assume "\<exists>p'. c2s_handle e a st1 p' = Some (r, st') \<and> c2s_code (c2s_tag p') = packet_type (pBuffer p)"
      then obtain p' where p': "c2s_handle e a st1 p' = Some (r, st')" "c2s_code (c2s_tag p') = packet_type (pBuffer p)"
        by blast
      have "users_live st'" if "users_live st" "auth_once st p"
      proof -
        have "is_auth p' \<longrightarrow> a \<notin> snd ` set (userMap st1)" 
          using once [OF that] p'(2) unfolding is_auth_def by metis
        then show ?thesis by (rule handler_users [OF p'(1) ds(1) ds(2) [OF quiet_users [OF q that(1)]]])
      qed
      then show ?thesis using handler_wf [OF p'(1) ds(1)] by blast
    qed
  qed
  then show "server_wf st'" "users_live st \<Longrightarrow> auth_once st p \<Longrightarrow> users_live st'" by blast+
qed

subsection \<open>The update thread keeps the state well-formed\<close>

lemma upd_session_twice [simp]:
  "upd_session (upd_session st a us) a us' = upd_session st a us'"
  "SetReleaseObj b (upd_session st a us) = upd_session (SetReleaseObj b st) a us"
  "net (upd_session st a us) = net st"
  by (simp_all add: upd_session_def SetReleaseObj_def)

text \<open>The update of a session by cases: not due, its connector gone, heartbeat due, or nothing more.\<close>

lemma session_update_eq:
  assumes "sessions st a = Some us"
  shows "UserSession_DoUpdate e t a st =
    (if t \<le> us_UpdateTime us then Some st
     else case us_pConnector us of
       None \<Rightarrow> Some (upd_session (SetReleaseObj a st) a (us\<lparr>us_UpdateTime := INT64_MAX\<rparr>))
     | Some c \<Rightarrow>
         if \<not> GetActive (connectors (net st) c)
         then Some (upd_session (SetReleaseObj a st) a (us\<lparr>us_UpdateTime := INT64_MAX\<rparr>))
         else if t \<le> us_HeartbeatTimer us
         then Some (upd_session st a (us\<lparr>us_UpdateTime := t + MILLISEC_A_SEC * 5\<rparr>))
         else if 4 < sint (us_HeartbeatCount us + 1)
         then Some ((upd_session st a (us\<lparr>us_UpdateTime := t + MILLISEC_A_SEC * 5, us_HeartbeatCount := us_HeartbeatCount us + 1,
                us_HeartbeatTimer := INT64_MAX\<rparr>))\<lparr>net := net_TryRelease (net st) c\<rparr>)
         else map_option snd (SendPacket e (upd_session st a (us\<lparr>us_UpdateTime := t + MILLISEC_A_SEC * 5,
                us_HeartbeatTimer := t + MILLISEC_A_SEC * 15, us_HeartbeatCount := us_HeartbeatCount us + 1\<rparr>))
                a (P_SC_HEARTBEAT SC_P_HEARTBEAT)))"
  using assms
  by (auto simp: UserSession_DoUpdate_def Let_def map_option_case case_prod_unfold
      split: option.splits Option.bind_splits)

lemma session_update_quiet:
  assumes "UserSession_DoUpdate e t a st = Some st'"
  shows "\<exists>rel. (rel = [] \<or> rel = [a]) \<and> quiet (st\<lparr>releaseList := releaseList st @ rel\<rparr>) st'"
proof -
  obtain us where us: "sessions st a = Some us"
    using assms by (auto simp: UserSession_DoUpdate_def Option.bind_eq_Some_conv)
  have i: "identity st a = Some (us_pConnector us, ch_token (nub us))" by (rule identity_Some [OF us])
  have upd: "quiet st (upd_session st a us')"
    if "us_pConnector us' = us_pConnector us" "ch_token (nub us') = ch_token (nub us)" for us'
    using i that by (intro quiet_upd_session) simp
  have release: "quiet (st\<lparr>releaseList := releaseList st @ [a]\<rparr>) (upd_session (SetReleaseObj a st) a us')"
    if "us_pConnector us' = us_pConnector us" "ch_token (nub us') = ch_token (nub us)" for us'
    using i that quiet_upd_session [of "SetReleaseObj a st" a us'] by (simp add: SetReleaseObj_def)
  have close: "quiet st ((upd_session st a us')\<lparr>net := net_TryRelease (net st) c\<rparr>)"
    if "us_pConnector us' = us_pConnector us" "ch_token (nub us') = ch_token (nub us)" for us' c
    using upd [OF that] by (rule quiet_trans) (simp add: quiet_net)
  have beat: "quiet st st''"
    if "SendPacket e (upd_session st a us') a p = Some (r, st'')" "us_pConnector us' = us_pConnector us"
      "ch_token (nub us') = ch_token (nub us)" for us' p r st''
    using quiet_trans [OF upd [OF that(2,3)] quiet_SendPacket [OF that(1)]] .
  have same: ?thesis if "quiet st st'" using that by (intro exI [of _ "[]"]) simp
  have free: ?thesis if "quiet (st\<lparr>releaseList := releaseList st @ [a]\<rparr>) st'" using that by blast
  show ?thesis
  proof (cases "us_pConnector us")
    case None
    show ?thesis
    proof (cases "t \<le> us_UpdateTime us")
      case True
      then show ?thesis using assms by (intro same) (simp add: session_update_eq [OF us])
    next
      case False
      then show ?thesis
        using assms None release by (intro free) (auto simp: session_update_eq [OF us])
    qed
  next
    case (Some c)
    consider "t \<le> us_UpdateTime us" | "us_UpdateTime us < t" "\<not> GetActive (connectors (net st) c)"
      | "us_UpdateTime us < t" "GetActive (connectors (net st) c)" by linarith
    then show ?thesis
    proof cases
      case 1
      then show ?thesis using assms by (intro same) (simp add: session_update_eq [OF us])
    next
      case 2
      then show ?thesis using assms Some release by (intro free) (auto simp: session_update_eq [OF us])
    next
      case 3
      then show ?thesis
        using assms Some upd close
        by (intro same) (auto simp: session_update_eq [OF us] split: if_splits
            intro: beat)
    qed
  qed
qed

lemma session_updates_quiet:
  assumes "for_each (UserSession_DoUpdate e t) as st = Some st'"
  shows "\<exists>rel. set rel \<subseteq> set as \<and> (distinct as \<longrightarrow> distinct rel) \<and>
    quiet (st\<lparr>releaseList := releaseList st @ rel\<rparr>) st'"
  using assms
proof (induction as arbitrary: st)
  case Nil
  then show ?case by (intro exI [of _ "[]"]) simp
next
  case (Cons a as)
  then obtain st1 where st1: "UserSession_DoUpdate e t a st = Some st1" "for_each (UserSession_DoUpdate e t) as st1 = Some st'"
    by (auto simp: Option.bind_eq_Some_conv)
  obtain r1 where r1: "r1 = [] \<or> r1 = [a]" "quiet (st\<lparr>releaseList := releaseList st @ r1\<rparr>) st1"
    using session_update_quiet [OF st1(1)] by blast
  obtain r2 where r2: "set r2 \<subseteq> set as" "distinct as \<longrightarrow> distinct r2"
    "quiet (st1\<lparr>releaseList := releaseList st1 @ r2\<rparr>) st'"
    using Cons.IH [OF st1(2)] by blast
  have "quiet (st\<lparr>releaseList := releaseList st @ (r1 @ r2)\<rparr>) (st1\<lparr>releaseList := releaseList st1 @ r2\<rparr>)"
    using r1(2) by (simp add: quiet_def links_def)
  then have "quiet (st\<lparr>releaseList := releaseList st @ (r1 @ r2)\<rparr>) st'" using r2(3) quiet_trans by blast
  then show ?case using r1(1) r2(1,2) by (intro exI [of _ "r1 @ r2"]) auto
qed

text \<open>Releasing detaches the session from its connector; freeing destroys it.\<close>

lemma Release_wf:
  assumes run: "UserSession_Release a st = Some st'" and wf: "wf_upto R st" and out: "a \<notin> R"
  shows "wf_upto (insert a R) st' \<and> identity st' = identity st \<and> userMap st' = userMap st \<and>
    releaseList st' = releaseList st"
proof -
  obtain us where us: "sessions st a = Some us" using run by (auto simp: UserSession_Release_def Option.bind_eq_Some_conv)
  have l: "linked R st" using wf by (simp add: wf_upto_def)
  have i: "identity st a = Some (us_pConnector us, ch_token (nub us))" by (rule identity_Some [OF us])
  then obtain c where c: "us_pConnector us = Some c" using linked_connector [OF l i] by blast
  let ?st1 = "if zoneId (ch_pos (nub us)) \<noteq> 0
    then add_cmd (LeaveCharacter (ch_token (nub us)) (zoneId (ch_pos (nub us)))) st else st"
  let ?st2 = "upd_session ?st1 a (us\<lparr>us_HeartbeatTimer := 0, us_HeartbeatCount := 0, us_UpdateTime := 0\<rparr>)"
  have q1: "quiet st ?st1" by (simp add: quiet_add_cmd)
  have q2: "quiet ?st1 ?st2" using i quiet_sel [OF q1] by (intro quiet_upd_session) (simp split: if_splits)
  have q: "quiet st ?st2" by (rule quiet_trans [OF q1 q2])
  let ?nt = "net_TryRelease (upd_connector (net ?st2) c ((connectors (net ?st2) c)\<lparr>cn_param := None\<rparr>)) c"
  have st': "st' = ?st2\<lparr>net := ?nt\<rparr>"
    using run us c by (simp add: UserSession_Release_def Let_def)
  have p: "params (net st') = (params (net st))(c := None)"
    using quiet_sel(3) [OF q] by (simp add: st')
  have k: "identity st' = identity st" "userMap st' = userMap st" "sm_objects st' = sm_objects st"
    "zoneMgr st' = zoneMgr st" "commandQueue st' = commandQueue ?st2" "releaseList st' = releaseList st"
    using quiet_sel [OF q] by (simp_all add: st')
  have "linked (insert a R) st'"
  proof (rule linkedI)
    fix b q u assume "identity st' b = Some (q, u)"
    then show "q \<noteq> None" using linked_connector [OF l] unfolding k by blast
  next
    fix d b
    show "params (net st') d = Some b \<longleftrightarrow> b \<notin> insert a R \<and> (\<exists>u. identity st' b = Some (Some d, u))"
      using linked_params [OF l, of d b] linked_params [OF l, of c a] i c out unfolding p k by auto
  qed
  moreover have "list_all cmd_ok (cmds (commandQueue ?st2))" using q wf by (simp add: quiet_def wf_upto_def)
  ultimately show ?thesis using wf k unfolding wf_upto_def by simp
qed

lemma Releases_wf:
  assumes "for_each UserSession_Release as st = Some st'" and "wf_upto R st" and "distinct as"
    and "set as \<inter> R = {}"
  shows "wf_upto (set as \<union> R) st' \<and> identity st' = identity st \<and> userMap st' = userMap st \<and>
    releaseList st' = releaseList st"
  using assms
proof (induction as arbitrary: st R)
  case (Cons a as)
  then obtain st1 where st1: "UserSession_Release a st = Some st1" "for_each UserSession_Release as st1 = Some st'"
    by (auto simp: Option.bind_eq_Some_conv)
  have r: "wf_upto (insert a R) st1" "identity st1 = identity st" "userMap st1 = userMap st"
    "releaseList st1 = releaseList st"
    using Release_wf [OF st1(1) Cons.prems(2)] Cons.prems(4) by auto
  have "wf_upto (set as \<union> insert a R) st' \<and> identity st' = identity st1 \<and> userMap st' = userMap st1 \<and>
      releaseList st' = releaseList st1"
    by (rule Cons.IH [OF st1(2) r(1)]) (use Cons.prems in auto)
  then show ?case using r by simp
qed simp

lemma DelUserSessionToken_eq: "DelUserSessionToken t st = st\<lparr>userMap := omap_erase (sint t) (userMap st)\<rparr>"
proof (cases "map_of (userMap st) (sint t)")
  case None
  then have "omap_erase (sint t) (userMap st) = userMap st"
    by (force simp: omap_erase_def map_of_eq_None_iff intro: filter_True)
  then show ?thesis using None by (simp add: DelUserSessionToken_def)
qed (simp add: DelUserSessionToken_def)

lemma Free_wf:
  assumes run: "DelUserSessionMap a st = Some st1" and wf: "wf_upto R st" and rel: "a \<in> R"
  shows "wf_upto (R - {a}) (SetFreeSession a st1)" "releaseList (SetFreeSession a st1) = releaseList st"
    "users_live st \<Longrightarrow> users_live (SetFreeSession a st1)"
proof -
  obtain us where us: "sessions st a = Some us" using run by (auto simp: DelUserSessionMap_def Option.bind_eq_Some_conv)
  have i: "identity st a = Some (us_pConnector us, ch_token (nub us))" by (rule identity_Some [OF us])
  let ?st' = "SetFreeSession a st1"
  have st1: "st1 = st\<lparr>userMap := omap_erase (sint (ch_token (nub us))) (userMap st)\<rparr>"
    using run us by (simp add: DelUserSessionMap_def DelUserSessionToken_eq)
  have k: "identity ?st' = (identity st)(a := None)" "net ?st' = net st" "zoneMgr ?st' = zoneMgr st"
    "sm_objects ?st' = ObjectMgr_SetFreeObject a (sm_objects st)" "commandQueue ?st' = commandQueue st"
    "userMap ?st' = omap_erase (sint (ch_token (nub us))) (userMap st)"
    by (auto simp: SetFreeSession_def st1 identity_def)
  have l: "linked R st" and ok: "mgr_ok (sm_objects st)"
    and dom: "\<And>b. identity st b \<noteq> None \<longleftrightarrow> b \<in> mgr_in_use (sm_objects st)"
    using wf by (simp_all add: wf_upto_def)
  have "linked (R - {a}) ?st'"
  proof (rule linkedI)
    fix b q u assume "identity ?st' b = Some (q, u)"
    then show "q \<noteq> None" using linked_connector [OF l] unfolding k by (simp split: if_splits)
  next
    fix d b
    show "params (net ?st') d = Some b \<longleftrightarrow> b \<notin> R - {a} \<and> (\<exists>u. identity ?st' b = Some (Some d, u))"
      using linked_params [OF l, of d b] rel unfolding k by auto
  qed
  moreover have "mgr_ok (sm_objects ?st')" "mgr_in_use (sm_objects ?st') = mgr_in_use (sm_objects st) - {a}"
    using mgr.give_ok [OF ok, of a] dom [of a] i unfolding k by auto
  ultimately show "wf_upto (R - {a}) ?st'"
    using wf dom unfolding wf_upto_def k by auto
  show "releaseList ?st' = releaseList st" by (simp add: SetFreeSession_def st1)
  assume live: "users_live st"
  show "users_live ?st'"
    unfolding users_live_def
  proof clarify
    fix k' b assume m: "(k', b) \<in> set (userMap ?st')"
    then have m': "(k', b) \<in> set (userMap st)" "k' \<noteq> sint (ch_token (nub us))"
      unfolding k set_omap_erase by auto
    then obtain p u where "identity st b = Some (p, u)" "sint u = k'" using live by (auto simp: users_live_def)
    then show "\<exists>p t. identity ?st' b = Some (p, t) \<and> sint t = k'" using i m'(2) unfolding k by auto
  qed
qed

lemma Frees_wf:
  assumes "for_each (\<lambda>a st. do { st \<leftarrow> DelUserSessionMap a st; Some (SetFreeSession a st) }) as st = Some st'"
    and "wf_upto R st" and "distinct as" and "set as \<subseteq> R"
  shows "wf_upto (R - set as) st' \<and> releaseList st' = releaseList st \<and> (users_live st \<longrightarrow> users_live st')"
  using assms
proof (induction as arbitrary: st R)
  case (Cons a as)
  then obtain st1 where st1: "DelUserSessionMap a st = Some st1"
    "for_each (\<lambda>a st. do { st \<leftarrow> DelUserSessionMap a st; Some (SetFreeSession a st) }) as (SetFreeSession a st1) = Some st'"
    by (auto simp: Option.bind_eq_Some_conv)
  have "a \<in> R" using Cons.prems(4) by simp
  note f = Free_wf [OF st1(1) Cons.prems(2) this]
  have "wf_upto (R - {a} - set as) st' \<and> releaseList st' = releaseList (SetFreeSession a st1) \<and>
      (users_live (SetFreeSession a st1) \<longrightarrow> users_live st')"
    by (rule Cons.IH [OF st1(2) f(1)]) (use Cons.prems in auto)
  moreover have "R - {a} - set as = R - set (a # as)" by auto
  ultimately show ?case using f(2,3) by auto
qed simp

lemma manager_update_wf:
  assumes run: "UserSessionMgr_DoUpdate e t now st = Some st'" and wf: "server_wf st"
  shows "server_wf st'" "users_live st \<Longrightarrow> users_live st'"
proof -
  have "server_wf st' \<and> (users_live st \<longrightarrow> users_live st')"
  proof (cases "sm_UpdateTime st < t")
    case False
    then show ?thesis using run wf by (simp add: UserSessionMgr_DoUpdate_def)
  next
    case True
    then obtain st1 st3 st4 where
      u: "for_each (UserSession_DoUpdate e t) (om_usedList (sm_objects st)) st = Some st1" and
      r: "for_each UserSession_Release (releaseList st1) (st1\<lparr>releaseList := []\<rparr>) = Some st3" and
      f: "for_each (\<lambda>a st. do { st \<leftarrow> DelUserSessionMap a st; Some (SetFreeSession a st) }) (releaseList st1) st3 = Some st4" and
      st': "st' = st4\<lparr>sm_UpdateTime := now + MILLISEC_A_SEC * 5\<rparr>"
      using run by (auto simp: UserSessionMgr_DoUpdate_def SwapReleaseList_def Let_def Option.bind_eq_Some_conv)
    obtain rel where rel: "set rel \<subseteq> set (om_usedList (sm_objects st))"
      "distinct (om_usedList (sm_objects st)) \<longrightarrow> distinct rel"
      "quiet (st\<lparr>releaseList := releaseList st @ rel\<rparr>) st1"
      using session_updates_quiet [OF u] by blast
    have "pool_ok (objectPool (sm_objects st)) (om_usedList (sm_objects st))"
      using wf by (simp add: server_wf_def wf_upto_def mgr_ok_def)
    then have d: "distinct rel" using rel(2) pool_ok_distinct by fastforce
    have rl: "releaseList st1 = rel" using quiet_sel(6) [OF rel(3)] wf by (simp add: server_wf_def)
    have q: "quiet st (st1\<lparr>releaseList := []\<rparr>)"
      using rel(3) wf by (simp add: quiet_def links_def server_wf_def)
    have wf2: "wf_upto {} (st1\<lparr>releaseList := []\<rparr>)" using quiet_server_wf [OF q wf] by (simp add: server_wf_def)
    have r': "wf_upto (set rel) st3" "identity st3 = identity (st1\<lparr>releaseList := []\<rparr>)"
      "userMap st3 = userMap (st1\<lparr>releaseList := []\<rparr>)" "releaseList st3 = []"
      using Releases_wf [OF r wf2] d by (simp_all add: rl)
    have f': "wf_upto {} st4" "releaseList st4 = []" "users_live st3 \<longrightarrow> users_live st4"
      using Frees_wf [OF f r'(1)] d r'(4) by (simp_all add: rl)
    have "users_live st3" if "users_live st"
      using quiet_users [OF q that] r'(2,3) by (simp add: users_live_def)
    then show ?thesis
      using f' unfolding st' by (simp add: server_wf_def wf_upto_def linked_def users_live_def)
  qed
  then show "server_wf st'" "users_live st \<Longrightarrow> users_live st'" by blast+
qed

lemma update_wf:
  assumes run: "UpdateThread_round e t now (nx, st) = Some (nx', st')" and wf: "server_wf st"
  shows "server_wf st'" "users_live st \<Longrightarrow> users_live st'"
proof -
  obtain st1 where st1: "st1 = st \<or> UserSessionMgr_DoUpdate e t now st = Some st1" "server_Tick e st1 = Some st'"
    using run by (auto simp: UpdateThread_round_def Option.bind_eq_Some_conv split: if_splits)
  then have "server_wf st1" "users_live st \<longrightarrow> users_live st1" using wf manager_update_wf by blast+
  then show "server_wf st'" "users_live st \<Longrightarrow> users_live st'" using Tick_wf [OF st1(2)] by blast+
qed

subsection \<open>Handlers on living sessions\<close>

text \<open>A round on a packet that holds the frame of a request.\<close>

lemma server_round_frame:
  assumes v: "c2s_valid p" and pb: "packet_bytes pk = frame (c2s_image p) seq now"
    and n: "unat (nDataSize pk) \<le> length (pBuffer pk)" and c: "ps_pConnector pk = Some c"
  shows "ProcessThread_round e st pk =
    (case dispatch_session e c (st\<lparr>loop_pConnector := Some c\<rparr>) of (a, st1) \<Rightarrow> map_option snd (c2s_handle e a st1 p))"
proof -
  obtain rest tl where r: "pBuffer pk = frame (c2s_image p) seq now @ rest" "unat (nDataSize pk) = length (c2s_image p) + 20"
    "mem_read (pBuffer pk) 0 8 = Some (take 8 (pBuffer pk))"
    "uint (ui32Length (head_of (take 8 (pBuffer pk)))) - 12 = int (length (c2s_image p) + 8)"
    "mem_read (pBuffer pk) (length (c2s_image p) + 8) 4 = Some tl" "le_word tl = PACKET_CHECK_TAIL_KEY"
    using frame_packet_read [OF pb n c2s_image_fits [OF v]] by blast
  have m: "MessageProcess e a st1 (pBuffer pk) (nDataSize pk) = c2s_handle e a st1 p" for a st1
    unfolding r(1) by (rule MessageProcess_dispatch [OF v r(2)])
  have snd: "do { (r, st) \<leftarrow> x; Some st } = map_option snd x" for x :: "(bool \<times> server) option"
    by (cases x) auto
  have tl: "nat (int (length (c2s_image p) + 8)) = length (c2s_image p) + 8" "\<not> int (length (c2s_image p) + 8) < 0"
    by simp_all
  have new: "sessions st1 a = Some (UserSession (unique_session_uid st1))"
    if "GetFreeSession b s = (a, st1)" for b s a st1
    using that by (auto simp: GetFreeSession_def upd_session_def Let_def split: prod.splits)
  show ?thesis
    unfolding ProcessThread_round_def r(3) bind.bind_lunit Let_def r(4) tl if_False if_not_P [OF tl(2)] r(5) r(6) c
      option.case server.simps snd m
    using new by (auto simp: dispatch_session_def params_def split: option.splits prod.splits)
qed

definition terminated :: "c2s_packet \<Rightarrow> bool" where
  "terminated p \<longleftrightarrow> (case p of P_CS_ECHO q \<Rightarrow> 0 \<in> set (echoData q) | _ \<Rightarrow> True)"

lemma SendPacket_total:
  assumes us: "sessions st a = Some us" "us_pConnector us = Some c" and v: "s2c_valid p"
    and live: "send_live (connectors (net st) c)" "e_wsa e \<noteq> WSA_FAILED"
  shows "\<exists>nt. SendPacket e st a p = Some (succ, st\<lparr>net := nt\<rparr>) \<and> send_live (connectors nt c) \<and>
    outstanding (connectors nt c) = conn_out st c @ s2c_frame (e_now e) p"
proof -
  obtain buf n where buf: "make_send_buffer (e_junk e) (e_now e) p = Some (buf, n)" "length buf = max_packet"
    "unat n = length (s2c_frame (e_now e) p)" "take (unat n) buf = s2c_frame (e_now e) p"
    using make_send_buffer_ok [OF v] by blast
  then have n: "0 < unat n" "unat n \<le> max_packet" "unat n \<le> length buf"
    using length_s2c_frame [OF v, of "e_now e"] by auto
  obtain nt where nt: "Write (e_junk e) (e_wsa e) (net st) (Some c) (Some buf) n = Some (succ, nt)"
    "send_live (connectors nt c)" "outstanding (connectors nt c) = conn_out st c @ take (unat n) buf"
    using Write_live [OF live(1) n live(2)] by blast
  then show ?thesis
    using buf(1,4) us by (intro exI [of _ nt]) (simp add: SendPacket_def SendPacket_buffer_def)
qed

lemma echo_answer:
  assumes "echo_valid q"
  shows "\<exists>p. SC_P_ECHO_SetData SC_P_ECHO t (echoData q) (echoDataSize q) = Some p \<and> s2c_valid (P_SC_ECHO p)"
proof -
  let ?n = "echoDataSize q"
  have n: "unat ?n \<le> 32" "length (echoData q) = 32" "unat ?n < 2 ^ 31"
    using assms by (auto simp: echo_valid_def counted_array_def MAX_ECHO_DATA_LENGTH_def)
  have m: "memcpy_s (replicate 32 0) (echoData q) ?n = Some (take (unat ?n) (echoData q) @ replicate (32 - unat ?n) 0)"
    using memcpy_s_fits [of ?n "replicate 32 0" "echoData q"] n by simp
  have s: "sint ?n = int (unat ?n)" using n(1) by (intro sint_pos_small) simp
  have "unat (if sint ?n < 32 then ?n else 32) = unat ?n"
  proof (cases "unat ?n < 32")
    case True
    then have "sint ?n < 32" using s by linarith
    then show ?thesis by simp
  next
    case False
    then have "\<not> sint ?n < 32" "unat ?n = 32" using s n(1) by linarith+
    then show ?thesis by simp
  qed
  then show ?thesis
    using m n by (simp add: SC_P_ECHO_SetData_def SC_P_ECHO_def SC_MAX_ECHO_DATA_LENGTH_def sc_echo_valid_def
        sc_typed_def counted_array_def)
qed

lemma handler_total:
  assumes us: "sessions st a = Some us" "us_pConnector us = Some c" and v: "c2s_valid p" "terminated p"
    and auth: "is_auth p \<Longrightarrow> send_live (connectors (net st) c) \<and> e_wsa e \<noteq> WSA_FAILED"
  shows "\<exists>r. c2s_handle e a st p = Some r"
proof (cases p)
  case (P_CS_AUTH q)
  let ?t = "e_time e * 10000 + (unique_id st + 1)"
  let ?us = "us\<lparr>nub := Character_SetToken (Character_SetId (nub us) (auth_id q)) ?t\<rparr>"
  let ?st = "(upd_session st a ?us)\<lparr>unique_id := unique_id st + 1, userMap := omap_insert (sint ?t) a (userMap st)\<rparr>"
  let ?p = "P_SC_AUTH_RESULT (SC_P_AUTH_RESULT_SetToken SC_P_AUTH_RESULT (auth_id q) ?t)"
  have live: "send_live (connectors (net st) c)" "e_wsa e \<noteq> WSA_FAILED"
    using auth P_CS_AUTH by (simp_all add: is_auth_def)
  have add: "AddUserSessionMap a ((upd_session st a ?us)\<lparr>unique_id := unique_id st + 1\<rparr>) = Some ?st"
    by (simp add: AddUserSessionMap_def upd_session_def Character_SetToken_def)
  have "s2c_valid ?p" by (simp add: sc_typed_def SC_P_AUTH_RESULT_SetToken_def SC_P_AUTH_RESULT_def)
  then obtain nt where nt: "SendPacket e ?st a ?p = Some (succ, ?st\<lparr>net := nt\<rparr>)"
    using SendPacket_total [of ?st a ?us c ?p e] us(2) live by (auto simp: upd_session_def)
  show ?thesis
    using P_CS_AUTH us(1) add nt by (intro exI [of _ "(True, ?st\<lparr>net := nt\<rparr>)"]) (simp add: C2S_Auth_def Let_def)
next
  case (P_CS_ECHO q)
  obtain r where r: "SC_P_ECHO_SetData SC_P_ECHO (ch_token (nub us)) (echoData q) (echoDataSize q) = Some r"
    "s2c_valid (P_SC_ECHO r)"
    using echo_answer [of q "ch_token (nub us)"] v(1) P_CS_ECHO by auto
  then show ?thesis
    using P_CS_ECHO us(1) v(2) new_broadcast_total [OF r(2), of e "zoneId (ch_pos (nub us))"]
    by (auto simp: C2S_Echo_def terminated_def)
next
  case (P_CS_MOVE q)
  have "s2c_valid (P_SC_MOVE (SC_P_MOVE_SetPos SC_P_MOVE t x y))" for t x y
    by (simp add: sc_typed_def SC_P_MOVE_SetPos_def SC_P_MOVE_def)
  from new_broadcast_total [OF this] show ?thesis
    using P_CS_MOVE us(1) by (simp add: C2S_Move_def Let_def) (metis bind.bind_lunit)
next
  case (P_CS_INTERACTION q)
  have "s2c_valid (P_SC_INTERACTION (SC_P_INTERACTION_SetInteraction SC_P_INTERACTION t u k))" for t u k
    by (simp add: sc_typed_def SC_P_INTERACTION_SetInteraction_def SC_P_INTERACTION_def)
  from new_broadcast_total [OF this] show ?thesis
    using P_CS_INTERACTION us(1) by (simp add: C2S_Interaction_def) (metis bind.bind_lunit)
qed (use us in \<open>auto simp: C2S_Enter_def C2S_LEAVE_def C2S_Heartbeat_def Let_def\<close>)

lemma round_total:
  assumes wf: "server_wf st" and room: "mgr_room (e_base e) (sm_objects st)"
    and v: "c2s_valid p" "terminated p" and pb: "packet_bytes pk = frame (c2s_image p) seq now"
    and n: "unat (nDataSize pk) \<le> length (pBuffer pk)" and c: "ps_pConnector pk = Some c"
    and auth: "is_auth p \<Longrightarrow> send_live (connectors (net st) c) \<and> e_wsa e \<noteq> WSA_FAILED"
  shows "\<exists>st'. ProcessThread_round e st pk = Some st' \<and> params (net st') c \<noteq> None"
proof -
  let ?st = "st\<lparr>loop_pConnector := Some c\<rparr>"
  have wf0: "server_wf ?st" using wf by (simp add: server_wf_def wf_upto_def linked_def)
  obtain a st1 where d: "dispatch_session e c ?st = (a, st1)" by fastforce
  have "mgr_room (e_base e) (sm_objects ?st)" using room by simp
  from dispatch_session_wf(1) [OF wf0 this d] have l: "linked {} st1" by (simp add: server_wf_def wf_upto_def)
  have p: "params (net st1) c = Some a"
    using d by (auto simp: dispatch_session_def GetFreeSession_def Let_def split: option.splits prod.splits)
  then obtain t where "identity st1 a = Some (Some c, t)" using linked_params [OF l, of c a] by auto
  then obtain us where us: "sessions st1 a = Some us" "us_pConnector us = Some c" by (auto simp: identity_def)
  have "send_live (connectors (net st1) c)" if "send_live (connectors (net st) c)"
    using that d by (auto simp: dispatch_session_def GetFreeSession_def Let_def send_live_def send_ok_def
        GetActive_def upd_session_def split: option.splits prod.splits)
  then have "is_auth p \<Longrightarrow> send_live (connectors (net st1) c) \<and> e_wsa e \<noteq> WSA_FAILED" using auth by blast
  then obtain r st2 where h: "c2s_handle e a st1 p = Some (r, st2)" using handler_total [OF us v] by fastforce
  have "params (net st2) = params (net st1)"
  proof (cases "is_auth p")
    case True
    then show ?thesis using h auth_params by (cases p) (auto simp: is_auth_def)
  next
    case False
    then show ?thesis using handler_quiet [OF h] quiet_sel(3) by blast
  qed
  then show ?thesis using server_round_frame [OF v(1) pb n c, of e st] d h p by simp
qed

subsection \<open>Runs of the server\<close>

definition Server_init :: "network \<Rightarrow> server" where
  "Server_init nt = \<lparr>net = nt, sessions = (\<lambda>a. None), unique_session_uid = 0, sm_objects = ObjectMgrBase,
     releaseList = [], userMap = [], sm_UpdateTime = 0, zoneMgr = ZoneMgr, commandQueue = CommandUnitQueue,
     unique_id = 0, loop_pConnector = None\<rparr>"

text \<open>
  One round of a thread.  The allocator answers with storage that is not in use; with \<open>once\<close> the clients
  authenticate each session at most once.
\<close>

inductive server_step :: "bool \<Rightarrow> server \<Rightarrow> server \<Rightarrow> bool" for once where
  worker: "fresh_storage (env_fresh oe) (net st) \<Longrightarrow> WorkerThread_round oe (net st) k = Some nt \<Longrightarrow>
    server_step once st (st\<lparr>net := nt\<rparr>)"
| accept: "fresh_storage fresh (net st) \<Longrightarrow> AcceptThread_round junk fresh s ok w (net st) = Some nt \<Longrightarrow>
    server_step once st (st\<lparr>net := nt\<rparr>)"
| process: "RecvPacketQueue_Pop (recvPacketQueue (net st)) 0 = Returns (Some p, q) \<Longrightarrow>
    mgr_room (e_base e) (sm_objects st) \<Longrightarrow> (once \<longrightarrow> auth_once st p) \<Longrightarrow>
    ProcessThread_round e (st\<lparr>net := (net st)\<lparr>recvPacketQueue := q\<rparr>\<rparr>) p = Some st' \<Longrightarrow> server_step once st st'"
| update: "UpdateThread_round e t now (nx, st) = Some (nx', st') \<Longrightarrow> server_step once st st'"

inductive server_reaches :: "bool \<Rightarrow> network \<Rightarrow> server \<Rightarrow> bool" for once nt where
  start: "server_reaches once nt (Server_init nt)"
| later: "server_reaches once nt st \<Longrightarrow> server_step once st st' \<Longrightarrow> server_reaches once nt st'"

lemma init_wf:
  assumes "\<forall>c. cn_param (connectors nt c) = None"
  shows "server_wf (Server_init nt)" "users_live (Server_init nt)"
proof -
  have i: "identity (Server_init nt) = (\<lambda>a. None)" by (auto simp: identity_def Server_init_def)
  have p: "params (net (Server_init nt)) = (\<lambda>c. None)" using assms by (auto simp: params_def Server_init_def)
  have "one_zone ZoneMgr" using zone_mgr_ok_new by (simp add: one_zone_def ZoneMgr_def ObjectMgrBase_def)
  then show "server_wf (Server_init nt)"
    unfolding server_wf_def wf_upto_def linked_def i p using mgr_ok_new(1)
    by (simp add: Server_init_def ObjectMgrBase_def CommandUnitQueue_def)
  show "users_live (Server_init nt)" by (simp add: users_live_def Server_init_def)
qed

lemma step_wf:
  assumes "server_step once st st'" and "server_wf st"
  shows "server_wf st' \<and> (once \<longrightarrow> users_live st \<longrightarrow> users_live st')"
  using assms(1)
proof cases
  case (worker oe k nt)
  then have "quiet st st'" using params_WorkerThread_round by (simp add: quiet_net)
  then show ?thesis using assms(2) quiet_server_wf quiet_users by blast
next
  case (accept fresh junk s ok w nt)
  then have "quiet st st'" using params_AcceptThread_round by (simp add: quiet_net)
  then show ?thesis using assms(2) quiet_server_wf quiet_users by blast
next
  case (process p q e)
  let ?st = "st\<lparr>net := (net st)\<lparr>recvPacketQueue := q\<rparr>\<rparr>"
  have k: "quiet st ?st" by (rule quiet_net) simp
  have "server_wf ?st" "mgr_room (e_base e) (sm_objects ?st)" "once \<longrightarrow> auth_once ?st p"
    using process quiet_server_wf [OF k assms(2)] quiet_auth_once [OF k] by simp_all
  then show ?thesis using process_wf [OF process(4)] quiet_users [OF k] by blast
next
  case (update e t now nx nx')
  then show ?thesis using update_wf assms(2) by blast
qed

lemma reaches_wf:
  assumes "server_reaches once nt st" and "\<forall>c. cn_param (connectors nt c) = None"
  shows "server_wf st \<and> (once \<longrightarrow> users_live st)"
  using assms(1) by induction (use init_wf [OF assms(2)] step_wf in blast)+

subsection \<open>A first request\<close>

definition demo_packet :: "c2s_packet \<Rightarrow> PacketStruct" where
  "demo_packet p = (GetFreePacketStruct (\<lambda>_. 0))\<lparr>pBuffer := frame (c2s_image p) 0 9,
     nDataSize := of_nat (length (frame (c2s_image p) 0 9)), ps_pConnector := Some 0\<rparr>"

lemma demo_packet_ok:
  assumes "c2s_valid p"
  shows "packet_bytes (demo_packet p) = frame (c2s_image p) 0 9"
    "unat (nDataSize (demo_packet p)) \<le> length (pBuffer (demo_packet p))" "ps_pConnector (demo_packet p) = Some 0"
  using c2s_image_fits [OF assms] unat_len20 [of "length (c2s_image p)"]
  by (simp_all add: demo_packet_def packet_bytes_def)

definition demo_inbox :: "c2s_packet \<Rightarrow> network" where
  "demo_inbox p = (demo_net 7)\<lparr>recvPacketQueue := \<lparr>hQueueEvent = replicate 5 False,
     lstPacketQueue = [demo_packet p] # replicate 4 []\<rparr>\<rparr>"

lemma init_room: "mgr_room b (sm_objects (Server_init nt))"
  by (simp add: Server_init_def ObjectMgrBase_def fresh_block_def pool_slots_def ObjectPool_def)

lemma demo_inbox_ok:
  "\<forall>c. cn_param (connectors (demo_inbox p) c) = None" "send_live (connectors (demo_inbox p) 0)"
  "RecvPacketQueue_Pop (recvPacketQueue (demo_inbox p)) 0 =
     Returns (Some (demo_packet p), \<lparr>hQueueEvent = replicate 5 False, lstPacketQueue = [] # replicate 4 []\<rparr>)"
proof -
  have "(7 :: SOCKET) \<noteq> INVALID_SOCKET" by (simp add: INVALID_SOCKET_def)
  from demo_net_ok(1) [OF this] show "send_live (connectors (demo_inbox p) 0)" by (simp add: demo_inbox_def)
  show "\<forall>c. cn_param (connectors (demo_inbox p) c) = None" by (simp add: demo_inbox_def demo_net_def Connector_def)
  show "RecvPacketQueue_Pop (recvPacketQueue (demo_inbox p)) 0 =
     Returns (Some (demo_packet p), \<lparr>hQueueEvent = replicate 5 False, lstPacketQueue = [] # replicate 4 []\<rparr>)"
    by (simp add: demo_inbox_def RecvPacketQueue_Pop_def PacketDataQueue_Pop_def Pop_look_def Pop_front_def MAX_PACKET_QUEUE_PHASE_def)
qed

lemma demo_auth_run:
  "\<exists>st a. server_reaches True (demo_inbox (P_CS_AUTH CS_P_AUTH)) st \<and> GetUserSession st 1000001 = Some a"
proof -
  let ?p = "P_CS_AUTH CS_P_AUTH" and ?q = "\<lparr>hQueueEvent = replicate 5 False, lstPacketQueue = [] # replicate 4 []\<rparr>"
  let ?nt = "demo_inbox ?p"
  let ?st = "(Server_init ?nt)\<lparr>net := ?nt\<lparr>recvPacketQueue := ?q\<rparr>\<rparr>"
  have v: "c2s_valid ?p" "terminated ?p" by (simp_all add: cs_typed_def CS_P_AUTH_def terminated_def)
  note k = demo_inbox_ok [where p = ?p] and d = demo_packet_ok [OF v(1)]
  have net0: "net (Server_init ?nt) = ?nt" "userMap (Server_init ?nt) = []" "unique_id (Server_init ?nt) = 0"
    by (simp_all add: Server_init_def)
  have qt: "quiet (Server_init ?nt) ?st" by (rule quiet_net) (simp add: net0)
  have wf: "server_wf ?st" by (rule quiet_server_wf [OF qt init_wf(1) [OF k(1)]])
  have room: "mgr_room (e_base demo_env) (sm_objects ?st)" using init_room by simp
  obtain st' where st': "ProcessThread_round demo_env ?st (demo_packet ?p) = Some st'"
    using round_total [OF wf room v d] k(2) by (auto simp: demo_env_def)
  have "auth_once (Server_init ?nt) (demo_packet ?p)" by (auto simp: auth_once_def net0 split: option.splits)
  then have "server_step True (Server_init ?nt) st'"
    by (intro server_step.process [where e = demo_env and p = "demo_packet ?p" and q = ?q])
      (use k st' net0 init_room in simp_all)
  then have reach: "server_reaches True ?nt st'" by (rule server_reaches.later [OF server_reaches.start])
  obtain a st1 where ds: "dispatch_session demo_env 0 (?st\<lparr>loop_pConnector := Some 0\<rparr>) = (a, st1)" by fastforce
  then have um: "userMap st1 = []" "unique_id st1 = 0"
    using net0 by (auto simp: dispatch_session_def GetFreeSession_def upd_session_def Let_def
        split: option.splits prod.splits)
  have "map_option snd (C2S_Auth demo_env a st1 CS_P_AUTH) = Some st'"
    using server_round_frame [OF v(1) d, of demo_env ?st] ds st' by simp
  then obtain r where "C2S_Auth demo_env a st1 CS_P_AUTH = Some (r, st')"
    unfolding map_option_eq_Some by (metis prod.collapse)
  then obtain us t where "t = e_time demo_env * 10000 + (unique_id st1 + 1)"
    "quiet (st1\<lparr>sessions := (sessions st1)(a \<mapsto> us\<lparr>nub := Character_SetToken (Character_SetId (nub us) (auth_id CS_P_AUTH)) t\<rparr>),
      unique_id := unique_id st1 + 1, userMap := omap_insert (sint t) a (userMap st1)\<rparr>) st'"
    using C2S_Auth_split by metis
  then have "userMap st' = [(sint (1000001 :: u64), a)]"
    using quiet_sel(2) um by (fastforce simp: demo_env_def)
  then show ?thesis using reach by (auto simp: GetUserSession_def)
qed

subsection \<open>Properties\<close>

text \<open>
  C3: The server's state keeps its shape.  Whatever the threads of a freshly started server do, one round
  after the other and with whatever bytes the peers send, the state stays well-formed: the session pool,
  the list of used sessions and the constructed sessions agree, nothing waits for release between two
  rounds, each session has a connector and each connector with a session is that session's connector,
  the user map is ordered, the zone manager is consistent with at most the one zone players enter, and
  every queued command has a whole packet buffer with a size inside it.  If moreover no session is
  authenticated twice, each entry of the user map is a constructed session under its own token.
\<close>

theorem server_states_wf:
  assumes "\<forall>c. cn_param (connectors nt c) = None" and "server_reaches once nt st"
  shows "server_wf st \<and> (once \<longrightarrow> users_live st)"
  using reaches_wf [OF assms(2,1)] .

theorem server_states_wf_witness:
  "\<exists>st a. server_reaches True (demo_inbox (P_CS_AUTH CS_P_AUTH)) st \<and> GetUserSession st 1000001 = Some a \<and>
    server_wf st \<and> users_live st"
  using demo_auth_run server_states_wf [OF demo_inbox_ok(1)] by blast

text \<open>
  C4: Requests meet living sessions.  In every state a running server reaches, a packet that holds the frame
  of a valid request is processed with defined behaviour, whether its connector already has a session or
  gets one in this round; afterwards the connector's session pointer leads to a constructed session that
  talks through this connector, and to no other session does.  (An authentication also writes, so there
  the connection has to be healthy; an echo text has to end, because the handler prints it.)
\<close>

theorem requests_meet_living_sessions:
  assumes "\<forall>c. cn_param (connectors nt c) = None" and "server_reaches once nt st"
    and "c2s_valid p" and "terminated p" and "packet_bytes pk = frame (c2s_image p) seq now"
    and "unat (nDataSize pk) \<le> length (pBuffer pk)" and "ps_pConnector pk = Some c"
    and "is_auth p \<Longrightarrow> send_live (connectors (net st) c) \<and> e_wsa e \<noteq> WSA_FAILED"
    and "fresh_block (e_base e) (objectPool (sm_objects st))"
  shows "\<exists>st' a us. ProcessThread_round e st pk = Some st' \<and> cn_param (connectors (net st') c) = Some a \<and>
    sessions st' a = Some us \<and> us_pConnector us = Some c \<and>
    (\<forall>b vs. sessions st' b = Some vs \<longrightarrow> us_pConnector vs = Some c \<longrightarrow> b = a)"
proof -
  have wf: "server_wf st" using reaches_wf [OF assms(2,1)] by blast
  obtain st' a where st': "ProcessThread_round e st pk = Some st'" "params (net st') c = Some a"
    using round_total [OF wf assms(9,3,4,5,6,7,8)] by auto
  have l: "linked {} st'" using process_wf(1) [OF st'(1) wf assms(9)] by (simp add: server_wf_def wf_upto_def)
  obtain us where us: "sessions st' a = Some us" "us_pConnector us = Some c"
    using linked_params [OF l, of c a] st'(2) by (auto simp: identity_def)
  have "b = a" if "sessions st' b = Some vs" "us_pConnector vs = Some c" for b vs
    using linked_params [OF l, of c b] st'(2) that by (simp add: identity_Some)
  then show ?thesis using st' us unfolding params_def by blast
qed

theorem requests_meet_living_sessions_witness:
  "\<exists>st' a us. ProcessThread_round demo_env (Server_init (demo_net 7)) (demo_packet (P_CS_HEARTBEAT CS_P_HEARTBEAT)) = Some st' \<and>
    cn_param (connectors (net st') 0) = Some a \<and> sessions st' a = Some us \<and> us_pConnector us = Some 0"
proof -
  let ?p = "P_CS_HEARTBEAT CS_P_HEARTBEAT"
  have v: "c2s_valid ?p" "terminated ?p" "\<not> is_auth ?p"
    by (simp_all add: cs_typed_def CS_P_HEARTBEAT_def terminated_def is_auth_def)
  have "\<forall>c. cn_param (connectors (demo_net 7) c) = None" by (simp add: demo_net_def Connector_def)
  from requests_meet_living_sessions [OF this server_reaches.start [of False] v(1,2) demo_packet_ok [OF v(1)], where e = demo_env]
  show ?thesis using v(3) init_room by auto
qed

text \<open>
  C15: The user map never leads to a destroyed session, as long as no session is authenticated twice: in every
  state such a run reaches, the session registered under a token is constructed, has that token, and is
  the one its connector points at.
\<close>

theorem registered_users_alive:
  assumes "\<forall>c. cn_param (connectors nt c) = None" and "server_reaches True nt st"
    and "GetUserSession st token = Some a"
  shows "\<exists>us c. sessions st a = Some us \<and> ch_token (nub us) = token \<and> us_pConnector us = Some c \<and>
    cn_param (connectors (net st) c) = Some a"
proof -
  have wf: "linked {} st" and live: "users_live st"
    using reaches_wf [OF assms(2,1)] by (auto simp: server_wf_def wf_upto_def)
  obtain p t where i: "identity st a = Some (p, t)" "sint t = sint token"
    using live assms(3) map_of_SomeD [of "userMap st" "sint token" a] by (auto simp: users_live_def GetUserSession_def)
  obtain c where "p = Some c" using linked_connector [OF wf i(1)] by blast
  then show ?thesis
    using i linked_params [OF wf, of c a] by (auto simp: identity_def sint_inj params_def)
qed

theorem registered_users_alive_witness:
  "\<exists>st a us c. server_reaches True (demo_inbox (P_CS_AUTH CS_P_AUTH)) st \<and> GetUserSession st 1000001 = Some a \<and>
    sessions st a = Some us \<and> ch_token (nub us) = 1000001 \<and> us_pConnector us = Some c"
  using demo_auth_run registered_users_alive [OF demo_inbox_ok(1)] by blast

end
