(* ===== verification/Server_Life.thy ===== *)
theory Server_Life
  imports Server_Inv
begin

text \<open>
  The life of a session: the heartbeat that tells living clients from silent ones, the two ways in which a
  session is destroyed while a map of the server still leads to it, and what a connector keeps when it
  is used again.
\<close>

subsection \<open>Heartbeats\<close>

definition heartbeat_frame :: "svr_env \<Rightarrow> bytes" where
  "heartbeat_frame e = s2c_frame (e_now e) (P_SC_HEARTBEAT SC_P_HEARTBEAT)"

text \<open>A session with its two timers and its count of open heartbeats, whose connection works.\<close>

definition beating :: "server \<Rightarrow> addr \<Rightarrow> addr \<Rightarrow> int \<Rightarrow> int \<Rightarrow> nat \<Rightarrow> bool" where
  "beating st a c u h k \<longleftrightarrow> (\<exists>us. sessions st a = Some us \<and> us_pConnector us = Some c \<and> us_UpdateTime us = u \<and>
     us_HeartbeatTimer us = h \<and> unat (us_HeartbeatCount us) = k) \<and> send_live (connectors (net st) c)"

text \<open>
  Times of updates as \<open>UserSessionMgr::DoUpdate\<close> makes them: each more than 5 seconds after the one before,
  and at most \<open>g\<close> milliseconds.
\<close>

fun ticks :: "int \<Rightarrow> int \<Rightarrow> int list \<Rightarrow> bool" where
  "ticks g p [] = True"
| "ticks g p (t # ts) = (p + MILLISEC_A_SEC * 5 < t \<and> t \<le> p + g \<and> ticks g t ts)"

lemma count_up: "unat w < 2 ^ 31 - 1 \<Longrightarrow> unat (w + 1) = unat w + 1 \<and> sint (w + 1) = int (unat w + 1)" for w :: u32
proof -
  assume a: "unat w < 2 ^ 31 - 1"
  then have u: "unat (w + 1) = unat w + 1" by (simp add: unat_word_ariths)
  then have "sint (w + 1) = int (unat (w + 1))" using a sint_nonneg32 [of "w + 1"] by simp
  then show ?thesis using u by simp
qed

lemma for_each_append: "for_each f (xs @ ys) st = Option.bind (for_each f xs st) (for_each f ys)"
proof (induction xs arbitrary: st)
  case (Cons x xs)
  then show ?case by (cases "f x st") simp_all
qed simp

lemma beat_sent:
  assumes b: "beating st a c u h k" and t: "u < t" "h < t" and k: "k < 4" and w: "e_wsa e \<noteq> WSA_FAILED"
  shows "\<exists>st'. UserSession_DoUpdate e t a st = Some st' \<and>
    beating st' a c (t + MILLISEC_A_SEC * 5) (t + MILLISEC_A_SEC * 15) (k + 1) \<and>
    conn_out st' c = conn_out st c @ heartbeat_frame e \<and> releaseList st' = releaseList st"
proof -
  obtain us where us: "sessions st a = Some us" "us_pConnector us = Some c" "us_UpdateTime us = u"
    "us_HeartbeatTimer us = h" "unat (us_HeartbeatCount us) = k" and live: "send_live (connectors (net st) c)"
    using b by (auto simp: beating_def)
  have cnt: "unat (us_HeartbeatCount us + 1) = k + 1" "sint (us_HeartbeatCount us + 1) = int (k + 1)"
    using count_up [of "us_HeartbeatCount us"] us(5) k by auto
  let ?us = "us\<lparr>us_UpdateTime := t + MILLISEC_A_SEC * 5, us_HeartbeatTimer := t + MILLISEC_A_SEC * 15,
      us_HeartbeatCount := us_HeartbeatCount us + 1\<rparr>"
  let ?st = "upd_session st a ?us"
  have v: "s2c_valid (P_SC_HEARTBEAT SC_P_HEARTBEAT)" by (simp add: sc_typed_def SC_P_HEARTBEAT_def)
  have s: "sessions ?st a = Some ?us" "us_pConnector ?us = Some c" "send_live (connectors (net ?st) c)"
    using us(2) live by (simp_all add: upd_session_def)
  obtain nt where nt: "SendPacket e ?st a (P_SC_HEARTBEAT SC_P_HEARTBEAT) = Some (succ, ?st\<lparr>net := nt\<rparr>)"
    "send_live (connectors nt c)" "outstanding (connectors nt c) = conn_out st c @ heartbeat_frame e"
    using SendPacket_total [OF s(1,2) v s(3) w] unfolding heartbeat_frame_def by auto
  have "UserSession_DoUpdate e t a st = Some (?st\<lparr>net := nt\<rparr>)"
    using us t k live nt(1) cnt(2) by (simp add: session_update_eq [OF us(1)] send_live_def)
  moreover have "beating (?st\<lparr>net := nt\<rparr>) a c (t + MILLISEC_A_SEC * 5) (t + MILLISEC_A_SEC * 15) (k + 1)"
    using us(2) nt(2) cnt(1) by (simp add: beating_def upd_session_def)
  ultimately show ?thesis using nt(3) by (simp add: upd_session_def)
qed

lemma no_beat_due:
  assumes b: "beating st a c u h k" and t: "t \<le> h"
  shows "\<exists>st'. UserSession_DoUpdate e t a st = Some st' \<and> net st' = net st \<and> releaseList st' = releaseList st \<and>
    beating st' a c (if t \<le> u then u else t + MILLISEC_A_SEC * 5) h k"
proof -
  obtain us where us: "sessions st a = Some us" "us_pConnector us = Some c" "us_UpdateTime us = u"
    "us_HeartbeatTimer us = h" "unat (us_HeartbeatCount us) = k" and live: "send_live (connectors (net st) c)"
    using b by (auto simp: beating_def)
  show ?thesis
    using us live t b by (auto simp: session_update_eq [OF us(1)] send_live_def beating_def upd_session_def)
qed

text \<open>Updates between two heartbeats send nothing and count nothing.\<close>

lemma quiet_until:
  assumes "beating st a c u h k" and "u \<le> p + MILLISEC_A_SEC * 5" and "ticks g p ts" and "ts \<noteq> []" and "h < last ts"
  shows "\<exists>ts1 t1 ts2 st1 u1. ts = ts1 @ t1 # ts2 \<and> for_each (\<lambda>t. UserSession_DoUpdate e t a) ts1 st = Some st1 \<and>
    beating st1 a c u1 h k \<and> u1 < t1 \<and> h < t1 \<and> t1 \<le> max p h + g \<and> ticks g t1 ts2 \<and>
    conn_out st1 c = conn_out st c \<and> releaseList st1 = releaseList st"
  using assms
proof (induction ts arbitrary: st u p)
  case (Cons t ts)
  show ?case
  proof (cases "t \<le> h")
    case False
    then show ?thesis
      using Cons.prems by (intro exI [of _ "[]"] exI [of _ t] exI [of _ ts] exI [of _ st] exI [of _ u]) auto
  next
    case True
    have t: "u < t" "ticks g t ts" "p + MILLISEC_A_SEC * 5 < t" using Cons.prems(2,3) by auto
    obtain st' where st': "UserSession_DoUpdate e t a st = Some st'" "net st' = net st" "releaseList st' = releaseList st"
      "beating st' a c (t + MILLISEC_A_SEC * 5) h k"
      using no_beat_due [OF Cons.prems(1) True, of e] t(1) by auto
    have "ts \<noteq> []" "h < last ts" using Cons.prems(5) True by (auto split: if_splits)
    from Cons.IH [OF st'(4) order.refl t(2) this] obtain ts1 t1 ts2 st1 u1 where
      "ts = ts1 @ t1 # ts2" "for_each (\<lambda>t. UserSession_DoUpdate e t a) ts1 st' = Some st1" "beating st1 a c u1 h k"
      "u1 < t1" "h < t1" "t1 \<le> max t h + g" "ticks g t1 ts2" "conn_out st1 c = conn_out st' c" "releaseList st1 = releaseList st'"
      by blast
    then show ?thesis
      using st' True t(3) by (intro exI [of _ "t # ts1"] exI [of _ t1] exI [of _ ts2] exI [of _ st1] exI [of _ u1]) auto
  qed
qed simp

text \<open>Without answers the count goes up with each heartbeat, one about every 15 seconds.\<close>

lemma unanswered_beats:
  assumes "beating st a c u h k" and "k + m = 4" and "u < t" "h < t" and "ticks g t ts" and w: "e_wsa e \<noteq> WSA_FAILED"
    and "t + int m * (MILLISEC_A_SEC * 15 + g) + g \<le> last (t # ts)" and g: "0 < g"
  shows "\<exists>ts1 t1 ts2 st1 u1 h1. t # ts = ts1 @ t1 # ts2 \<and> for_each (\<lambda>t. UserSession_DoUpdate e t a) ts1 st = Some st1 \<and>
    beating st1 a c u1 h1 4 \<and> u1 < t1 \<and> h1 < t1 \<and> ticks g t1 ts2 \<and> ts2 \<noteq> [] \<and>
    t + int m * (MILLISEC_A_SEC * 15) \<le> t1 \<and> t1 \<le> t + int m * (MILLISEC_A_SEC * 15 + g) \<and>
    conn_out st1 c = conn_out st c @ concat (replicate m (heartbeat_frame e)) \<and> releaseList st1 = releaseList st"
  using assms(1-5,7)
proof (induction m arbitrary: st u h k t ts)
  case 0
  then have "ts \<noteq> []" using g by auto
  then show ?case
    using 0 by (intro exI [of _ "[]"] exI [of _ t] exI [of _ ts] exI [of _ st] exI [of _ u] exI [of _ h]) simp
next
  case (Suc m)
  let ?T = "MILLISEC_A_SEC * 15"
  obtain st0 where st0: "UserSession_DoUpdate e t a st = Some st0"
    "beating st0 a c (t + MILLISEC_A_SEC * 5) (t + ?T) (k + 1)"
    "conn_out st0 c = conn_out st c @ heartbeat_frame e" "releaseList st0 = releaseList st"
    using beat_sent [OF Suc.prems(1,3,4) _ w] Suc.prems(2) by auto
  have pos: "0 < ?T" "0 \<le> int m * (?T + g)" using g by (simp_all add: MILLISEC_A_SEC_def)
  have long: "t + ?T + int m * (?T + g) + g + g \<le> last (t # ts)"
    using Suc.prems(6) by (simp add: algebra_simps)
  have "t + ?T < last (t # ts)" using long pos g by linarith
  then have ne: "ts \<noteq> []" "t + ?T < last ts" using pos(1) by (cases ts; simp)+
  obtain ts1 t1 ts2 st1 u1 where s1: "ts = ts1 @ t1 # ts2"
    "for_each (\<lambda>t. UserSession_DoUpdate e t a) ts1 st0 = Some st1" "beating st1 a c u1 (t + ?T) (k + 1)"
    "u1 < t1" "t + ?T < t1" "t1 \<le> t + ?T + g" "ticks g t1 ts2" "conn_out st1 c = conn_out st0 c" "releaseList st1 = releaseList st0"
    using quiet_until [OF st0(2) order.refl Suc.prems(5) ne, of e] pos(1) by (auto simp: max_def)
  have "t1 + int m * (?T + g) + g \<le> last (t1 # ts2)" using long s1(1,6) g by (auto split: if_splits)
  moreover have "(k + 1) + m = 4" using Suc.prems(2) by simp
  ultimately obtain us1 t2 ts3 st2 u2 h2 where s2: "t1 # ts2 = us1 @ t2 # ts3"
    "for_each (\<lambda>t. UserSession_DoUpdate e t a) us1 st1 = Some st2" "beating st2 a c u2 h2 4" "u2 < t2" "h2 < t2"
    "ticks g t2 ts3" "ts3 \<noteq> []" "t1 + int m * ?T \<le> t2" "t2 \<le> t1 + int m * (?T + g)"
    "conn_out st2 c = conn_out st1 c @ concat (replicate m (heartbeat_frame e))" "releaseList st2 = releaseList st1"
    using Suc.IH [OF s1(3) _ s1(4,5,7)] by blast
  have "for_each (\<lambda>t. UserSession_DoUpdate e t a) ((t # ts1) @ us1) st = Some st2"
    using st0(1) s1(2) s2(2) by (simp add: for_each_append)
  moreover have "t + int (Suc m) * ?T \<le> t2" "t2 \<le> t + int (Suc m) * (?T + g)"
    using s2(8,9) s1(5,6) by (simp_all add: algebra_simps)
  moreover have "t # ts = ((t # ts1) @ us1) @ t2 # ts3" using s1(1) s2(1) by simp
  ultimately show ?case
    using s2(3-7,10,11) s1(8,9) st0(3,4)
    by (intro exI [of _ "(t # ts1) @ us1"] exI [of _ t2] exI [of _ ts3] exI [of _ st2] exI [of _ u2] exI [of _ h2]) simp
qed

lemma last_beat_closes:
  assumes b: "beating st a c u h 4" and t: "u < t" "h < t"
  shows "\<exists>st'. UserSession_DoUpdate e t a st = Some st' \<and> \<not> GetActive (connectors (net st') c) \<and>
    (\<exists>us. sessions st' a = Some us \<and> us_pConnector us = Some c \<and> us_UpdateTime us = t + MILLISEC_A_SEC * 5) \<and>
    releaseList st' = releaseList st \<and> CloseSocket (socket (connectors (net st) c)) \<in> set (calls (net st'))"
proof -
  obtain us where us: "sessions st a = Some us" "us_pConnector us = Some c" "us_UpdateTime us = u"
    "us_HeartbeatTimer us = h" "unat (us_HeartbeatCount us) = 4" and live: "send_live (connectors (net st) c)"
    using b by (auto simp: beating_def)
  have "4 < sint (us_HeartbeatCount us + 1)" using count_up [of "us_HeartbeatCount us"] us(5) by auto
  then have "UserSession_DoUpdate e t a st = Some ((upd_session st a (us\<lparr>us_UpdateTime := t + MILLISEC_A_SEC * 5,
      us_HeartbeatCount := us_HeartbeatCount us + 1, us_HeartbeatTimer := INT64_MAX\<rparr>))\<lparr>net := net_TryRelease (net st) c\<rparr>)"
    using us t live by (simp add: session_update_eq [OF us(1)] send_live_def)
  moreover have "\<not> GetActive (connectors (net_TryRelease (net st) c) c)"
    "CloseSocket (socket (connectors (net st) c)) \<in> set (calls (net_TryRelease (net st) c))"
    using live by (auto simp: net_TryRelease_def TryRelease_def Connector_Release_def close_socket_def GetActive_def
        SetFreeConnector_def send_live_def Let_def)
  ultimately show ?thesis using us(2) by (simp add: upd_session_def)
qed

text \<open>A client that answers: whenever an update has written to its connection, its reply is handled next.\<close>

definition update_answered :: "svr_env \<Rightarrow> addr \<Rightarrow> addr \<Rightarrow> int \<Rightarrow> server \<Rightarrow> server option" where
  "update_answered e a c t st = do {
     st' \<leftarrow> UserSession_DoUpdate e t a st;
     if conn_out st' c = conn_out st c then Some st'
     else do { (r, st'') \<leftarrow> C2S_Heartbeat e a st' CS_P_HEARTBEAT; Some st'' } }"

lemma beat_answered:
  assumes b: "beating st a c u h (k + 1)"
  shows "\<exists>st'. C2S_Heartbeat e a st p = Some (True, st') \<and> beating st' a c u h k \<and> releaseList st' = releaseList st"
proof -
  obtain us where us: "sessions st a = Some us" "us_pConnector us = Some c" "us_UpdateTime us = u"
    "us_HeartbeatTimer us = h" "unat (us_HeartbeatCount us) = k + 1" and live: "send_live (connectors (net st) c)"
    using b by (auto simp: beating_def)
  have "us_HeartbeatCount us \<noteq> 0" using us(5) by auto
  then have "unat (us_HeartbeatCount us - 1) = k" using us(5) by (simp add: unat_minus_one)
  then show ?thesis
    using us live by (simp add: C2S_Heartbeat_def beating_def upd_session_def)
qed

lemma answered_step:
  assumes b: "beating st a c u h k" and k: "k < 4" and w: "e_wsa e \<noteq> WSA_FAILED"
  shows "\<exists>st' u' h'. update_answered e a c t st = Some st' \<and> beating st' a c u' h' k \<and> releaseList st' = releaseList st"
proof -
  consider "t \<le> h" | "h < t" "u < t" | "h < t" "t \<le> u" by linarith
  then show ?thesis
  proof cases
    case 1
    then obtain st' u' where "UserSession_DoUpdate e t a st = Some st'" "net st' = net st" "releaseList st' = releaseList st"
      "beating st' a c u' h k"
      using no_beat_due [OF b, of t e] by blast
    then show ?thesis by (auto simp: update_answered_def)
  next
    case 2
    obtain st1 where st1: "UserSession_DoUpdate e t a st = Some st1"
      "beating st1 a c (t + MILLISEC_A_SEC * 5) (t + MILLISEC_A_SEC * 15) (k + 1)"
      "conn_out st1 c = conn_out st c @ heartbeat_frame e" "releaseList st1 = releaseList st"
      using beat_sent [OF b 2(2,1) k w] by blast
    have "s2c_valid (P_SC_HEARTBEAT SC_P_HEARTBEAT)" by (simp add: sc_typed_def SC_P_HEARTBEAT_def)
    from length_s2c_frame [OF this, of "e_now e"] have ne: "heartbeat_frame e \<noteq> []" unfolding heartbeat_frame_def by auto
    obtain st2 where "C2S_Heartbeat e a st1 CS_P_HEARTBEAT = Some (True, st2)"
      "beating st2 a c (t + MILLISEC_A_SEC * 5) (t + MILLISEC_A_SEC * 15) k" "releaseList st2 = releaseList st1"
      using beat_answered [OF st1(2)] by blast
    then show ?thesis using st1 ne by (auto simp: update_answered_def)
  next
    case 3
    obtain us where us: "sessions st a = Some us" "us_UpdateTime us = u" using b by (auto simp: beating_def)
    then show ?thesis using 3 b by (auto simp: update_answered_def session_update_eq [OF us(1)])
  qed
qed

subsection \<open>Entering, leaving and entering again\<close>

lemma Enter_one_zone:
  assumes "one_zone zm" and "d a = Some ch"
  shows "\<exists>zm'. ZoneMgr_EnterCharacter d base zm 1 a = Some zm' \<and> one_zone zm' \<and>
    members zm' 1 = omap_insert (sint (ch_token ch)) a (members zm 1)"
proof (cases "zoneMap zm = []")
  case True
  then have ok: "zone_mgr_ok zm" "fresh_block base (objectPool (zm_objects zm))"
    using assms(1) by (auto simp: one_zone_def fresh_block_def pool_slots_def ObjectPool_def)
  obtain zm' where "ZoneMgr_EnterCharacter d base zm 1 a = Some zm'"
    "members zm' 1 = omap_insert (sint (ch_token ch)) a (members zm 1)"
    using members_EnterCharacter [of zm base d a ch 1] ok assms(2) by blast
  then show ?thesis using one_zone_Enter [OF assms(1)] by blast
next
  case False
  then obtain z where z: "zoneMap zm = [(1, z)]" using assms(1) by (auto simp: one_zone_def)
  then obtain zm' where "ZoneMgr_EnterCharacter d base zm 1 a = Some zm'"
    "members zm' 1 = omap_insert (sint (ch_token ch)) a (members zm 1)"
    using assms(2) by (auto simp: ZoneMgr_EnterCharacter_def OnRegistCharacter_def members_def GetZone_def)
  then show ?thesis using one_zone_Enter [OF assms(1)] by blast
qed

lemma Operator_Enter:
  assumes us: "GetUserSession st (ch_token (nub us)) = Some a" "sessions st a = Some us" and z: "one_zone (zoneMgr st)"
  shows "\<exists>st'. Operator e (EnterCharacter (ch_token (nub us)) 1 x y) st = Some st' \<and> sessions st' = sessions st \<and>
    userMap st' = userMap st \<and> one_zone (zoneMgr st') \<and>
    members (zoneMgr st') 1 = omap_insert (sint (ch_token (nub us))) a (members (zoneMgr st) 1) \<and> net st' = net st \<and>
    (\<forall>t z. LeaveCharacter t z \<in> set (cmds (commandQueue st')) \<longrightarrow> LeaveCharacter t z \<in> set (cmds (commandQueue st)))"
proof -
  have "session_deref st a = Some (nub us)" using us(2) by (simp add: session_deref_def)
  then obtain zm where zm: "ZoneMgr_EnterCharacter (session_deref st) (e_base e) (zoneMgr st) 1 a = Some zm" "one_zone zm"
    "members zm 1 = omap_insert (sint (ch_token (nub us))) a (members (zoneMgr st) 1)"
    using Enter_one_zone [of "zoneMgr st" "session_deref st" a "nub us" "e_base e"] z by blast
  have "s2c_valid (P_SC_ENTER (SC_P_ENTER_SetPos SC_P_ENTER (ch_token (nub us)) x y))"
    by (simp add: sc_typed_def SC_P_ENTER_SetPos_def SC_P_ENTER_def)
  then obtain buf n where "make_send_buffer (e_junk e) (e_now e) (P_SC_ENTER (SC_P_ENTER_SetPos SC_P_ENTER (ch_token (nub us)) x y)) = Some (buf, n)"
    using make_send_buffer_ok by blast
  then show ?thesis
    using us zm by (simp add: new_broadcast_def add_cmd_def Add_def)
qed

lemma Operator_Leave:
  assumes us: "GetUserSession st (ch_token (nub us)) = Some a" "sessions st a = Some us" and z: "one_zone (zoneMgr st)"
  shows "\<exists>st'. Operator e (LeaveCharacter (ch_token (nub us)) 1) st = Some st' \<and>
    sessions st' = (sessions st)(a \<mapsto> us\<lparr>nub := Character_ResetPos (nub us)\<rparr>) \<and>
    userMap st' = userMap st \<and> one_zone (zoneMgr st') \<and> net st' = net st \<and>
    (\<forall>t z. LeaveCharacter t z \<in> set (cmds (commandQueue st')) \<longrightarrow> LeaveCharacter t z \<in> set (cmds (commandQueue st))) \<and>
    members (zoneMgr st') 1 = omap_erase (sint (ch_token (nub us))) (members (zoneMgr st) 1)"
proof -
  have "s2c_valid (P_SC_LEAVE (SC_P_LEAVE_SetToken SC_P_LEAVE (ch_token (nub us))))"
    by (simp add: sc_typed_def SC_P_LEAVE_SetToken_def SC_P_LEAVE_def)
  then obtain buf n where "make_send_buffer (e_junk e) (e_now e) (P_SC_LEAVE (SC_P_LEAVE_SetToken SC_P_LEAVE (ch_token (nub us)))) = Some (buf, n)"
    using make_send_buffer_ok by blast
  moreover have "zone_mgr_ok (zoneMgr st)" using z by (simp add: one_zone_def)
  ultimately show ?thesis
    using us one_zone_Leave [OF z] members_LeaveCharacter(2)
    by (simp add: new_broadcast_def add_cmd_def Add_def upd_session_def)
qed

lemma reenter_tick:
  assumes us: "GetUserSession st (ch_token (nub us)) = Some a" "sessions st a = Some us" and z: "one_zone (zoneMgr st)"
    and q: "cmds (commandQueue st) = [EnterCharacter (ch_token (nub us)) 1 x y, LeaveCharacter (ch_token (nub us)) 1,
      EnterCharacter (ch_token (nub us)) 1 x' y']"
  shows "\<exists>st'. server_Tick e st = Some st' \<and> sessions st' a = Some (us\<lparr>nub := Character_ResetPos (nub us)\<rparr>) \<and>
    userMap st' = userMap st \<and> (sint (ch_token (nub us)), a) \<in> set (members (zoneMgr st') 1) \<and>
    (\<forall>t z. LeaveCharacter t z \<notin> set (cmds (commandQueue st')))"
proof -
  let ?t = "ch_token (nub us)" and ?st = "st\<lparr>commandQueue := CommandUnitQueue\<rparr>"
  let ?us = "us\<lparr>nub := Character_ResetPos (nub us)\<rparr>"
  have t: "ch_token (nub ?us) = ?t" by (simp add: Character_ResetPos_def)
  have "GetUserSession ?st ?t = Some a" "sessions ?st a = Some us" "one_zone (zoneMgr ?st)"
    using us z by (simp_all add: GetUserSession_def)
  from Operator_Enter [OF this, of e x y] obtain st1 where st1: "Operator e (EnterCharacter ?t 1 x y) ?st = Some st1"
    "sessions st1 = sessions st" "userMap st1 = userMap st" "one_zone (zoneMgr st1)"
    "\<forall>t z. LeaveCharacter t z \<notin> set (cmds (commandQueue st1))"
    by (auto simp: CommandUnitQueue_def)
  have "GetUserSession st1 ?t = Some a" "sessions st1 a = Some us" using us st1 by (simp_all add: GetUserSession_def)
  from Operator_Leave [OF this st1(4), of e] obtain st2 where st2: "Operator e (LeaveCharacter ?t 1) st1 = Some st2"
    "sessions st2 = (sessions st)(a \<mapsto> ?us)" "userMap st2 = userMap st" "one_zone (zoneMgr st2)"
    "\<forall>t z. LeaveCharacter t z \<notin> set (cmds (commandQueue st2))"
    "members (zoneMgr st2) 1 = omap_erase (sint ?t) (members (zoneMgr st1) 1)"
    using st1 by auto
  have "GetUserSession st2 (ch_token (nub ?us)) = Some a" "sessions st2 a = Some ?us"
    using us st2 unfolding t by (simp_all add: GetUserSession_def)
  from Operator_Enter [OF this st2(4), of e x' y'] obtain st3 where st3: "Operator e (EnterCharacter ?t 1 x' y') st2 = Some st3"
    "sessions st3 = sessions st2" "userMap st3 = userMap st" "\<forall>t z. LeaveCharacter t z \<notin> set (cmds (commandQueue st3))"
    "members (zoneMgr st3) 1 = omap_insert (sint ?t) a (members (zoneMgr st2) 1)"
    using st2 unfolding t by auto
  have "map_of (members (zoneMgr st2) 1) (sint ?t) = None" unfolding st2(6) by (simp add: map_of_omap_erase)
  then have "(sint ?t, a) \<in> set (members (zoneMgr st3) 1)" unfolding st3(5) by (simp add: set_omap_insert_absent)
  moreover have "server_Tick e st = Some st3" using st1(1) st2(1) st3(1) q by (simp add: server_Tick_eq)
  ultimately show ?thesis using st3 st2(2) by simp
qed

text \<open>What release and destruction do to the rest of the server.\<close>

lemma released_and_freed:
  assumes "sessions st a = Some us"
  shows "\<exists>st1 st2. UserSession_Release a st = Some st1 \<and> DelUserSessionMap a st1 = Some st2 \<and>
    userMap (SetFreeSession a st2) = omap_erase (sint (ch_token (nub us))) (userMap st) \<and>
    zoneMgr (SetFreeSession a st2) = zoneMgr st \<and> sessions (SetFreeSession a st2) a = None \<and>
    (zoneId (ch_pos (nub us)) = 0 \<longrightarrow> commandQueue st1 = commandQueue st)"
  using assms
  by (cases "us_pConnector us")
    (auto simp: UserSession_Release_def DelUserSessionMap_def DelUserSessionToken_eq SetFreeSession_def
      upd_session_def add_cmd_def Let_def)

lemma broadcast_reads_dead:
  assumes "(k, a) \<in> set (members (zoneMgr st) zid)" and "sessions st a = None"
  shows "Operator e (SendBroadcastToAllUser zid buf n) st = None"
proof -
  obtain z where z: "GetZone (zoneMgr st) zid = Some z" using assms(1)
    by (cases "GetZone (zoneMgr st) zid") (auto simp: members_def)
  have "session_deref st a = None" using assms(2) by (simp add: session_deref_def)
  then show ?thesis
    using broadcast_tokens_dead [of k a "members (zoneMgr st) zid" "session_deref st"] assms(1) z
    by (simp add: PacketBroadcast_def members_def)
qed

lemma auth_registers:
  assumes "C2S_Auth e a st p = Some (r, st1)"
  shows "\<exists>us1. sessions st1 a = Some us1 \<and> ch_token (nub us1) = e_time e * 10000 + (unique_id st + 1) \<and>
    userMap st1 = omap_insert (sint (e_time e * 10000 + (unique_id st + 1))) a (userMap st)"
proof -
  obtain us u where us: "sessions st a = Some us" and
    qt: "quiet (st\<lparr>sessions := (sessions st)(a \<mapsto> us\<lparr>nub := Character_SetToken (Character_SetId (nub us) (auth_id p)) u\<rparr>),
      unique_id := unique_id st + 1, userMap := omap_insert (sint u) a (userMap st)\<rparr>) st1" and
    u: "u = e_time e * 10000 + (unique_id st + 1)"
    using C2S_Auth_split [OF assms] by metis
  have "identity st1 = (identity st)(a \<mapsto> (us_pConnector us, u))" unfolding quiet_sel(4) [OF qt] by (rule identity_auth)
  then have "identity st1 a = Some (us_pConnector us, u)" by simp
  then obtain us1 where us1: "sessions st1 a = Some us1" "ch_token (nub us1) = u" by (auto simp: identity_def)
  have m: "userMap st1 = omap_insert (sint u) a (userMap st)" using quiet_sel(2) [OF qt] by simp
  show ?thesis using us1 m unfolding u by blast
qed

subsection \<open>Connectors that are used again\<close>

lemma SetSendData_packet:
  assumes "xs \<noteq> []" and "length xs \<le> max_packet"
  shows "\<exists>nb. SetSendData (NetworkBuffer junk) self (Some xs) (of_nat (length xs)) = Some (int (length xs), nb) \<and>
    nb_ok nb \<and> nb_bytes nb = xs"
proof -
  have u: "unat (of_nat (length xs) :: u32) = length xs" using assms(2) by (simp add: unat_of_nat)
  show ?thesis using SetSendData_ok [of "of_nat (length xs)" xs junk self] assms unfolding u by simp
qed

lemma nb_size_pos: "nb_ok nb \<Longrightarrow> 0 < sint (nDataSize nb)"
proof -
  assume "nb_ok nb"
  then have "sint (nDataSize nb) = int (unat (nDataSize nb))" "0 < unat (nDataSize nb)"
    using sint_pos_small [of "nDataSize nb"] by (simp_all add: nb_ok_def)
  then show ?thesis by linarith
qed

lemma RecvPrepare_keeps:
  "RecvPrepare self c = Some (r, c') \<Longrightarrow> SendQueue c' = SendQueue c \<and> dwSendRef c' = dwSendRef c \<and>
   SendRequest_pBuffer c' = SendRequest_pBuffer c"
  by (auto simp: RecvPrepare_def Let_def Option.bind_eq_Some_conv case_prod_unfold)

text \<open>Two packets to an idle connection: the first is in flight, the second waits.\<close>

lemma two_writes:
  assumes live: "send_live (connectors nt a)" and idle: "in_flight (connectors nt a) = []"
    and xs: "xs \<noteq> []" "length xs \<le> max_packet" and ys: "ys \<noteq> []" "length ys \<le> max_packet"
  shows "\<exists>nt1 nt2 nb0 nb. Write junk WSA_OK nt (Some a) (Some xs) (of_nat (length xs)) = Some (succ, nt1) \<and>
    Write junk WSA_OK nt1 (Some a) (Some ys) (of_nat (length ys)) = Some (succ, nt2) \<and>
    connectors nt2 a = (connectors nt a)\<lparr>SendQueue := [nb], SendRequest := \<lparr>ov_pConnector = Some a, NetOp = OP_SEND\<rparr>,
      SendRequest_pBuffer := Some nb0, dwSendRef := 1\<rparr> \<and> nb_ok nb \<and> nb_bytes nb = ys \<and> connectorMgr nt2 = connectorMgr nt"
proof -
  let ?c = "connectors nt a"
  have ok: "dwSendRef ?c = 0" "SendQueue ?c = []" "INVALID_SOCKET \<noteq> socket ?c"
    using live idle send_ok_busy [of ?c] by (auto simp: send_live_def GetActive_def)
  obtain nb0 where nb0: "SetSendData (NetworkBuffer junk) (Some a) (Some xs) (of_nat (length xs)) = Some (int (length xs), nb0)" "nb_ok nb0"
    using SetSendData_packet [OF xs] by blast
  obtain nb where nb: "SetSendData (NetworkBuffer junk) (Some a) (Some ys) (of_nat (length ys)) = Some (int (length ys), nb)"
    "nb_ok nb" "nb_bytes nb = ys"
    using SetSendData_packet [OF ys] by blast
  let ?c1 = "?c\<lparr>SendQueue := [], SendRequest := \<lparr>ov_pConnector = Some a, NetOp = OP_SEND\<rparr>, SendRequest_pBuffer := Some nb0, dwSendRef := 1\<rparr>"
  let ?c2 = "?c1\<lparr>SendQueue := [nb]\<rparr>"
  have "\<exists>nt1. Write junk WSA_OK nt (Some a) (Some xs) (of_nat (length xs)) = Some (succ, nt1) \<and>
      connectors nt1 a = ?c1 \<and> connectorMgr nt1 = connectorMgr nt"
    using ok nb0(1) wsa_bytes_ok [OF nb0(2)] nb_size_pos [OF nb0(2)]
    by (simp add: Write_def AddSendQueue_def SendPrepare_def issue_send_def Let_def) (simp add: upd_connector_def emit_def)
  then obtain nt1 where nt1: "Write junk WSA_OK nt (Some a) (Some xs) (of_nat (length xs)) = Some (succ, nt1)"
    "connectors nt1 a = ?c1" "connectorMgr nt1 = connectorMgr nt"
    by blast
  have "Write junk WSA_OK nt1 (Some a) (Some ys) (of_nat (length ys)) = Some (succ, upd_connector nt1 a ?c2)"
    using ok nb(1) nt1(2) by (simp add: Write_def AddSendQueue_def)
  moreover have "connectors (upd_connector nt1 a ?c2) a = ?c\<lparr>SendQueue := [nb],
      SendRequest := \<lparr>ov_pConnector = Some a, NetOp = OP_SEND\<rparr>, SendRequest_pBuffer := Some nb0, dwSendRef := 1\<rparr>"
    by (simp add: upd_connector_def)
  moreover have "connectorMgr (upd_connector nt1 a ?c2) = connectorMgr nt" using nt1(3) by (simp add: upd_connector_def)
  ultimately show ?thesis using nt1(1) nb(2,3) by blast
qed

text \<open>The pool hands out next what was given back last.\<close>

lemma accept_reuses:
  assumes free: "pm_freeList (connectorMgr nt) = a # rest" and ok: "recv_ok (connectors nt a)"
    and s: "s \<noteq> INVALID_SOCKET" and w: "w \<noteq> WSA_FAILED"
  shows "\<exists>nt'. AcceptThread_round junk fresh s True w nt = Some nt' \<and> socket (connectors nt' a) = s \<and>
    SendQueue (connectors nt' a) = SendQueue (connectors nt a) \<and> dwSendRef (connectors nt' a) = dwSendRef (connectors nt a) \<and>
    SendRequest_pBuffer (connectors nt' a) = SendRequest_pBuffer (connectors nt a) \<and> recv_ok (connectors nt' a) \<and>
    cn_param (connectors nt' a) = cn_param (connectors nt a) \<and> a \<in> set (pm_usedList (connectorMgr nt'))"
proof -
  have m: "GetFreeConnector junk fresh nt = (Some a, nt\<lparr>connectorMgr := (connectorMgr nt)\<lparr>pm_freeList := rest,
      pm_usedList := pm_usedList (connectorMgr nt) @ [a]\<rparr>\<rparr>)"
    using free by (simp add: GetFreeConnector_def PoolMgr_GetFreeObject_def Let_def)
  let ?c = "(connectors nt a)\<lparr>socket := s\<rparr>"
  have "recv_ok ?c" using ok by (simp add: recv_ok_def)
  then obtain c' where c': "RecvPrepare a ?c = Some (int max_packet, c')" "socket c' = s" "recv_ok c'" "cn_param c' = cn_param ?c"
    using RecvPrepare_ok [of ?c a] by auto
  have "connectorMgr (upd_connector n x y) = connectorMgr n" "connectorMgr (emit n cs) = connectorMgr n" for n x y cs
    by (simp_all add: upd_connector_def emit_def)
  then show ?thesis
    using m s w c' RecvPrepare_keeps [OF c'(1)] by (simp add: AcceptThread_round_def net_RecvPrepare_def issue_recv_def Let_def)
qed

subsection \<open>Properties\<close>

text \<open>
  C16: Silent clients are dropped, in time and not too early.  A session whose client never answers, with \<open>k\<close>
  heartbeats open and updated from time \<open>t\<close> on at intervals of more than 5 seconds and at most \<open>g\<close>: exactly
  \<open>4 - k\<close> more heartbeats are sent; the update at which the next one would be due, at least \<open>4 - k\<close> times 15
  seconds later and at most \<open>4 - k\<close> times 15 seconds and \<open>g\<close>, closes the connection; the update after that puts
  the session on the list of those to be released.
\<close>

theorem silent_client_dropped:
  assumes "beating st a c u h k" and "k \<le> 4" and "u < t" and "h < t" and "ticks g t ts" and "e_wsa e \<noteq> WSA_FAILED"
    and "0 < g" and "t + int (4 - k) * (MILLISEC_A_SEC * 15 + g) + g \<le> last (t # ts)"
  shows "\<exists>ts1 t1 t2 ts2 st1 st2 st3. t # ts = ts1 @ t1 # t2 # ts2 \<and>
    t + int (4 - k) * (MILLISEC_A_SEC * 15) \<le> t1 \<and> t1 \<le> t + int (4 - k) * (MILLISEC_A_SEC * 15 + g) \<and>
    for_each (\<lambda>t. UserSession_DoUpdate e t a) ts1 st = Some st1 \<and> GetActive (connectors (net st1) c) \<and>
    conn_out st1 c = conn_out st c @ concat (replicate (4 - k) (heartbeat_frame e)) \<and> releaseList st1 = releaseList st \<and>
    UserSession_DoUpdate e t1 a st1 = Some st2 \<and> \<not> GetActive (connectors (net st2) c) \<and>
    UserSession_DoUpdate e t2 a st2 = Some st3 \<and> releaseList st3 = releaseList st @ [a]"
proof -
  have m: "k + (4 - k) = 4" using assms(2) by simp
  obtain ts1 t1 ts2 st1 u1 h1 where s1: "t # ts = ts1 @ t1 # ts2"
    "for_each (\<lambda>t. UserSession_DoUpdate e t a) ts1 st = Some st1" "beating st1 a c u1 h1 4" "u1 < t1" "h1 < t1"
    "ticks g t1 ts2" "ts2 \<noteq> []" "t + int (4 - k) * (MILLISEC_A_SEC * 15) \<le> t1"
    "t1 \<le> t + int (4 - k) * (MILLISEC_A_SEC * 15 + g)"
    "conn_out st1 c = conn_out st c @ concat (replicate (4 - k) (heartbeat_frame e))" "releaseList st1 = releaseList st"
    using unanswered_beats [OF assms(1) m assms(3-6,8,7)] by blast
  obtain t2 ts3 where t2: "ts2 = t2 # ts3" using s1(7) by (cases ts2) auto
  obtain st2 us where st2: "UserSession_DoUpdate e t1 a st1 = Some st2" "\<not> GetActive (connectors (net st2) c)"
    "sessions st2 a = Some us" "us_pConnector us = Some c" "us_UpdateTime us = t1 + MILLISEC_A_SEC * 5"
    "releaseList st2 = releaseList st1"
    using last_beat_closes [OF s1(3-5), of e] by blast
  have "UserSession_DoUpdate e t2 a st2 = Some (upd_session (SetReleaseObj a st2) a (us\<lparr>us_UpdateTime := INT64_MAX\<rparr>))"
    using st2(2,4,5) s1(6) t2 by (simp add: session_update_eq [OF st2(3)])
  moreover have "GetActive (connectors (net st1) c)" using s1(3) by (simp add: beating_def send_live_def)
  ultimately show ?thesis
    using s1 st2 t2
    by (intro exI [of _ ts1] exI [of _ t1] exI [of _ t2] exI [of _ ts3] exI [of _ st1] exI [of _ st2]
        exI [of _ "upd_session (SetReleaseObj a st2) a (us\<lparr>us_UpdateTime := INT64_MAX\<rparr>)"])
      (simp add: upd_session_def SetReleaseObj_def)
qed

lemma demo_beating: "beating demo_svr 0 0 0 0 0"
proof -
  have "(7 :: SOCKET) \<noteq> INVALID_SOCKET" by (simp add: INVALID_SOCKET_def)
  then show ?thesis
    using demo_net_ok(1) by (simp add: beating_def demo_sessions) (simp add: demo_user_def UserSession_def)
qed

text \<open>Updates every six seconds for two minutes.\<close>

theorem silent_client_dropped_witness:
  "\<exists>ts1 t1 t2 ts2 st1 st2 st3. map (\<lambda>i. 6000 * int i + 1) [0..<20] = ts1 @ t1 # t2 # ts2 \<and> 60001 \<le> t1 \<and> t1 \<le> 84001 \<and>
    for_each (\<lambda>t. UserSession_DoUpdate demo_env t 0) ts1 demo_svr = Some st1 \<and>
    UserSession_DoUpdate demo_env t1 0 st1 = Some st2 \<and> \<not> GetActive (connectors (net st2) 0) \<and>
    UserSession_DoUpdate demo_env t2 0 st2 = Some st3 \<and> releaseList st3 = [0]"
proof -
  let ?ts = "map (\<lambda>i. 6000 * int i + 1) [1..<20]"
  have l: "map (\<lambda>i. 6000 * int i + 1) [0..<20] = 1 # ?ts" by (simp add: upt_rec)
  have tk: "ticks 6000 1 ?ts" "1 + int (4 - 0) * (MILLISEC_A_SEC * 15 + 6000) + 6000 \<le> last (1 # ?ts)"
    by (simp_all add: upt_rec MILLISEC_A_SEC_def)
  have r: "releaseList demo_svr = []" by (simp add: demo_svr_def)
  show ?thesis
    using silent_client_dropped [OF demo_beating _ _ _ tk(1) demo_sessions(6) _ tk(2)] unfolding l r
    by (simp add: MILLISEC_A_SEC_def) blast
qed

text \<open>
  C17: Living clients are kept.  However often and at whatever times the session is updated, as long as the
  client's reply to each heartbeat is handled before the next update and fewer than four older ones are
  open, the connection stays open, the number of open heartbeats stays what it was and the session is not
  put on the list of those to be released.
\<close>

theorem answering_client_kept:
  assumes "beating st a c u h k" and "k < 4" and "e_wsa e \<noteq> WSA_FAILED"
  shows "\<exists>st' u' h'. for_each (update_answered e a c) ts st = Some st' \<and> beating st' a c u' h' k \<and>
    GetActive (connectors (net st') c) \<and> releaseList st' = releaseList st"
  using assms(1)
proof (induction ts arbitrary: st u h)
  case Nil
  then show ?case by (auto simp: beating_def send_live_def)
next
  case (Cons t ts)
  obtain st1 u1 h1 where "update_answered e a c t st = Some st1" "beating st1 a c u1 h1 k" "releaseList st1 = releaseList st"
    using answered_step [OF Cons.prems assms(2,3)] by blast
  then show ?case using Cons.IH [of st1 u1 h1] by auto
qed

theorem answering_client_kept_witness:
  "\<exists>st'. for_each (update_answered demo_env 0 0) (map (\<lambda>i. 6000 * int i + 1) [0..<40]) demo_svr = Some st' \<and>
    GetActive (connectors (net st') 0) \<and> releaseList st' = []"
proof -
  have r: "releaseList demo_svr = []" by (simp add: demo_svr_def)
  show ?thesis using answering_client_kept [OF demo_beating _ demo_sessions(6)] unfolding r by force
qed

text \<open>
  C35: A player that enters, leaves and enters again between two ticks stays behind in the zone.  The tick runs
  the three commands, and the second resets the position, so the player is in the zone's map while its own
  zone number is 0; when its session is released, no \<open>LeaveCharacter\<close> is queued, the zone keeps the
  pointer, and the next broadcast in the zone reads the destroyed session.
\<close>

theorem reentered_player_left_behind:
  assumes wf: "one_zone (zoneMgr st)" and us: "sessions st a = Some us" "GetUserSession st (ch_token (nub us)) = Some a"
    and q: "cmds (commandQueue st) = []"
  shows "\<exists>st1 st2 st3 st4 st5 st6. C2S_Enter e a st CS_P_ENTER = Some (True, st1) \<and>
    C2S_LEAVE e a st1 CS_P_LEAVE = Some (True, st2) \<and> C2S_Enter e a st2 CS_P_ENTER = Some (True, st3) \<and>
    server_Tick e st3 = Some st4 \<and> UserSession_Release a st4 = Some st5 \<and>
    (\<forall>t z. LeaveCharacter t z \<notin> set (cmds (commandQueue st5))) \<and> DelUserSessionMap a st5 = Some st6 \<and>
    (\<forall>e buf n. Operator e (SendBroadcastToAllUser 1 buf n) (SetFreeSession a st6) = None)"
proof -
  define x :: u32 where "x = of_nat (e_rand1 e mod 1000)"
  define y :: u32 where "y = of_nat (e_rand2 e mod 1000)"
  let ?t = "ch_token (nub us)"
  let ?us1 = "us\<lparr>nub := Character_SetPos3 (nub us) 1 x y\<rparr>"
  let ?us = "?us1\<lparr>nub := Character_SetPos3 (nub ?us1) 1 x y\<rparr>"
  let ?st1 = "add_cmd (EnterCharacter ?t 1 x y) (upd_session st a ?us1)"
  let ?st2 = "add_cmd (LeaveCharacter ?t 1) ?st1"
  let ?st3 = "add_cmd (EnterCharacter ?t 1 x y) (upd_session ?st2 a ?us)"
  have h: "C2S_Enter e a st CS_P_ENTER = Some (True, ?st1)" "C2S_LEAVE e a ?st1 CS_P_LEAVE = Some (True, ?st2)"
    "C2S_Enter e a ?st2 CS_P_ENTER = Some (True, ?st3)"
    using us(1) unfolding C2S_Enter_def C2S_LEAVE_def Let_def x_def [symmetric] y_def [symmetric]
    by (simp_all add: add_cmd_def upd_session_def character_defs)
  have t: "ch_token (nub ?us) = ?t" by (simp add: character_defs)
  have s3: "GetUserSession ?st3 (ch_token (nub ?us)) = Some a" "sessions ?st3 a = Some ?us" "one_zone (zoneMgr ?st3)"
    using us(2) wf unfolding t by (simp_all add: GetUserSession_def add_cmd_def upd_session_def)
  have q3: "cmds (commandQueue ?st3) = [EnterCharacter (ch_token (nub ?us)) 1 x y, LeaveCharacter (ch_token (nub ?us)) 1,
      EnterCharacter (ch_token (nub ?us)) 1 x y]"
    unfolding t using q by simp
  obtain st4 where st4: "server_Tick e ?st3 = Some st4" "sessions st4 a = Some (?us\<lparr>nub := Character_ResetPos (nub ?us)\<rparr>)"
    "(sint ?t, a) \<in> set (members (zoneMgr st4) 1)" "\<forall>t z. LeaveCharacter t z \<notin> set (cmds (commandQueue st4))"
    using reenter_tick [OF s3 q3, of e] unfolding t by blast
  have z: "zoneId (ch_pos (nub (?us\<lparr>nub := Character_ResetPos (nub ?us)\<rparr>))) = 0" by (simp add: character_defs)
  obtain st5 st6 where st6: "UserSession_Release a st4 = Some st5" "DelUserSessionMap a st5 = Some st6"
    "zoneMgr (SetFreeSession a st6) = zoneMgr st4" "sessions (SetFreeSession a st6) a = None"
    "commandQueue st5 = commandQueue st4"
    using released_and_freed [OF st4(2)] z by blast
  have "Operator e' (SendBroadcastToAllUser 1 buf n) (SetFreeSession a st6) = None" for e' buf n
    using broadcast_reads_dead [of "sint ?t" a "SetFreeSession a st6" 1] st4(3) st6(3,4) by simp
  then show ?thesis
    using h st4(1,4) st6(1,2,5) by metis
qed

theorem reentered_player_left_behind_witness:
  "\<exists>st1 st2 st3 st4 st5 st6. C2S_Enter demo_env 0 (demo_svr\<lparr>zoneMgr := ZoneMgr\<rparr>) CS_P_ENTER = Some (True, st1) \<and>
    C2S_LEAVE demo_env 0 st1 CS_P_LEAVE = Some (True, st2) \<and> C2S_Enter demo_env 0 st2 CS_P_ENTER = Some (True, st3) \<and>
    server_Tick demo_env st3 = Some st4 \<and> UserSession_Release 0 st4 = Some st5 \<and> DelUserSessionMap 0 st5 = Some st6 \<and>
    Operator demo_env (SendBroadcastToAllUser 1 [] 0) (SetFreeSession 0 st6) = None"
proof -
  let ?st = "demo_svr\<lparr>zoneMgr := ZoneMgr\<rparr>"
  have z: "one_zone (zoneMgr ?st)" using zone_mgr_ok_new by (simp add: one_zone_def ZoneMgr_def ObjectMgrBase_def)
  have us: "sessions ?st 0 = Some (demo_user 5 0)" "GetUserSession ?st (ch_token (nub (demo_user 5 0))) = Some 0"
    "cmds (commandQueue ?st) = []"
    by (simp_all add: demo_svr_def demo_user_def GetUserSession_def CommandUnitQueue_def)
  show ?thesis using reentered_player_left_behind [OF z us, of demo_env] by blast
qed

text \<open>
  C36: A session that authenticates twice stays behind in the user map: its release removes only the entry of
  the second token, so the first token leads to the destroyed session, and the next packet for it is sent
  through the destroyed session.
\<close>

theorem second_auth_left_behind:
  assumes "GetUserSession st t = Some a" and "omap_ok (userMap st)" and "C2S_Auth e a st p = Some (r, st1)"
    and "e_time e * 10000 + (unique_id st + 1) \<noteq> t"
    and "UserSession_Release a st1 = Some st2" and "DelUserSessionMap a st2 = Some st3"
  shows "GetUserSession (SetFreeSession a st3) t = Some a \<and> sessions (SetFreeSession a st3) a = None \<and>
    Operator e' (SendPacketToUser t buf n) (SetFreeSession a st3) = None"
proof -
  let ?u = "e_time e * 10000 + (unique_id st + 1)"
  obtain us1 where us1: "sessions st1 a = Some us1" "ch_token (nub us1) = ?u"
    and m: "userMap st1 = omap_insert (sint ?u) a (userMap st)"
    using auth_registers [OF assms(3)] by blast
  have f: "userMap (SetFreeSession a st3) = omap_erase (sint ?u) (userMap st1)" "sessions (SetFreeSession a st3) a = None"
    using released_and_freed [OF us1(1)] assms(5,6) us1(2) by auto
  have "sint ?u \<noteq> sint t" using assms(4) by (simp add: sint_inj)
  then have "GetUserSession (SetFreeSession a st3) t = Some a"
    using assms(1,2) unfolding GetUserSession_def f(1) m by (simp add: map_of_omap_erase map_of_omap_insert)
  then show ?thesis using f(2) by (simp add: SendPacket_buffer_def)
qed

theorem second_auth_left_behind_witness:
  "\<exists>r st1 st2 st3. C2S_Auth demo_env 0 demo_svr CS_P_AUTH = Some (r, st1) \<and> UserSession_Release 0 st1 = Some st2 \<and>
    DelUserSessionMap 0 st2 = Some st3 \<and> GetUserSession (SetFreeSession 0 st3) 5 = Some 0 \<and>
    sessions (SetFreeSession 0 st3) 0 = None"
proof -
  let ?p = "P_CS_AUTH CS_P_AUTH"
  have "(7 :: SOCKET) \<noteq> INVALID_SOCKET" by (simp add: INVALID_SOCKET_def)
  then have live: "send_live (connectors (net demo_svr) 0)" using demo_net_ok(1) by (simp add: demo_sessions)
  have v: "c2s_valid ?p" "terminated ?p" by (simp_all add: cs_typed_def CS_P_AUTH_def terminated_def)
  have c: "us_pConnector (demo_user 5 0) = Some 0" by (simp add: demo_user_def)
  obtain r st1 where a: "C2S_Auth demo_env 0 demo_svr CS_P_AUTH = Some (r, st1)"
    using handler_total [OF demo_sessions(1) c v, of demo_env] live demo_sessions(6) by auto
  have "sessions st1 0 \<noteq> None"
    using auth_registers [OF a] by auto
  then obtain st2 st3 where f: "UserSession_Release 0 st1 = Some st2" "DelUserSessionMap 0 st2 = Some st3"
    using released_and_freed by blast
  have g: "GetUserSession demo_svr 5 = Some 0" "omap_ok (userMap demo_svr)"
    by (simp_all add: demo_svr_def GetUserSession_def omap_ok_def)
  have "e_time demo_env * 10000 + (unique_id demo_svr + 1) \<noteq> 5" by (simp add: demo_env_def demo_svr_def)
  from second_auth_left_behind [OF g a this f] show ?thesis using a f by blast
qed

text \<open>
  C40: A connector that is used again sends the next peer what was meant for the last one.  Two packets are
  written to a session's connection; the send of the first ends with zero bytes, which closes the
  connection; the session is released, which gives the connector back to the pool; the next connection that
  is accepted gets the same connector.  The second packet is still in its queue, and the first \<open>Write\<close>
  for the new peer hands the system its bytes for the new peer's socket.
\<close>

theorem stale_bytes_reach_next_peer:
  assumes us: "sessions st u = Some us" "us_pConnector us = Some c" "cn_param (connectors (net st) c) = Some u"
    and c: "send_live (connectors (net st) c)" "in_flight (connectors (net st) c) = []" "recv_ok (connectors (net st) c)"
      "c \<in> set (pm_usedList (connectorMgr (net st)))"
    and xs: "xs \<noteq> []" "length xs \<le> max_packet" and ys: "ys \<noteq> []" "length ys \<le> max_packet"
    and zs: "zs \<noteq> []" "length zs \<le> max_packet" and s: "s \<noteq> INVALID_SOCKET" and w: "w \<noteq> WSA_FAILED"
  shows "\<exists>nt1 nt2 nt3 st4 nt5 nt6. Write junk WSA_OK (net st) (Some c) (Some xs) (of_nat (length xs)) = Some (succ, nt1) \<and>
    Write junk WSA_OK nt1 (Some c) (Some ys) (of_nat (length ys)) = Some (succ, nt2) \<and>
    WorkerThread_round oe nt2 (Finished (Send_of c) 0) = Some nt3 \<and> UserSession_Release u (st\<lparr>net := nt3\<rparr>) = Some st4 \<and>
    AcceptThread_round junk fresh s True w (net st4) = Some nt5 \<and>
    Write junk WSA_OK nt5 (Some c) (Some zs) (of_nat (length zs)) = Some (succ, nt6) \<and>
    calls nt6 = calls nt5 @ [WSASend s ys]"
proof -
  let ?c = "connectors (net st) c"
  obtain nt1 nt2 nb0 nb where wr: "Write junk WSA_OK (net st) (Some c) (Some xs) (of_nat (length xs)) = Some (succ, nt1)"
    "Write junk WSA_OK nt1 (Some c) (Some ys) (of_nat (length ys)) = Some (succ, nt2)"
    and c2: "connectors nt2 c = ?c\<lparr>SendQueue := [nb], SendRequest := \<lparr>ov_pConnector = Some c, NetOp = OP_SEND\<rparr>,
      SendRequest_pBuffer := Some nb0, dwSendRef := 1\<rparr>" and nb: "nb_ok nb" "nb_bytes nb = ys"
    and m2: "connectorMgr nt2 = connectorMgr (net st)"
    using two_writes [OF c(1,2) xs ys] by blast
  let ?c3 = "?c\<lparr>SendQueue := [nb], SendRequest := \<lparr>ov_pConnector = Some c, NetOp = OP_SEND\<rparr>,
      SendRequest_pBuffer := Some nb0, dwSendRef := 0, socket := INVALID_SOCKET\<rparr>"
  have "\<exists>nt3. WorkerThread_round oe nt2 (Finished (Send_of c) 0) = Some nt3 \<and> connectors nt3 c = ?c3 \<and>
      connectorMgr nt3 = connectorMgr (net st)"
    using us(3) c2 m2 c(1)
    by (simp add: WorkerThread_round_def request_of_def worker_disconnect_def net_TryRelease_def TryRelease_def
        close_socket_def send_live_def GetActive_def Let_def) (simp add: upd_connector_def emit_def)
  then obtain nt3 where nt3: "WorkerThread_round oe nt2 (Finished (Send_of c) 0) = Some nt3" "connectors nt3 c = ?c3"
    "connectorMgr nt3 = connectorMgr (net st)"
    by blast
  have "\<exists>st4 rest. UserSession_Release u (st\<lparr>net := nt3\<rparr>) = Some st4 \<and>
      connectors (net st4) c = ?c3\<lparr>cn_param := None, SendRequest_pBuffer := None\<rparr> \<and>
      pm_freeList (connectorMgr (net st4)) = c # rest"
    using us nt3(2,3) c(4)
    by (simp add: UserSession_Release_def net_TryRelease_def TryRelease_def Connector_Release_def close_socket_def
        SetFreeConnector_def PoolMgr_SetFreeObject_def upd_session_def add_cmd_def Let_def upd_connector_def emit_def)
  then obtain st4 rest where st4: "UserSession_Release u (st\<lparr>net := nt3\<rparr>) = Some st4"
    "connectors (net st4) c = ?c3\<lparr>cn_param := None, SendRequest_pBuffer := None\<rparr>" "pm_freeList (connectorMgr (net st4)) = c # rest"
    by blast
  have "recv_ok (connectors (net st4) c)" using c(3) unfolding st4(2) by (simp add: recv_ok_def)
  then obtain nt5 where nt5: "AcceptThread_round junk fresh s True w (net st4) = Some nt5" "socket (connectors nt5 c) = s"
    "SendQueue (connectors nt5 c) = [nb]" "dwSendRef (connectors nt5 c) = 0"
    using accept_reuses [OF st4(3) _ s w] st4(2) by fastforce
  obtain nz where nz: "SetSendData (NetworkBuffer junk) (Some c) (Some zs) (of_nat (length zs)) = Some (int (length zs), nz)"
    using SetSendData_packet [OF zs] by blast
  have "\<exists>nt6. Write junk WSA_OK nt5 (Some c) (Some zs) (of_nat (length zs)) = Some (succ, nt6) \<and>
      calls nt6 = calls nt5 @ [WSASend s ys]"
    using s nz nt5(2-4) wsa_bytes_ok [OF nb(1)] nb(2) nb_size_pos [OF nb(1)]
    by (simp add: Write_def AddSendQueue_def SendPrepare_def issue_send_def Let_def)
  then show ?thesis using wr nt3(1) st4(1) nt5(1) by blast
qed

text \<open>A server that has accepted one connection and processed its first packet.\<close>

lemma demo_accepted:
  "\<exists>nt st u us. AcceptThread_round (\<lambda>_. 0) (\<lambda>i. i) 7 True WSA_OK (demo_net INVALID_SOCKET) = Some nt \<and>
    ProcessThread_round demo_env (Server_init nt) (demo_packet (P_CS_HEARTBEAT CS_P_HEARTBEAT)) = Some st \<and>
    sessions st u = Some us \<and> us_pConnector us = Some 0 \<and> cn_param (connectors (net st) 0) = Some u \<and>
    send_live (connectors (net st) 0) \<and> in_flight (connectors (net st) 0) = [] \<and> recv_ok (connectors (net st) 0) \<and>
    0 \<in> set (pm_usedList (connectorMgr (net st)))"
proof -
  let ?nt0 = "demo_net INVALID_SOCKET" let ?p = "P_CS_HEARTBEAT CS_P_HEARTBEAT"
  have s: "(7 :: SOCKET) \<noteq> INVALID_SOCKET" by (simp add: INVALID_SOCKET_def)
  have free: "pm_freeList (connectorMgr ?nt0) = 0 # [1..<10]"
    by (simp add: demo_net_def ObjectPoolMgrBase_def Let_def) (simp add: upt_rec)
  have fresh: "recv_ok (connectors ?nt0 0)" "cn_param (connectors ?nt0 0) = None" "SendQueue (connectors ?nt0 0) = []"
    "dwSendRef (connectors ?nt0 0) = 0" "SendRequest_pBuffer (connectors ?nt0 0) = None"
    using recv_ok_new [of "\<lambda>_. 0" 1] by (simp_all add: demo_net_def recv_ok_def) (simp_all add: Connector_def)
  obtain nt where nt: "AcceptThread_round (\<lambda>_. 0) (\<lambda>i. i) 7 True WSA_OK ?nt0 = Some nt" "socket (connectors nt 0) = 7"
    "SendQueue (connectors nt 0) = []" "dwSendRef (connectors nt 0) = 0" "SendRequest_pBuffer (connectors nt 0) = None"
    "recv_ok (connectors nt 0)" "cn_param (connectors nt 0) = None" "0 \<in> set (pm_usedList (connectorMgr nt))"
    using accept_reuses [OF free fresh(1) s, of WSA_OK "\<lambda>_. 0" "\<lambda>i. i"] fresh by auto
  have v: "c2s_valid ?p" by (simp add: cs_typed_def CS_P_HEARTBEAT_def)
  obtain u st1 where g: "GetFreeSession (e_base demo_env) ((Server_init nt)\<lparr>loop_pConnector := Some 0\<rparr>) = (u, st1)" by fastforce
  then have n1: "net st1 = nt" by (auto simp: GetFreeSession_def Server_init_def upd_session_def Let_def split: prod.splits)
  let ?us = "(UserSession (unique_session_uid st1))\<lparr>us_pConnector := Some 0\<rparr>"
  let ?st2 = "upd_session (st1\<lparr>net := upd_connector nt 0 ((connectors nt 0)\<lparr>cn_param := Some u\<rparr>)\<rparr>) u ?us"
  let ?st = "upd_session ?st2 u (?us\<lparr>us_HeartbeatCount := us_HeartbeatCount ?us - 1\<rparr>)"
  have "dispatch_session demo_env 0 ((Server_init nt)\<lparr>loop_pConnector := Some 0\<rparr>) = (u, ?st2)"
    using g n1 nt(7) by (simp add: dispatch_session_def params_def Server_init_def)
  then have "ProcessThread_round demo_env (Server_init nt) (demo_packet ?p) = Some ?st"
    using server_round_frame [OF v demo_packet_ok [OF v], of demo_env "Server_init nt"]
    by (simp add: C2S_Heartbeat_def upd_session_def)
  moreover have "send_live (connectors (net ?st) 0)" "in_flight (connectors (net ?st) 0) = []" "recv_ok (connectors (net ?st) 0)"
    "cn_param (connectors (net ?st) 0) = Some u"
    using nt(2-6) s by (simp_all add: upd_session_def send_live_def send_ok_def in_flight_def GetActive_def recv_ok_def)
  moreover have "0 \<in> set (pm_usedList (connectorMgr (net ?st)))" using nt(8) by (simp add: upd_session_def upd_connector_def)
  moreover have "sessions ?st u = Some (?us\<lparr>us_HeartbeatCount := us_HeartbeatCount ?us - 1\<rparr>)" by (simp add: upd_session_def)
  ultimately show ?thesis
    using nt(1) by (intro exI [of _ nt] exI [of _ ?st] exI [of _ u] exI [of _ "?us\<lparr>us_HeartbeatCount := us_HeartbeatCount ?us - 1\<rparr>"]) simp
qed

theorem stale_bytes_reach_next_peer_witness:
  "\<exists>nt st u nt1 nt2 nt3 st4 nt5 nt6. AcceptThread_round (\<lambda>_. 0) (\<lambda>i. i) 7 True WSA_OK (demo_net INVALID_SOCKET) = Some nt \<and>
    ProcessThread_round demo_env (Server_init nt) (demo_packet (P_CS_HEARTBEAT CS_P_HEARTBEAT)) = Some st \<and>
    Write (\<lambda>_. 0) WSA_OK (net st) (Some 0) (Some [1]) (of_nat (length [1 :: byte])) = Some (succ, nt1) \<and>
    Write (\<lambda>_. 0) WSA_OK nt1 (Some 0) (Some [2]) (of_nat (length [2 :: byte])) = Some (succ, nt2) \<and>
    WorkerThread_round \<lparr>env_junk = (\<lambda>_. 0), env_fresh = (\<lambda>i. i), env_socket = 0, env_port_ok = True, env_wsa = WSA_OK,
      env_accept = WSA_OK\<rparr> nt2 (Finished (Send_of 0) 0) = Some nt3 \<and>
    UserSession_Release u (st\<lparr>net := nt3\<rparr>) = Some st4 \<and>
    AcceptThread_round (\<lambda>_. 0) (\<lambda>i. i) 8 True WSA_OK (net st4) = Some nt5 \<and>
    Write (\<lambda>_. 0) WSA_OK nt5 (Some 0) (Some [3]) (of_nat (length [3 :: byte])) = Some (succ, nt6) \<and>
    calls nt6 = calls nt5 @ [WSASend 8 [2]]"
proof -
  have s: "(8 :: SOCKET) \<noteq> INVALID_SOCKET" by (simp add: INVALID_SOCKET_def)
  have p: "[x] \<noteq> ([] :: bytes)" "length [x :: byte] \<le> max_packet" for x by simp_all
  obtain nt st u us where st: "AcceptThread_round (\<lambda>_. 0) (\<lambda>i. i) 7 True WSA_OK (demo_net INVALID_SOCKET) = Some nt"
    "ProcessThread_round demo_env (Server_init nt) (demo_packet (P_CS_HEARTBEAT CS_P_HEARTBEAT)) = Some st"
    and ok: "sessions st u = Some us" "us_pConnector us = Some 0" "cn_param (connectors (net st) 0) = Some u"
    "send_live (connectors (net st) 0)" "in_flight (connectors (net st) 0) = []" "recv_ok (connectors (net st) 0)"
    "0 \<in> set (pm_usedList (connectorMgr (net st)))"
    using demo_accepted by blast
  show ?thesis
    using st stale_bytes_reach_next_peer [OF ok p [of 1] p [of 2] p [of 3] s, of WSA_OK "\<lambda>_. 0"
        "\<lparr>env_junk = (\<lambda>_. 0), env_fresh = (\<lambda>i. i), env_socket = 0, env_port_ok = True, env_wsa = WSA_OK, env_accept = WSA_OK\<rparr>" "\<lambda>i. i"]
    by blast
qed

end
