(* ===== verification/Config.thy ===== *)
theory Config
  imports PL_Prelude
begin

text \<open>
  \<^verbatim>\<open>_lib/config_loader.h/.cpp\<close>, \<^verbatim>\<open>svr/config.*\<close>, \<^verbatim>\<open>cli/config.*\<close>, \<open>NetworkConfig\<close> of \<^verbatim>\<open>_framework/network.h/.cpp\<close> and
  the command line of the two \<open>main\<close> functions.  A document is the tree the JSON library makes of the
  file; the library's \<open>Parse\<close> is a parameter.  Its accessors are used as documented: \<open>HasMember\<close> and
  \<open>[]\<close> require an object and are undefined (\<open>None\<close>) on anything else, and a number is an \<open>Int\<close> when it
  is integral and fits 32 bits.
\<close>

datatype json =
  J_Null
| J_Bool bool
| J_Number int
| J_Real
| J_String string
| J_Array "json list"
| J_Object "(string \<times> json) list"

text \<open>\<open>FindMember\<close>: \<open>None\<close> on a value that is no object, \<open>Some None\<close> when the key is missing.\<close>

definition find_member :: "json \<Rightarrow> string \<Rightarrow> json option option" where
  "find_member v key = (case v of J_Object ms \<Rightarrow> Some (map_of ms key) | _ \<Rightarrow> None)"

definition as_int :: "json \<Rightarrow> int option" where
  "as_int v = (case v of J_Number n \<Rightarrow> if - (2 ^ 31) \<le> n \<and> n < 2 ^ 31 then Some n else None | _ \<Rightarrow> None)"

definition as_bool :: "json \<Rightarrow> bool option" where
  "as_bool v = (case v of J_Bool b \<Rightarrow> Some b | _ \<Rightarrow> None)"

definition as_string :: "json \<Rightarrow> string option" where
  "as_string v = (case v of J_String s \<Rightarrow> Some s | _ \<Rightarrow> None)"

text \<open>The pattern of every getter: the member if it is there with the right type, else a default.\<close>

definition member_or :: "(json \<Rightarrow> 'a option) \<Rightarrow> json \<Rightarrow> string \<Rightarrow> 'a \<Rightarrow> 'a option" where
  "member_or conv v key d = do {
     m \<leftarrow> find_member v key;
     Some (case m of None \<Rightarrow> d | Some x \<Rightarrow> (case conv x of None \<Rightarrow> d | Some y \<Rightarrow> y)) }"

subsection \<open>ConfigLoader\<close>

record ServerInfo =
  si_id :: int
  si_name :: string
  si_ip :: string
  si_port :: u16

definition ServerInfo_init :: ServerInfo where
  "ServerInfo_init = \<lparr>si_id = 0, si_name = '''', si_ip = '''', si_port = 0\<rparr>"

text \<open>\<open>file\<close> is what the stream holds, \<open>None\<close> when it does not open.  The exceptions are caught inside.\<close>

definition LoadConfig :: "(string \<Rightarrow> json) \<Rightarrow> string option \<Rightarrow> json \<Rightarrow> bool \<times> json" where
  "LoadConfig parse file doc =
     (case file of
        None \<Rightarrow> (False, doc)
      | Some text \<Rightarrow> (let doc = parse text in (case doc of J_Object _ \<Rightarrow> True | _ \<Rightarrow> False, doc)))"

definition GetInt :: "json \<Rightarrow> string \<Rightarrow> int \<Rightarrow> int option" where
  "GetInt doc key d = member_or as_int doc key d"

definition GetBool :: "json \<Rightarrow> string \<Rightarrow> bool \<Rightarrow> bool option" where
  "GetBool doc key d = member_or as_bool doc key d"

definition GetString :: "json \<Rightarrow> string \<Rightarrow> string \<Rightarrow> string option" where
  "GetString doc key d = member_or as_string doc key d"

text \<open>The port is an \<open>unsigned short\<close>: the value is reduced to 16 bits.\<close>

definition GetServerInfo :: "json \<Rightarrow> string \<Rightarrow> ServerInfo \<Rightarrow> (bool \<times> ServerInfo) option" where
  "GetServerInfo doc key si = do {
     m \<leftarrow> find_member doc key;
     case m of
       None \<Rightarrow> Some (False, si)
     | Some v \<Rightarrow> do {
         i \<leftarrow> find_member v ''server_info'';
         case i of
           None \<Rightarrow> Some (True, si)
         | Some info \<Rightarrow> do {
             a \<leftarrow> member_or as_int info ''id'' (si_id si);
             b \<leftarrow> member_or as_string info ''name'' (si_name si);
             c \<leftarrow> member_or as_string info ''ip'' (si_ip si);
             d \<leftarrow> member_or (map_option of_int \<circ> as_int) info ''port'' (si_port si);
             Some (True, \<lparr>si_id = a, si_name = b, si_ip = c, si_port = d\<rparr>) } } }"

subsection \<open>The three configurations\<close>

record network_config =
  nc_id :: int
  nc_name :: string
  workerThreadCount :: int
  doListen :: bool
  useAcceptEx :: bool
  nAcceptPrepareCount :: int
  listenClient :: ServerInfo
  listenStream :: ServerInfo
  listenWeb :: ServerInfo
  DbServer :: ServerInfo

definition NetworkConfig :: network_config where
  "NetworkConfig = \<lparr>nc_id = 0, nc_name = '''', workerThreadCount = 4, doListen = False, useAcceptEx = False,
     nAcceptPrepareCount = 10, listenClient = ServerInfo_init, listenStream = ServerInfo_init,
     listenWeb = ServerInfo_init, DbServer = ServerInfo_init\<rparr>"

definition NetworkConfig_SetConfig :: "network_config \<Rightarrow> json \<Rightarrow> network_config option" where
  "NetworkConfig_SetConfig cfg doc = do {
     i \<leftarrow> GetInt doc ''id'' 0;
     n \<leftarrow> GetString doc ''name'' '''';
     w \<leftarrow> GetInt doc ''network_thread'' 2;
     l \<leftarrow> GetBool doc ''listener'' False;
     let cfg = cfg\<lparr>nc_id := i, nc_name := n, workerThreadCount := w, doListen := l\<rparr>;
     cfg \<leftarrow> (if l then do {
               m \<leftarrow> GetBool doc ''listner_mode'' True;
               p \<leftarrow> GetInt doc ''listener_prepare'' 10;
               Some (cfg\<lparr>useAcceptEx := (if m = True then False else True), nAcceptPrepareCount := p\<rparr>) }
             else Some cfg);
     (r1, s1) \<leftarrow> GetServerInfo doc ''client_session'' (listenClient cfg);
     (r2, s2) \<leftarrow> GetServerInfo doc ''stream_session'' (listenStream cfg);
     (r3, s3) \<leftarrow> GetServerInfo doc ''web_session'' (listenWeb cfg);
     (r4, s4) \<leftarrow> GetServerInfo doc ''db_server'' (DbServer cfg);
     Some (cfg\<lparr>listenClient := s1, listenStream := s2, listenWeb := s3, DbServer := s4\<rparr>) }"

record server_config =
  sc_id :: int
  sc_name :: string

definition ServerConfig_SetConfig :: "json \<Rightarrow> (bool \<times> server_config) option" where
  "ServerConfig_SetConfig doc = do {
     i \<leftarrow> GetInt doc ''id'' 0;
     n \<leftarrow> GetString doc ''name'' '''';
     Some (True, \<lparr>sc_id = i, sc_name = n\<rparr>) }"

record client_config =
  cc_id :: int
  userName :: string
  userPass :: string
  serverInfo :: ServerInfo

definition ClientConfig_SetConfig :: "client_config \<Rightarrow> json \<Rightarrow> (bool \<times> client_config) option" where
  "ClientConfig_SetConfig cfg doc = do {
     i \<leftarrow> GetInt doc ''id'' 1;
     n \<leftarrow> GetString doc ''user_name'' '''';
     p \<leftarrow> GetString doc ''user_pass'' '''';
     (r, s) \<leftarrow> GetServerInfo doc ''server_info'' (serverInfo cfg);
     let cfg = cfg\<lparr>cc_id := i, userName := n, userPass := p, serverInfo := s\<rparr>;
     Some (r, cfg) }"

text \<open>The loop over the arguments in \<open>main\<close>: the value behind the last \<^verbatim>\<open>-config\<close> is the path.\<close>

fun config_path :: "string list \<Rightarrow> string \<Rightarrow> string" where
  "config_path [] path = path"
| "config_path [param] path = path"
| "config_path (param # v # rest) path =
     (if param = ''-config'' then config_path rest v else config_path (v # rest) path)"

subsection \<open>Reading a document\<close>

lemma member_or_object: "member_or conv (J_Object ms) key d =
    Some (case map_of ms key of None \<Rightarrow> d | Some x \<Rightarrow> (case conv x of None \<Rightarrow> d | Some y \<Rightarrow> y))"
  by (simp add: member_or_def find_member_def)

lemmas config_defs = GetInt_def GetBool_def GetString_def member_or_object find_member_def

text \<open>What \<open>GetServerInfo\<close> needs of a session entry: it is absent or an object whose info is one too.\<close>

definition session_ok :: "(string \<times> json) list \<Rightarrow> string \<Rightarrow> bool" where
  "session_ok ms key = (case map_of ms key of
     None \<Rightarrow> True
   | Some (J_Object es) \<Rightarrow> (case map_of es ''server_info'' of None \<Rightarrow> True | Some (J_Object _) \<Rightarrow> True | _ \<Rightarrow> False)
   | _ \<Rightarrow> False)"

definition is_object :: "json \<Rightarrow> bool" where
  "is_object v = (case v of J_Object _ \<Rightarrow> True | _ \<Rightarrow> False)"

lemma find_member_None: "find_member v key = None \<longleftrightarrow> \<not> is_object v"
  by (cases v) (simp_all add: find_member_def is_object_def)

lemma is_object_obtain: "is_object v \<Longrightarrow> (\<And>es. v = J_Object es \<Longrightarrow> P) \<Longrightarrow> P"
  by (cases v) (simp_all add: is_object_def)

lemma session_ok_alt:
  "session_ok ms key \<longleftrightarrow> (\<forall>v. map_of ms key = Some v \<longrightarrow>
     (\<exists>es. v = J_Object es \<and> (\<forall>i. map_of es ''server_info'' = Some i \<longrightarrow> is_object i)))"
proof (cases "map_of ms key")
  case (Some v)
  then show ?thesis by (cases v) (auto simp: session_ok_def is_object_def split: option.splits json.splits)
qed (simp add: session_ok_def)

lemma GetServerInfo_total:
  assumes "session_ok ms key"
  shows "\<exists>r si'. GetServerInfo (J_Object ms) key si = Some (r, si')"
proof (cases "map_of ms key")
  case None
  then show ?thesis by (auto simp: GetServerInfo_def find_member_def)
next
  case (Some v)
  then obtain es where es: "v = J_Object es" "\<forall>i. map_of es ''server_info'' = Some i \<longrightarrow> is_object i"
    using assms by (auto simp: session_ok_alt)
  show ?thesis
  proof (cases "map_of es ''server_info''")
    case None
    then show ?thesis using Some es by (auto simp: GetServerInfo_def find_member_def)
  next
    case (Some i)
    then obtain js where "i = J_Object js" using es(2) by (auto elim: is_object_obtain)
    then show ?thesis
      using \<open>map_of ms key = Some v\<close> es(1) Some by (auto simp: GetServerInfo_def find_member_def member_or_object)
  qed
qed

lemma GetServerInfo_bad:
  assumes "\<not> session_ok ms key"
  shows "GetServerInfo (J_Object ms) key si = None"
proof -
  obtain v where v: "map_of ms key = Some v"
    "\<And>es. v = J_Object es \<Longrightarrow> \<exists>i. map_of es ''server_info'' = Some i \<and> \<not> is_object i"
    using assms by (auto simp: session_ok_alt)
  show ?thesis
  proof (cases "is_object v")
    case False
    then show ?thesis
      using v(1) find_member_None [of v "''server_info''"] by (simp add: GetServerInfo_def find_member_def)
  next
    case True
    then obtain es where es: "v = J_Object es" by (rule is_object_obtain)
    then obtain i where i: "map_of es ''server_info'' = Some i" "\<not> is_object i" using v(2) by blast
    have "find_member i ''id'' = None" using i(2) by (simp add: find_member_None)
    then have "member_or as_int i ''id'' d = None" for d by (simp add: member_or_def)
    then show ?thesis using v(1) es i(1) by (simp add: GetServerInfo_def find_member_def)
  qed
qed

definition session_keys :: "string list" where
  "session_keys = [''client_session'', ''stream_session'', ''web_session'', ''db_server'']"

lemma bind_pair_defined:
  "(\<exists>y. (do { (r, x) \<leftarrow> m; f r x }) = Some y) \<longleftrightarrow> (\<exists>r x. m = Some (r, x) \<and> (\<exists>y. f r x = Some y))"
  by (cases m) (auto split: prod.splits)

lemma GetServerInfo_defined:
  "(\<exists>r si'. GetServerInfo (J_Object ms) key si = Some (r, si')) \<longleftrightarrow> session_ok ms key"
proof (cases "session_ok ms key")
  case True
  then show ?thesis using GetServerInfo_total [of ms key si] by auto
next
  case False
  then show ?thesis by (simp add: GetServerInfo_bad)
qed

text \<open>The settings of the document, apart from the four sessions.\<close>

definition base_config :: "network_config \<Rightarrow> json \<Rightarrow> network_config option" where
  "base_config cfg doc = do {
     i \<leftarrow> GetInt doc ''id'' 0;
     n \<leftarrow> GetString doc ''name'' '''';
     w \<leftarrow> GetInt doc ''network_thread'' 2;
     l \<leftarrow> GetBool doc ''listener'' False;
     m \<leftarrow> GetBool doc ''listner_mode'' True;
     p \<leftarrow> GetInt doc ''listener_prepare'' 10;
     Some (cfg\<lparr>nc_id := i, nc_name := n, workerThreadCount := w, doListen := l,
       useAcceptEx := (if l then \<not> m else useAcceptEx cfg),
       nAcceptPrepareCount := (if l then p else nAcceptPrepareCount cfg)\<rparr>) }"

lemma base_config_object: "\<exists>c. base_config cfg (J_Object ms) = Some c \<and>
    listenClient c = listenClient cfg \<and> listenStream c = listenStream cfg \<and> listenWeb c = listenWeb cfg \<and>
    DbServer c = DbServer cfg"
  by (simp add: base_config_def config_defs)

lemma SetConfig_base:
  "NetworkConfig_SetConfig cfg (J_Object ms) = do {
     c \<leftarrow> base_config cfg (J_Object ms);
     (r1, s1) \<leftarrow> GetServerInfo (J_Object ms) ''client_session'' (listenClient cfg);
     (r2, s2) \<leftarrow> GetServerInfo (J_Object ms) ''stream_session'' (listenStream cfg);
     (r3, s3) \<leftarrow> GetServerInfo (J_Object ms) ''web_session'' (listenWeb cfg);
     (r4, s4) \<leftarrow> GetServerInfo (J_Object ms) ''db_server'' (DbServer cfg);
     Some (c\<lparr>listenClient := s1, listenStream := s2, listenWeb := s3, DbServer := s4\<rparr>) }"
  unfolding NetworkConfig_SetConfig_def base_config_def GetInt_def GetBool_def GetString_def member_or_object
  by (simp only: bind.bind_lunit Let_def) simp

subsection \<open>Properties\<close>

text \<open>
  Which configurations the server can be started with.  For a document that is an object, the network
  configuration is read, whatever its simple settings are (missing and ill-typed ones fall back to their
  defaults), exactly when each of the four session entries is absent or an object whose \<open>server_info\<close> is
  absent or an object; otherwise the JSON library is called outside its contract.
\<close>

theorem config_read_iff:
  "(\<exists>c. NetworkConfig_SetConfig cfg (J_Object ms) = Some c) = list_all (session_ok ms) session_keys"
proof -
  obtain c where "base_config cfg (J_Object ms) = Some c" using base_config_object by blast
  then show ?thesis
    by (simp add: SetConfig_base session_keys_def bind_pair_defined GetServerInfo_defined)
qed

lemma server_info_read:
  assumes "map_of ms key = Some (J_Object es)" and "map_of es ''server_info'' = Some (J_Object info)"
    and "map_of info ''ip'' = Some (J_String ip)" and "map_of info ''port'' = Some (J_Number port)"
    and "map_of info ''id'' = None" and "map_of info ''name'' = None"
    and "- (2 ^ 31) \<le> port" and "port < 2 ^ 31"
  shows "GetServerInfo (J_Object ms) key si = Some (True, si\<lparr>si_ip := ip, si_port := of_int port\<rparr>)"
  using assms
  by (simp add: GetServerInfo_def find_member_def member_or_object as_int_def as_string_def)

text \<open>
  The listener mode cannot be chosen with the key the shipped configuration uses: an entry
  \<^verbatim>\<open>listener_mode\<close>, whatever its value, changes nothing, because the program asks for \<^verbatim>\<open>listner_mode\<close>, and a
  document without that misspelt key never selects \<open>AcceptEx\<close>.
\<close>

theorem listener_mode_ignored:
  "NetworkConfig_SetConfig cfg (J_Object ((''listener_mode'', v) # ms)) = NetworkConfig_SetConfig cfg (J_Object ms) \<and>
   (map_of ms ''listner_mode'' = None \<and> NetworkConfig_SetConfig NetworkConfig (J_Object ms) = Some c \<longrightarrow>
      \<not> useAcceptEx c)"
proof -
  have f: "find_member (J_Object ((''listener_mode'', v) # ms)) key = find_member (J_Object ms) key"
    if "key \<noteq> ''listener_mode''" for key
    using that by (simp add: find_member_def)
  have g: "GetServerInfo (J_Object ((''listener_mode'', v) # ms)) key = GetServerInfo (J_Object ms) key"
    if "key \<noteq> ''listener_mode''" for key
    using f [OF that] by (simp add: GetServerInfo_def fun_eq_iff)
  have "NetworkConfig_SetConfig cfg (J_Object ((''listener_mode'', v) # ms)) =
      NetworkConfig_SetConfig cfg (J_Object ms)"
    unfolding NetworkConfig_SetConfig_def GetInt_def GetBool_def GetString_def member_or_def
    by (simp add: f g cong: if_cong)
  moreover have "\<not> useAcceptEx c"
    if "map_of ms ''listner_mode'' = None" "NetworkConfig_SetConfig NetworkConfig (J_Object ms) = Some c"
    using that
    by (auto simp: SetConfig_base base_config_def config_defs NetworkConfig_def Option.bind_eq_Some_conv
        split: if_splits)
  ultimately show ?thesis by blast
qed

theorem listener_mode_ignored_witness:
  "NetworkConfig_SetConfig NetworkConfig (J_Object [(''listener_mode'', J_Number 2), (''listener'', J_Bool True)]) =
     NetworkConfig_SetConfig NetworkConfig (J_Object [(''listener'', J_Bool True)]) \<and>
   \<not> useAcceptEx (NetworkConfig\<lparr>workerThreadCount := 2, doListen := True\<rparr>)"
  using listener_mode_ignored [of NetworkConfig "J_Number 2" "[(''listener'', J_Bool True)]"
      "NetworkConfig\<lparr>workerThreadCount := 2, doListen := True\<rparr>"]
  by (simp add: NetworkConfig_SetConfig_def config_defs GetServerInfo_def NetworkConfig_def as_bool_def)

end
