(* ===== verification/Net_Control.thy ===== *)
theory Net_Control
  imports Network Config
begin

text \<open>
  Starting and stopping: \<open>Initialize\<close>, \<open>Start\<close>, \<open>Stop\<close>, \<open>InitListenSocket\<close> and the preparation of the
  accept thread in \<^verbatim>\<open>_framework/network.cpp\<close>, and \<open>App::Init\<close>, \<open>Start\<close>, \<open>Stop\<close> of \<^verbatim>\<open>svr/process.cpp\<close> and
  \<^verbatim>\<open>cli/process.cpp\<close>.  A thread is known by whether it can still be joined.  \<open>std::thread::join\<close> on a
  thread that was joined before throws; on a running thread it returns when the thread ends, which the
  threads of this program do once they have been started and asked to stop (the completion packets and
  the closed listen socket wake the ones that wait in the system).
\<close>

datatype 'a outcome = Ends 'a | Throws | Never_ends

fun bind_outcome :: "'a outcome \<Rightarrow> ('a \<Rightarrow> 'b outcome) \<Rightarrow> 'b outcome" where
  "bind_outcome (Ends x) f = f x"
| "bind_outcome Throws f = Throws"
| "bind_outcome Never_ends f = Never_ends"

fun join_all :: "bool \<Rightarrow> bool list \<Rightarrow> bool list outcome" where
  "join_all ends [] = Ends []"
| "join_all ends (joinable # ts) =
     (if \<not> joinable then Throws
      else if \<not> ends then Never_ends
      else bind_outcome (join_all ends ts) (\<lambda>ts. Ends (False # ts)))"

subsection \<open>Network\<close>

record listen_env =
  le_socket :: SOCKET
  le_port_ok :: bool
  le_bind_ok :: bool
  le_listen_ok :: bool
  le_ioctl_ok :: bool

text \<open>The second component tells whether the pointer \<open>acceptEx\<close> has been loaded.\<close>

definition InitListenSocket :: "listen_env \<Rightarrow> network \<Rightarrow> bool \<times> network" where
  "InitListenSocket e nt =
     (if INVALID_SOCKET = le_socket e then (False, nt)
      else if \<not> le_port_ok e then (False, nt)
      else if \<not> le_bind_ok e then (False, nt)
      else if \<not> le_listen_ok e then (False, nt)
      else let nt = nt\<lparr>ListenSock := le_socket e\<rparr>
           in if \<not> le_ioctl_ok e then (False, nt) else (True, nt))"

definition AcceptThread_setup :: "listen_env \<Rightarrow> network \<Rightarrow> eResultCode \<times> network" where
  "AcceptThread_setup e nt =
     (if INVALID_SOCKET = le_socket e then (fail, nt)
      else if \<not> le_bind_ok e then (fail, nt)
      else if \<not> le_listen_ok e then (fail, nt)
      else (succ, nt\<lparr>ListenSock := le_socket e\<rparr>))"

text \<open>
  \<open>AcceptPrepare(int)\<close>; \<open>answers\<close> holds what the system says in each round.  Without the loaded function
  a call of \<open>acceptEx\<close> goes through a null pointer.
\<close>

fun AcceptPrepare_n :: "bool \<Rightarrow> nat \<Rightarrow> (nat \<Rightarrow> os_env) \<Rightarrow> network \<Rightarrow> network option" where
  "AcceptPrepare_n loaded 0 answers nt = Some nt"
| "AcceptPrepare_n loaded (Suc n) answers nt =
     (let e = answers n
      in if \<not> loaded \<and> env_socket e \<noteq> INVALID_SOCKET then None
         else do {
           nt \<leftarrow> AcceptPrepare (env_junk e) (env_fresh e) (env_socket e) (env_accept e) nt;
           AcceptPrepare_n loaded n answers nt })"

record init_env =
  ie_startup :: bool
  ie_port :: bool
  ie_listen :: listen_env
  ie_accepts :: "nat \<Rightarrow> os_env"

definition start_accepting :: "init_env \<Rightarrow> network_config \<Rightarrow> network \<Rightarrow> network option" where
  "start_accepting e cfg nt =
     (if doListen cfg then
        if useAcceptEx cfg then
          (let (loaded, nt) = InitListenSocket (ie_listen e) nt
           in AcceptPrepare_n loaded (nat (nAcceptPrepareCount cfg)) (ie_accepts e) nt)
        else Some (nt\<lparr>threads := threads nt @ [True]\<rparr>)
      else Some nt)"

definition Network_Initialize ::
  "init_env \<Rightarrow> json \<Rightarrow> network_config \<Rightarrow> network \<Rightarrow> (bool \<times> network_config \<times> network) option" where
  "Network_Initialize e doc cfg nt = do {
     cfg \<leftarrow> NetworkConfig_SetConfig cfg doc;
     if \<not> ie_startup e then Some (False, cfg, nt)
     else if \<not> ie_port e then Some (False, cfg, nt)
     else do {
       let nt = nt\<lparr>threads := threads nt @ replicate (nat (workerThreadCount cfg)) True\<rparr>;
       nt \<leftarrow> start_accepting e cfg nt;
       Some (True, cfg, nt\<lparr>threads := threads nt @ [True]\<rparr>) } }"

definition Network_Start :: "network \<Rightarrow> bool \<times> network" where
  "Network_Start nt = (True, nt\<lparr>threadSuspended := False\<rparr>)"

definition Network_Stop :: "network_config \<Rightarrow> network \<Rightarrow> network outcome" where
  "Network_Stop cfg nt =
     (let nt = nt\<lparr>stopRequested := True\<rparr>;
          nt = emit nt (replicate (nat (workerThreadCount cfg)) (PostCompletion None));
          nt = (if INVALID_SOCKET \<noteq> ListenSock nt
                then (emit nt [CloseSocket (ListenSock nt)])\<lparr>ListenSock := INVALID_SOCKET\<rparr> else nt)
      in bind_outcome (join_all (\<not> threadSuspended nt) (threads nt)) (\<lambda>ts. Ends (nt\<lparr>threads := ts\<rparr>)))"

subsection \<open>App\<close>

record app =
  app_threads :: "bool list"
  app_stop :: bool
  app_suspended :: bool
  app_config :: network_config
  app_net :: network
  app_sendQueue :: "PacketStruct packet_queue"

definition App :: "network \<Rightarrow> app" where
  "App nt = \<lparr>app_threads = [], app_stop = False, app_suspended = True, app_config = NetworkConfig,
     app_net = nt, app_sendQueue = PacketDataQueue\<rparr>"

definition App_Init_svr :: "init_env \<Rightarrow> json \<Rightarrow> app \<Rightarrow> (bool \<times> app) option" where
  "App_Init_svr e doc ap = do {
     (ok, cfg, nt) \<leftarrow> Network_Initialize e doc (app_config ap) (app_net ap);
     let ap = ap\<lparr>app_config := cfg, app_net := nt\<rparr>;
     Some (if \<not> ok then (False, ap) else (True, ap\<lparr>app_threads := app_threads ap @ [True, True]\<rparr>)) }"

definition App_Start_svr :: "app \<Rightarrow> bool \<times> app" where
  "App_Start_svr ap = (True, ap\<lparr>app_suspended := False\<rparr>)"

text \<open>
  \<open>ProcessThread\<close> starts the network when it is let go, and stops it when it has been asked to end; what
  \<open>net.Stop()\<close> throws there leaves the thread function.
\<close>

definition ProcessThread_begin :: "app \<Rightarrow> app" where
  "ProcessThread_begin ap = ap\<lparr>app_net := snd (Network_Start (app_net ap))\<rparr>"

definition ProcessThread_end :: "app \<Rightarrow> app outcome" where
  "ProcessThread_end ap =
     bind_outcome (Network_Stop (app_config ap) (app_net ap)) (\<lambda>nt. Ends (ap\<lparr>app_net := nt\<rparr>))"

text \<open>
  \<open>App::Stop\<close> of the server while no packet arrives: \<open>ProcessThread\<close> waits in \<open>Pop\<close> until the event is
  forced and ends while \<open>App::Stop\<close> joins it.
\<close>

definition App_Stop_svr :: "app \<Rightarrow> app outcome" where
  "App_Stop_svr ap =
     (let ap = ap\<lparr>app_stop := True\<rparr>
      in bind_outcome (Network_Stop (app_config ap) (app_net ap)) (\<lambda>nt.
         let nt = nt\<lparr>recvPacketQueue := ForceActivateQueueEvent (recvPacketQueue nt)\<rparr>;
             ap = ap\<lparr>app_net := nt, app_sendQueue := ForceActivateQueueEvent (app_sendQueue ap)\<rparr>
         in bind_outcome (ProcessThread_end ap) (\<lambda>ap.
            bind_outcome (join_all (\<not> app_suspended ap) (app_threads ap)) (\<lambda>ts.
              Ends (ap\<lparr>app_threads := ts\<rparr>)))))"

definition App_Init_cli :: "init_env \<Rightarrow> json \<Rightarrow> app \<Rightarrow> (bool \<times> app) option" where
  "App_Init_cli e doc ap = do {
     (ok, cfg, nt) \<leftarrow> Network_Initialize e doc (app_config ap) (app_net ap);
     let ap = ap\<lparr>app_config := cfg, app_net := nt\<rparr>;
     Some (if \<not> ok then (False, ap) else (True, ap\<lparr>app_threads := app_threads ap @ [True, True]\<rparr>)) }"

text \<open>\<open>App::Stop\<close> of the client, called by the command thread on \<^verbatim>\<open>/exit\<close> and again at the end of \<open>main\<close>.\<close>

definition App_Stop_cli :: "app \<Rightarrow> app outcome" where
  "App_Stop_cli ap =
     (let ap = ap\<lparr>app_stop := True\<rparr>
      in bind_outcome (Network_Stop (app_config ap) (app_net ap)) (\<lambda>nt.
         Ends (ap\<lparr>app_net := nt\<lparr>recvPacketQueue := ForceActivateQueueEvent (recvPacketQueue nt)\<rparr>\<rparr>)))"

text \<open>\<open>App::Start\<close> of the client lets the threads go and joins them: they end when one of them calls \<open>Stop\<close>.\<close>

definition App_Start_cli :: "(app \<Rightarrow> app outcome) \<Rightarrow> app \<Rightarrow> app outcome" where
  "App_Start_cli run ap =
     bind_outcome (run (ap\<lparr>app_suspended := False\<rparr>)) (\<lambda>ap.
       bind_outcome (join_all (app_stop ap) (app_threads ap)) (\<lambda>ts. Ends (ap\<lparr>app_threads := ts\<rparr>)))"

subsection \<open>Joining\<close>

lemma join_all_joinable: "list_all (\<lambda>j. j) ts \<Longrightarrow> join_all True ts = Ends (replicate (length ts) False)"
  by (induction ts) simp_all

lemma join_all_joined: "ts \<noteq> [] \<Longrightarrow> \<not> hd ts \<Longrightarrow> join_all ends ts = Throws"
  by (cases ts) simp_all

lemma join_all_suspended: "ts \<noteq> [] \<Longrightarrow> hd ts \<Longrightarrow> join_all False ts = Never_ends"
  by (cases ts) simp_all

lemma AcceptPrepare_threads:
  "AcceptPrepare junk fresh s w nt = Some nt' \<Longrightarrow> threads nt' = threads nt \<and> threadSuspended nt' = threadSuspended nt"
proof -
  have ca: "threads (construct_all junk nt as) = threads nt \<and> threadSuspended (construct_all junk nt as) = threadSuspended nt"
    for junk as and nt :: network
    by (induction as arbitrary: nt) (simp_all add: Let_def upd_connector_def)
  have d: "threads (snd (Disconnect nt p)) = threads nt \<and> threadSuspended (snd (Disconnect nt p)) = threadSuspended nt"
    for nt :: network and p
    by (auto simp: Disconnect_def Let_def emit_def upd_connector_def split: option.splits prod.splits)
  show "AcceptPrepare junk fresh s w nt = Some nt' \<Longrightarrow> threads nt' = threads nt \<and> threadSuspended nt' = threadSuspended nt"
    by (auto simp: AcceptPrepare_def GetFreeConnector_def Let_def ca d emit_def upd_connector_def
        Option.bind_eq_Some_conv split: prod.splits if_splits)
qed

lemma AcceptPrepare_n_threads:
  "AcceptPrepare_n loaded n answers nt = Some nt' \<Longrightarrow>
   threads nt' = threads nt \<and> threadSuspended nt' = threadSuspended nt"
proof (induction n arbitrary: nt)
  case (Suc n)
  then obtain nt1 where "AcceptPrepare_n loaded n answers nt1 = Some nt'"
    "threads nt1 = threads nt \<and> threadSuspended nt1 = threadSuspended nt"
    by (auto simp: Let_def Option.bind_eq_Some_conv split: if_splits dest: AcceptPrepare_threads)
  with Suc.IH show ?case by metis
qed simp

text \<open>The threads \<open>Initialize\<close> makes: the workers, the accept thread of that mode, the update thread.\<close>

definition thread_count :: "network_config \<Rightarrow> nat" where
  "thread_count cfg =
     nat (workerThreadCount cfg) + (if doListen cfg \<and> \<not> useAcceptEx cfg then 1 else 0) + 1"

lemma InitListenSocket_threads:
  "InitListenSocket l nt = (ok, nt') \<Longrightarrow> threads nt' = threads nt \<and> threadSuspended nt' = threadSuspended nt"
  by (auto simp: InitListenSocket_def Let_def split: if_splits)

lemma Initialize_threads:
  assumes "Network_Initialize e doc cfg0 nt = Some (True, cfg, nt')"
  shows "threads nt' = threads nt @ replicate (thread_count cfg) True \<and> threadSuspended nt' = threadSuspended nt"
proof -
  define nt1 where "nt1 = nt\<lparr>threads := threads nt @ replicate (nat (workerThreadCount cfg)) True\<rparr>"
  obtain nt2 where nt2: "nt' = nt2\<lparr>threads := threads nt2 @ [True]\<rparr>"
    "start_accepting e cfg nt1 = Some nt2"
    using assms unfolding Network_Initialize_def nt1_def
    by (auto simp: Let_def Option.bind_eq_Some_conv split: if_split_asm)
  have "threads nt2 = threads nt @ replicate (thread_count cfg - 1) True \<and> threadSuspended nt2 = threadSuspended nt"
  proof (cases "doListen cfg \<and> useAcceptEx cfg")
    case True
    then obtain loaded nt3 where "InitListenSocket (ie_listen e) nt1 = (loaded, nt3)"
      "AcceptPrepare_n loaded (nat (nAcceptPrepareCount cfg)) (ie_accepts e) nt3 = Some nt2"
      using nt2(2) by (auto simp: start_accepting_def split: prod.splits)
    then have "threads nt2 = threads nt1 \<and> threadSuspended nt2 = threadSuspended nt1"
      using InitListenSocket_threads AcceptPrepare_n_threads by metis
    then show ?thesis using True by (simp add: nt1_def thread_count_def)
  next
    case False
    then show ?thesis
      using nt2(2) by (auto simp: start_accepting_def nt1_def thread_count_def replicate_append_same split: if_splits)
  qed
  then show ?thesis by (simp add: nt2(1) thread_count_def replicate_append_same)
qed

lemma Network_Stop_running:
  assumes "threads nt = replicate n True" and "\<not> threadSuspended nt"
  shows "\<exists>nt'. Network_Stop cfg nt = Ends nt' \<and> threads nt' = replicate n False \<and> stopRequested nt' \<and>
    ListenSock nt' = INVALID_SOCKET"
proof -
  have "join_all True (replicate n True) = Ends (replicate n False)"
    using join_all_joinable [of "replicate n True"] by (simp add: list_all_iff)
  then show ?thesis using assms by (simp add: Network_Stop_def Let_def emit_def)
qed

lemma Network_Stop_joined:
  assumes "threads nt = replicate (Suc n) False"
  shows "Network_Stop cfg nt = Throws"
proof -
  have "join_all ends (replicate (Suc n) False) = Throws" for ends by simp
  then show ?thesis using assms by (auto simp: Network_Stop_def Let_def emit_def)
qed

lemma thread_count_pos: "thread_count cfg = Suc (thread_count cfg - 1)"
  by (simp add: thread_count_def)

lemma App_Init_inv:
  assumes "App_Init_svr e doc (App nt) = Some (True, ap)"
  shows "\<exists>cfg nt1. Network_Initialize e doc NetworkConfig nt = Some (True, cfg, nt1) \<and>
    ap = (App nt)\<lparr>app_config := cfg, app_net := nt1, app_threads := [True, True]\<rparr>"
proof (cases "Network_Initialize e doc NetworkConfig nt")
  case (Some r)
  obtain ok cfg nt1 where "r = (ok, cfg, nt1)" by (cases r) auto
  then show ?thesis using Some assms by (cases ok) (auto simp: App_Init_svr_def App_def)
qed (use assms in \<open>simp add: App_Init_svr_def App_def\<close>)

lemma App_Init_same: "App_Init_cli = App_Init_svr"
  by (intro ext) (simp add: App_Init_cli_def App_Init_svr_def)

subsection \<open>Properties\<close>

text \<open>
  Stopping the network works once.  A network that was initialized and started has one thread per
  configured worker, an accept thread in that mode and an update thread; the first \<open>Stop\<close> returns with all
  of them joined, the stop flag set and the listen socket closed; a second \<open>Stop\<close> throws.  \<open>Stop\<close> on a
  network that was never started does not return.
\<close>

theorem network_stop_once:
  assumes "Network_Initialize e doc cfg0 nt = Some (True, cfg, nt1)" and "threads nt = []" and "threadSuspended nt"
  shows "threads nt1 = replicate (thread_count cfg) True \<and>
    Network_Stop cfg nt1 = Never_ends \<and>
    (\<exists>nt2. Network_Stop cfg (snd (Network_Start nt1)) = Ends nt2 \<and> threads nt2 = replicate (thread_count cfg) False \<and>
       stopRequested nt2 \<and> ListenSock nt2 = INVALID_SOCKET \<and> Network_Stop cfg nt2 = Throws)"
proof -
  have t: "threads nt1 = replicate (thread_count cfg) True" "threadSuspended nt1"
    using Initialize_threads [OF assms(1)] assms(2,3) by auto
  have s: "threads (snd (Network_Start nt1)) = replicate (thread_count cfg) True"
    "\<not> threadSuspended (snd (Network_Start nt1))"
    using t by (simp_all add: Network_Start_def)
  obtain nt2 where nt2: "Network_Stop cfg (snd (Network_Start nt1)) = Ends nt2"
    "threads nt2 = replicate (thread_count cfg) False" "stopRequested nt2" "ListenSock nt2 = INVALID_SOCKET"
    using Network_Stop_running [OF s] by blast
  have "threads nt2 = replicate (Suc (thread_count cfg - 1)) False" using nt2(2) thread_count_pos by metis
  then have "Network_Stop cfg nt2 = Throws" by (rule Network_Stop_joined)
  moreover have "Network_Stop cfg nt1 = Never_ends"
    using t by (auto simp: Network_Stop_def Let_def emit_def thread_count_def)
  ultimately show ?thesis using t nt2 by blast
qed

theorem network_stop_once_witness:
  "\<exists>cfg nt1 nt2. Network_Initialize \<lparr>ie_startup = True, ie_port = True,
       ie_listen = \<lparr>le_socket = 1, le_port_ok = True, le_bind_ok = True, le_listen_ok = True, le_ioctl_ok = True\<rparr>,
       ie_accepts = (\<lambda>_. \<lparr>env_junk = (\<lambda>_. 0), env_fresh = id, env_socket = 2, env_port_ok = True,
         env_wsa = WSA_OK, env_accept = WSA_OK\<rparr>)\<rparr>
       (J_Object [(''listener'', J_Bool True)]) NetworkConfig (demo_net 7) = Some (True, cfg, nt1) \<and>
     length (threads nt1) = 4 \<and>
     Network_Stop cfg (snd (Network_Start nt1)) = Ends nt2 \<and> Network_Stop cfg nt2 = Throws"
proof -
  let ?e = "\<lparr>ie_startup = True, ie_port = True,
       ie_listen = \<lparr>le_socket = 1, le_port_ok = True, le_bind_ok = True, le_listen_ok = True, le_ioctl_ok = True\<rparr>,
       ie_accepts = (\<lambda>_. \<lparr>env_junk = (\<lambda>_. 0), env_fresh = id, env_socket = 2, env_port_ok = True,
         env_wsa = WSA_OK, env_accept = WSA_OK\<rparr>)\<rparr>"
  let ?cfg = "NetworkConfig\<lparr>workerThreadCount := 2, doListen := True\<rparr>"
  let ?nt = "(demo_net 7)\<lparr>threads := [True, True, True, True]\<rparr>"
  have two: "replicate 2 True = [True, True]" by (simp add: numeral_eq_Suc)
  have i: "Network_Initialize ?e (J_Object [(''listener'', J_Bool True)]) NetworkConfig (demo_net 7) =
      Some (True, ?cfg, ?nt)"
    by (simp add: Network_Initialize_def start_accepting_def NetworkConfig_SetConfig_def config_defs
        GetServerInfo_def NetworkConfig_def as_bool_def demo_net_def two)
  have d: "threads (demo_net 7) = []" "threadSuspended (demo_net 7)" by (simp_all add: demo_net_def)
  obtain nt2 where "Network_Stop ?cfg (snd (Network_Start ?nt)) = Ends nt2" "Network_Stop ?cfg nt2 = Throws"
    using network_stop_once [OF i d] by blast
  moreover have "length (threads ?nt) = 4" by simp
  ultimately show ?thesis using i by blast
qed

text \<open>
  The programs cannot be shut down in order.  The server's \<open>App::Stop\<close> stops the network and lets
  \<open>ProcessThread\<close> end, which stops it a second time and throws out of its thread function; the client
  calls \<open>App::Stop\<close> on \<^verbatim>\<open>/exit\<close> and again at the end of \<open>main\<close>, where it throws.
\<close>

theorem shutdown_throws:
  assumes "App_Init_svr e doc (App nt) = Some (True, ap)" and "App_Init_cli e doc (App nt) = Some (True, ap')"
    and "threads nt = []"
  shows "App_Stop_svr (ProcessThread_begin (snd (App_Start_svr ap))) = Throws \<and>
    (\<exists>ap''. App_Start_cli (\<lambda>ap. App_Stop_cli (ProcessThread_begin ap)) ap' = Ends ap'' \<and> App_Stop_cli ap'' = Throws)"
proof -
  obtain cfg nt1 where i: "Network_Initialize e doc NetworkConfig nt = Some (True, cfg, nt1)"
    and ap: "ap = (App nt)\<lparr>app_config := cfg, app_net := nt1, app_threads := [True, True]\<rparr>"
      "ap' = (App nt)\<lparr>app_config := cfg, app_net := nt1, app_threads := [True, True]\<rparr>"
    using App_Init_inv [OF assms(1)] App_Init_inv [OF assms(2) [unfolded App_Init_same]] by auto
  have t: "threads (nt1\<lparr>threadSuspended := False\<rparr>) = replicate (thread_count cfg) True"
    using Initialize_threads [OF i] assms(3) by simp
  obtain nt2 where nt2: "Network_Stop cfg (nt1\<lparr>threadSuspended := False\<rparr>) = Ends nt2"
    "threads nt2 = replicate (thread_count cfg) False"
    using Network_Stop_running [OF t, of cfg] by auto
  have again: "Network_Stop cfg (nt2\<lparr>recvPacketQueue := q\<rparr>) = Throws" for q
  proof (rule Network_Stop_joined)
    show "threads (nt2\<lparr>recvPacketQueue := q\<rparr>) = replicate (Suc (thread_count cfg - 1)) False"
      by (subst thread_count_pos [symmetric]) (simp add: nt2(2))
  qed
  have "App_Stop_svr (ProcessThread_begin (snd (App_Start_svr ap))) = Throws"
    by (simp add: ap App_def App_Stop_svr_def App_Start_svr_def ProcessThread_begin_def ProcessThread_end_def
        Network_Start_def Let_def nt2(1) again)
  moreover have "\<exists>ap''. App_Start_cli (\<lambda>ap. App_Stop_cli (ProcessThread_begin ap)) ap' = Ends ap'' \<and> App_Stop_cli ap'' = Throws"
    by (simp add: ap App_def App_Start_cli_def App_Stop_cli_def ProcessThread_begin_def
        Network_Start_def Let_def nt2(1) again)
  ultimately show ?thesis ..
qed

theorem shutdown_throws_witness:
  "\<exists>e ap. App_Init_svr e (J_Object []) (App (demo_net 7)) = Some (True, ap) \<and>
     App_Stop_svr (ProcessThread_begin (snd (App_Start_svr ap))) = Throws"
proof -
  let ?e = "\<lparr>ie_startup = True, ie_port = True,
       ie_listen = \<lparr>le_socket = 1, le_port_ok = True, le_bind_ok = True, le_listen_ok = True, le_ioctl_ok = True\<rparr>,
       ie_accepts = (\<lambda>_. \<lparr>env_junk = (\<lambda>_. 0), env_fresh = id, env_socket = 2, env_port_ok = True,
         env_wsa = WSA_OK, env_accept = WSA_OK\<rparr>)\<rparr>"
  let ?cfg = "NetworkConfig\<lparr>workerThreadCount := 2\<rparr>"
  let ?ap = "(App (demo_net 7))\<lparr>app_config := ?cfg, app_net := (demo_net 7)\<lparr>threads := [True, True, True]\<rparr>,
     app_threads := [True, True]\<rparr>"
  have two: "replicate 2 True = [True, True]" by (simp add: numeral_eq_Suc)
  have n: "Network_Initialize ?e (J_Object []) NetworkConfig (demo_net 7) =
      Some (True, ?cfg, (demo_net 7)\<lparr>threads := [True, True, True]\<rparr>)"
    by (simp add: Network_Initialize_def start_accepting_def NetworkConfig_SetConfig_def config_defs
        GetServerInfo_def NetworkConfig_def as_bool_def demo_net_def two)
  have i: "App_Init_svr ?e (J_Object []) (App (demo_net 7)) = Some (True, ?ap)"
    "App_Init_cli ?e (J_Object []) (App (demo_net 7)) = Some (True, ?ap)"
    unfolding App_Init_svr_def App_Init_cli_def App_def by (simp_all add: n)
  have "threads (demo_net 7) = []" by (simp add: demo_net_def)
  then show ?thesis using shutdown_throws [OF i] i(1) by blast
qed

end
