(* ===== verification/Tokenizer.thy ===== *)
theory Tokenizer
  imports PL_Prelude
begin

text \<open>
  \<^verbatim>\<open>_lib/util_String.cpp\<close>: \<open>TokenizeA\<close> and \<open>TokenizeW\<close>, one text for two character types.  A position is
  \<open>None\<close> for \<open>npos\<close>.  At the head of the loop \<open>pos\<close> is always the result of \<open>find_first_of\<close> from
  \<open>lastPos\<close>, so \<open>lastPos\<close> is the state of the loop.
\<close>

fun scan_from :: "('a \<Rightarrow> bool) \<Rightarrow> 'a list \<Rightarrow> nat \<Rightarrow> nat option" where
  "scan_from P [] i = None"
| "scan_from P (x # xs) i = (if P x then Some i else scan_from P xs (i + 1))"

definition find_first_of :: "'a list \<Rightarrow> 'a list \<Rightarrow> nat option \<Rightarrow> nat option" where
  "find_first_of str chs pos =
     (case pos of None \<Rightarrow> None | Some p \<Rightarrow> scan_from (\<lambda>c. c \<in> set chs) (drop p str) p)"

definition find_first_not_of :: "'a list \<Rightarrow> 'a list \<Rightarrow> nat option \<Rightarrow> nat option" where
  "find_first_not_of str chs pos =
     (case pos of None \<Rightarrow> None | Some p \<Rightarrow> scan_from (\<lambda>c. c \<notin> set chs) (drop p str) p)"

definition substr :: "'a list \<Rightarrow> nat \<Rightarrow> nat option \<Rightarrow> 'a list" where
  "substr str from to = (case to of None \<Rightarrow> drop from str | Some t \<Rightarrow> take (t - from) (drop from str))"

lemma scan_from_Some:
  "scan_from P xs i = Some j \<Longrightarrow> i \<le> j \<and> j - i < length xs \<and> P (xs ! (j - i)) \<and> (\<forall>k < j - i. \<not> P (xs ! k))"
proof (induction xs arbitrary: i)
  case (Cons x xs)
  show ?case
  proof (cases "P x")
    case False
    then have j: "i + 1 \<le> j" "j - (i + 1) < length xs" "P (xs ! (j - (i + 1)))" "\<forall>k < j - (i + 1). \<not> P (xs ! k)"
      using Cons by auto
    then have "j - i = Suc (j - (i + 1))" by simp
    then show ?thesis using j False by (auto simp: nth_Cons split: nat.splits)
  qed (use Cons.prems in simp)
qed simp

function tokenize_loop :: "'a list \<Rightarrow> 'a list \<Rightarrow> nat option \<Rightarrow> 'a list list \<Rightarrow> 'a list list" where
  "tokenize_loop str delim lastPos tokens =
     (let pos = find_first_of str delim lastPos
      in if pos \<noteq> None \<or> lastPos \<noteq> None
         then tokenize_loop str delim (find_first_not_of str delim pos)
                (tokens @ [substr str (the lastPos) pos])
         else tokens)"
  by pat_completeness auto

termination
proof (relation "measure (\<lambda>(str, delim, lastPos, tokens). case lastPos of None \<Rightarrow> 0 | Some l \<Rightarrow> Suc (length str - l))",
    goal_cases)
  case (2 str delim lastPos tokens pos)
  show ?case
  proof (cases lastPos)
    case None
    then show ?thesis using 2 by (simp add: find_first_of_def)
  next
    case (Some l)
    show ?thesis
    proof (cases pos)
      case None
      then show ?thesis using Some by (simp add: find_first_not_of_def)
    next
      case (Some p)
      have p: "l \<le> p" "p - l < length (drop l str)" "str ! p \<in> set delim"
        using 2(1) \<open>lastPos = Some l\<close> Some scan_from_Some [of "\<lambda>c. c \<in> set delim" "drop l str" l p]
        by (auto simp: find_first_of_def)
      show ?thesis
      proof (cases "find_first_not_of str delim (Some p)")
        case (Some q)
        then have q: "p \<le> q" "q - p < length (drop p str)" "str ! q \<notin> set delim"
          using scan_from_Some [of "\<lambda>c. c \<notin> set delim" "drop p str" p q] by (auto simp: find_first_not_of_def)
        then have "q \<noteq> p" using p(3) by auto
        then show ?thesis using p q Some \<open>lastPos = Some l\<close> \<open>pos = Some p\<close> by auto
      qed (use \<open>lastPos = Some l\<close> \<open>pos = Some p\<close> in simp)
    qed
  qed
qed simp

declare tokenize_loop.simps [simp del]

definition TokenizeA :: "string \<Rightarrow> string list \<Rightarrow> string \<Rightarrow> string list" where
  "TokenizeA str tokens delimiter = tokenize_loop str delimiter (find_first_not_of str delimiter (Some 0)) tokens"

type_synonym wchar = u16

definition TokenizeW :: "wchar list \<Rightarrow> wchar list list \<Rightarrow> wchar list \<Rightarrow> wchar list list" where
  "TokenizeW str tokens delimiter = tokenize_loop str delimiter (find_first_not_of str delimiter (Some 0)) tokens"

subsection \<open>The words of a line\<close>

text \<open>The reference: skip delimiters, take a maximal run of other characters, go on behind it.\<close>

function words_of :: "('a \<Rightarrow> bool) \<Rightarrow> 'a list \<Rightarrow> 'a list list" where
  "words_of d s =
     (case dropWhile d s of
        [] \<Rightarrow> []
      | x # xs \<Rightarrow> (x # takeWhile (\<lambda>c. \<not> d c) xs) # words_of d (dropWhile (\<lambda>c. \<not> d c) xs))"
  by pat_completeness auto

termination
proof (relation "measure (length \<circ> snd)", goal_cases)
  case (2 d s x xs)
  have "length (dropWhile (\<lambda>c. \<not> d c) xs) \<le> length xs" by (rule length_dropWhile_le)
  also have "\<dots> < length (dropWhile d s)" using 2 by simp
  also have "\<dots> \<le> length s" by (rule length_dropWhile_le)
  finally show ?case by simp
qed simp

declare words_of.simps [simp del]

lemma dropWhile_twice: "dropWhile d (dropWhile d s) = dropWhile d s"
  by (induction s) auto

lemma words_of_skip: "words_of d (dropWhile d s) = words_of d s"
  by (subst (1 2) words_of.simps) (simp add: dropWhile_twice)

text \<open>A position that was found, as the suffix behind it.\<close>

definition at_suffix :: "'a list \<Rightarrow> 'a list \<Rightarrow> nat option" where
  "at_suffix str r = (if r = [] then None else Some (length str - length r))"

lemma scan_from_suffix:
  "scan_from P xs i = (let r = dropWhile (\<lambda>x. \<not> P x) xs in if r = [] then None else Some (i + length xs - length r))"
proof (induction xs arbitrary: i)
  case (Cons x xs)
  have "length (dropWhile (\<lambda>x. \<not> P x) xs) \<le> length xs" by (rule length_dropWhile_le)
  then show ?case using Cons by (simp add: Let_def)
qed simp

lemma find_at_suffix:
  assumes "str = pre @ r" and "r \<noteq> []"
  shows "find_first_of str delim (at_suffix str r) = at_suffix str (dropWhile (\<lambda>c. c \<notin> set delim) r)"
    and "find_first_not_of str delim (at_suffix str r) = at_suffix str (dropWhile (\<lambda>c. c \<in> set delim) r)"
  using assms
  by (simp_all add: find_first_of_def find_first_not_of_def at_suffix_def scan_from_suffix Let_def)

lemma tokenize_loop_words:
  "str = pre @ r \<Longrightarrow> (r \<noteq> [] \<Longrightarrow> hd r \<notin> set delim) \<Longrightarrow>
   tokenize_loop str delim (at_suffix str r) tokens = tokens @ words_of (\<lambda>c. c \<in> set delim) r"
proof (induction "length r" arbitrary: pre r tokens rule: less_induct)
  case less
  let ?d = "\<lambda>c. c \<in> set delim"
  show ?case
  proof (cases r)
    case Nil
    then show ?thesis
      by (subst tokenize_loop.simps, subst words_of.simps) (simp add: at_suffix_def find_first_of_def)
  next
    case (Cons x xs)
    define w where "w = takeWhile (\<lambda>c. \<not> ?d c) xs"
    define rest where "rest = dropWhile (\<lambda>c. \<not> ?d c) xs"
    define next_r where "next_r = dropWhile ?d rest"
    have x: "\<not> ?d x" using less.prems Cons by simp
    have r: "r = x # w @ rest" by (simp add: Cons w_def rest_def)
    have str: "str = (pre @ x # w) @ rest" using less.prems(1) r by simp
    have words: "words_of ?d r = (x # w) # words_of ?d rest"
      by (subst words_of.simps) (simp add: Cons x w_def rest_def)
    have pos: "find_first_of str delim (at_suffix str r) = at_suffix str rest"
      using find_at_suffix(1) [OF less.prems(1), of delim] Cons x by (simp add: rest_def)
    have last': "find_first_not_of str delim (at_suffix str rest) = at_suffix str next_r"
    proof (cases "rest = []")
      case True
      then show ?thesis by (simp add: next_r_def at_suffix_def find_first_not_of_def)
    next
      case False
      then show ?thesis using find_at_suffix(2) [OF str False, of delim] by (simp add: next_r_def)
    qed
    have sub: "substr str (the (at_suffix str r)) (at_suffix str rest) = x # w"
      using less.prems(1) r by (simp add: substr_def at_suffix_def)
    obtain pre' where pre': "str = pre' @ next_r"
      using str takeWhile_dropWhile_id [of ?d rest] unfolding next_r_def by (metis append.assoc)
    have small: "length next_r < length r"
      using length_dropWhile_le [of ?d rest] r by (simp add: next_r_def)
    have nd: "hd next_r \<notin> set delim" if "next_r \<noteq> []"
      using that hd_dropWhile [of ?d rest] by (simp add: next_r_def)
    have ih: "tokenize_loop str delim (at_suffix str next_r) (tokens @ [x # w]) =
        (tokens @ [x # w]) @ words_of ?d next_r"
      using less.hyps [OF small pre' nd] .
    have "tokenize_loop str delim (at_suffix str r) tokens =
        tokenize_loop str delim (at_suffix str next_r) (tokens @ [x # w])"
      by (subst tokenize_loop.simps) (simp add: Let_def pos last' sub, simp add: at_suffix_def Cons)
    then show ?thesis using ih words words_of_skip [of ?d rest] by (simp add: next_r_def)
  qed
qed

lemma tokenize_words:
  "tokenize_loop str delim (find_first_not_of str delim (Some 0)) tokens = tokens @ words_of (\<lambda>c. c \<in> set delim) str"
proof -
  let ?d = "\<lambda>c. c \<in> set delim" and ?r = "dropWhile (\<lambda>c. c \<in> set delim) str"
  have "find_first_not_of str delim (Some 0) = at_suffix str ?r"
    by (simp add: find_first_not_of_def at_suffix_def scan_from_suffix Let_def)
  moreover have "hd ?r \<notin> set delim" if "?r \<noteq> []"
    using that hd_dropWhile [of ?d str] by simp
  ultimately show ?thesis
    using tokenize_loop_words [of str "takeWhile ?d str" ?r delim tokens] words_of_skip [of ?d str] by simp
qed

lemma words_of_no_delim: "w \<in> set (words_of d s) \<Longrightarrow> w \<noteq> [] \<and> list_all (\<lambda>c. \<not> d c) w"
proof (induction d s rule: words_of.induct)
  case (1 d s)
  show ?case
  proof (cases "dropWhile d s")
    case Nil
    have "words_of d s = []" by (subst words_of.simps) (simp only: Nil list.case)
    then show ?thesis using 1(2) by simp
  next
    case (Cons x xs)
    have "\<not> d x" using hd_dropWhile [of d s] Cons by simp
    moreover have "list_all (\<lambda>c. \<not> d c) (takeWhile (\<lambda>c. \<not> d c) xs)" by (auto simp: list_all_iff dest: set_takeWhileD)
    moreover have "words_of d s = (x # takeWhile (\<lambda>c. \<not> d c) xs) # words_of d (dropWhile (\<lambda>c. \<not> d c) xs)"
      by (subst words_of.simps) (simp add: Cons)
    ultimately show ?thesis using 1 Cons by auto
  qed
qed

lemma words_of_join:
  assumes "list_all (\<lambda>w. w \<noteq> [] \<and> list_all (\<lambda>c. \<not> d c) w) ws" and "d sep"
  shows "words_of d (concat (map (\<lambda>w. w @ [sep]) ws)) = ws"
  using assms(1)
proof (induction ws)
  case Nil
  show ?case by (subst words_of.simps) simp
next
  case (Cons w ws)
  then obtain x xs where w: "w = x # xs" "\<not> d x" "list_all (\<lambda>c. \<not> d c) xs" by (cases w) auto
  let ?t = "concat (map (\<lambda>w. w @ [sep]) ws)"
  have tw: "takeWhile (\<lambda>c. \<not> d c) (xs @ sep # ?t) = xs" "dropWhile (\<lambda>c. \<not> d c) (xs @ sep # ?t) = sep # ?t"
    using w(3) assms(2) by (simp_all add: takeWhile_append2 dropWhile_append2 list_all_iff)
  have "words_of d (sep # ?t) = words_of d ?t"
    using words_of_skip [of d "sep # ?t"] words_of_skip [of d ?t] assms(2) by simp
  then show ?case using Cons by (subst words_of.simps) (simp add: w(1,2) tw)
qed

subsection \<open>Properties\<close>

text \<open>
  C24: The tokenizer returns, for every string and every set of delimiters, the maximal runs of other
  characters in order, behind what the token list held before; no token is empty or contains a
  delimiter, and words joined with a delimiter come back as they were.
\<close>

theorem tokenize_correct:
  "TokenizeA str tokens delim = tokens @ words_of (\<lambda>c. c \<in> set delim) str \<and>
   TokenizeW wstr wtokens wdelim = wtokens @ words_of (\<lambda>c. c \<in> set wdelim) wstr \<and>
   list_all (\<lambda>w. w \<noteq> [] \<and> list_all (\<lambda>c. c \<notin> set delim) w) (TokenizeA str [] delim) \<and>
   (list_all (\<lambda>w. w \<noteq> [] \<and> list_all (\<lambda>c. c \<notin> set delim) w) ws \<and> sep \<in> set delim \<longrightarrow>
      TokenizeA (concat (map (\<lambda>w. w @ [sep]) ws)) [] delim = ws)"
  using words_of_no_delim [of _ "\<lambda>c. c \<in> set delim" str] words_of_join [of "\<lambda>c. c \<in> set delim" ws sep]
  by (auto simp: TokenizeA_def TokenizeW_def tokenize_words list_all_iff)

theorem tokenize_correct_witness:
  "TokenizeA (concat (map (\<lambda>w. w @ '' '') [''/move'', ''x''])) [] '' '' = [''/move'', ''x'']"
  using tokenize_correct [of "''''" "[]" "'' ''" "[]" "[]" "[]" "[''/move'', ''x'']" "CHR '' ''"] by simp

end
