(* ===== verification/Client.thy ===== *)
theory Client
  imports Net_Control Protocol_CS Protocol_SC Command_Queue Tokenizer
begin

text \<open>
  The client program: \<^verbatim>\<open>cli/character.h/.cpp\<close>, \<^verbatim>\<open>cli/user_session.h/.cpp\<close>, \<^verbatim>\<open>cli/user_session_mgr.h\<close>,
  \<^verbatim>\<open>cli/command_unit_process.*\<close> and the loops of \<^verbatim>\<open>cli/process.cpp\<close>.  Characters and sessions live in stores
  indexed by address; \<open>alloc n\<close> is where the allocator puts the \<open>n\<close>-th chunk of characters; the lines written to the console are part of the state.  What the clock, the
  random numbers and the sockets answer is in \<open>cli_env\<close>.
\<close>

subsection \<open>CharacterMgr\<close>

record character_mgr =
  cm_objects :: object_mgr
  characters :: "addr \<Rightarrow> Character"
  cm_map :: "(int, addr) omap"
  playerCharacter :: addr

definition CharacterMgr :: "(nat \<Rightarrow> addr) \<Rightarrow> character_mgr" where
  "CharacterMgr alloc =
     (let (a, m) = ObjectMgr_GetFreeObject (next_chunk alloc ObjectMgrBase) ObjectMgrBase
      in \<lparr>cm_objects = m, characters = (\<lambda>_. Character_init), cm_map = [], playerCharacter = a\<rparr>)"

definition IsPlayerToken :: "character_mgr \<Rightarrow> u64 \<Rightarrow> bool" where
  "IsPlayerToken cm token = (ch_token (characters cm (playerCharacter cm)) = token)"

definition IsPlayerCharacter :: "character_mgr \<Rightarrow> addr option \<Rightarrow> bool" where
  "IsPlayerCharacter cm p = (Some (playerCharacter cm) = p)"

definition GetCharacter :: "character_mgr \<Rightarrow> u64 \<Rightarrow> addr option" where
  "GetCharacter cm token =
     (if ch_token (characters cm (playerCharacter cm)) = token then Some (playerCharacter cm)
      else map_of (cm_map cm) (sint token))"

definition upd_character :: "character_mgr \<Rightarrow> addr \<Rightarrow> Character \<Rightarrow> character_mgr" where
  "upd_character cm a c = cm\<lparr>characters := (characters cm)(a := c)\<rparr>"

definition CharacterMgr_EnterCharacter :: "(nat \<Rightarrow> addr) \<Rightarrow> character_mgr \<Rightarrow> u64 \<Rightarrow> addr \<times> character_mgr" where
  "CharacterMgr_EnterCharacter alloc cm token =
     (case GetCharacter cm token of
        Some a \<Rightarrow> (a, cm)
      | None \<Rightarrow>
          let (a, m) = ObjectMgr_GetFreeObject (next_chunk alloc (cm_objects cm)) (cm_objects cm);
              cm = upd_character (cm\<lparr>cm_objects := m\<rparr>) a (Character_SetToken Character_init token)
          in (a, cm\<lparr>cm_map := omap_insert (sint token) a (cm_map cm)\<rparr>))"

definition CharacterMgr_LeaveCharacter :: "character_mgr \<Rightarrow> u64 \<Rightarrow> character_mgr" where
  "CharacterMgr_LeaveCharacter cm token =
     (if map_of (cm_map cm) (sint token) \<noteq> None
      then cm\<lparr>cm_map := omap_erase (sint token) (cm_map cm)\<rparr> else cm)"

subsection \<open>The state of the client\<close>

record cli_session =
  cs_pConnector :: "addr option"
  cs_token :: u64

definition UserSession_cli :: cli_session where
  "UserSession_cli = \<lparr>cs_pConnector = None, cs_token = 0\<rparr>"

datatype console_line =
  Entered u32 u32
| Entered_other u64 u32 u32
| Seen u64 u32 u32
| Left
| Left_other u64
| Moved u32 u32 u32 u32
| Moved_other u64 u32 u32 u32 u32
| You_act u64 u32
| Acts_on_you u64 u32
| Acts u64 u64 u32
| Heartbeat_line
| Echo_line u64 bytes
| Test_line
| Dynamic_line
| Error_line string

datatype cli_command = TestCommandUnit | DynamicCommandUnit "console_line option"

record client =
  cl_app :: app
  cl_sessions :: "addr \<Rightarrow> cli_session"
  cl_sessionMgr :: pool_mgr
  charMgr :: character_mgr
  cl_queue :: "cli_command command_queue"
  console :: "console_line list"
  cl_pConnector :: "addr option"
  cl_pSession :: "addr option"
  cl_loop_pConnector :: "addr option"

record cli_env =
  ce_junk :: "nat \<Rightarrow> byte"
  ce_now :: u32
  ce_wsa :: wsa
  ce_base :: "nat \<Rightarrow> addr"
  ce_fresh :: "nat \<Rightarrow> addr"
  ce_fresh_session :: "nat \<Rightarrow> addr"
  ce_rand :: "nat \<Rightarrow> nat"
  ce_found :: bool
  ce_socket :: SOCKET
  ce_connected :: bool
  ce_port_ok :: bool
  ce_config :: client_config

definition say :: "console_line \<Rightarrow> client \<Rightarrow> client" where
  "say l cl = cl\<lparr>console := console cl @ [l]\<rparr>"

abbreviation cl_net :: "client \<Rightarrow> network" where
  "cl_net cl \<equiv> app_net (cl_app cl)"

definition set_net :: "network \<Rightarrow> client \<Rightarrow> client" where
  "set_net nt cl = cl\<lparr>cl_app := (cl_app cl)\<lparr>app_net := nt\<rparr>\<rparr>"

subsection \<open>Requests\<close>

definition make_send_buffer_cli :: "(nat \<Rightarrow> byte) \<Rightarrow> u32 \<Rightarrow> c2s_packet \<Rightarrow> (bytes \<times> u32) option" where
  "make_send_buffer_cli junk now p = do {
     pack \<leftarrow> c2s_collect (Serializer_send junk) p;
     (code, buf, n) \<leftarrow> MakeNetworkPacket (pBuffer pack) (nDataSize pack)
       (replicate (unat MAX_PACKET_BUFFER_SIZE) 0) MAX_PACKET_BUFFER_SIZE 0 now;
     Some (buf, n) }"

definition SendPacket_cli :: "cli_env \<Rightarrow> addr \<Rightarrow> client \<Rightarrow> c2s_packet \<Rightarrow> (eResultCode \<times> client) option" where
  "SendPacket_cli e a cl p = do {
     (buf, n) \<leftarrow> make_send_buffer_cli (ce_junk e) (ce_now e) p;
     (r, nt) \<leftarrow> Write (ce_junk e) (ce_wsa e) (cl_net cl) (cs_pConnector (cl_sessions cl a)) (Some buf) n;
     Some (r, set_net nt cl) }"

definition ReqAuth :: "cli_env \<Rightarrow> addr \<Rightarrow> client \<Rightarrow> (eResultCode \<times> client) option" where
  "ReqAuth e a cl = SendPacket_cli e a cl (P_CS_AUTH (CS_P_AUTH_SetId CS_P_AUTH (of_nat (ce_rand e 0 mod 10))))"

definition ReqEnter :: "cli_env \<Rightarrow> addr \<Rightarrow> client \<Rightarrow> (eResultCode \<times> client) option" where
  "ReqEnter e a cl = SendPacket_cli e a cl (P_CS_ENTER (CS_P_ENTER_SetToken CS_P_ENTER (cs_token (cl_sessions cl a))))"

definition ReqMove :: "cli_env \<Rightarrow> addr \<Rightarrow> client \<Rightarrow> u32 \<Rightarrow> u32 \<Rightarrow> (eResultCode \<times> client) option" where
  "ReqMove e a cl x y = SendPacket_cli e a cl (P_CS_MOVE (CS_P_MOVE_SetPos CS_P_MOVE x y))"

definition ReqInteraction :: "cli_env \<Rightarrow> addr \<Rightarrow> client \<Rightarrow> u32 \<Rightarrow> u32 \<Rightarrow> (eResultCode \<times> client) option" where
  "ReqInteraction e a cl targetId ty =
     SendPacket_cli e a cl (P_CS_INTERACTION (CS_P_INTERACTION_SetInteraction CS_P_INTERACTION (scast targetId) ty))"

definition echo_text :: "u64 \<Rightarrow> string" where
  "echo_text token = ''hello. my id '' @ show_int (sint token) @ ''.''"

definition ReqEcho :: "cli_env \<Rightarrow> addr \<Rightarrow> client \<Rightarrow> (eResultCode \<times> client) option" where
  "ReqEcho e a cl = (let echoMsg = echo_text (cs_token (cl_sessions cl a)) in do {
     p \<leftarrow> CS_P_ECHO_SetData CS_P_ECHO (chars echoMsg @ [0]) (of_nat (length echoMsg));
     SendPacket_cli e a cl (P_CS_ECHO p) })"

definition RepHeartBeat :: "cli_env \<Rightarrow> addr \<Rightarrow> client \<Rightarrow> (eResultCode \<times> client) option" where
  "RepHeartBeat e a cl = SendPacket_cli e a cl (P_CS_HEARTBEAT CS_P_HEARTBEAT)"

subsection \<open>Handlers\<close>

definition S2C_AuthResult :: "cli_env \<Rightarrow> addr \<Rightarrow> client \<Rightarrow> SC_P_AUTH_RESULT \<Rightarrow> (bool \<times> client) option" where
  "S2C_AuthResult e a cl packet =
     (let cl = cl\<lparr>cl_sessions := (cl_sessions cl)(a := (cl_sessions cl a)\<lparr>cs_token := result_token packet\<rparr>)\<rparr>;
          cm = charMgr cl; p = playerCharacter cm;
          ch = Character_SetToken (Character_SetId (characters cm p) (result_id packet)) (result_token packet)
      in Some (True, cl\<lparr>charMgr := upd_character cm p ch\<rparr>))"

definition S2C_Enter :: "cli_env \<Rightarrow> addr \<Rightarrow> client \<Rightarrow> SC_P_ENTER \<Rightarrow> (bool \<times> client) option" where
  "S2C_Enter e a cl packet =
     (let token = sc_enter_token packet;
          (ch, cm) = (if IsPlayerToken (charMgr cl) token then (playerCharacter (charMgr cl), charMgr cl)
                      else CharacterMgr_EnterCharacter (ce_base e) (charMgr cl) token);
          cm = upd_character cm ch (Character_SetPos2 (characters cm ch) (sc_enter_x packet) (sc_enter_y packet));
          x = posX (ch_pos (characters cm ch)); y = posY (ch_pos (characters cm ch));
          cl = cl\<lparr>charMgr := cm\<rparr>
      in Some (True, say (if IsPlayerCharacter cm (Some ch) then Entered x y else Entered_other token x y) cl))"

text \<open>The loop reads \<open>packet.data[idx]\<close>: an index beyond the array is undefined.\<close>

fun enter_entries :: "cli_env \<Rightarrow> CharacterDbData list \<Rightarrow> nat \<Rightarrow> client \<Rightarrow> client option" where
  "enter_entries e ds 0 cl = Some cl"
| "enter_entries e [] (Suc n) cl = None"
| "enter_entries e (info # ds) (Suc n) cl =
     (let (ch, cm) = CharacterMgr_EnterCharacter (ce_base e) (charMgr cl) (db_token info);
          cm = upd_character cm ch (Character_SetPosition (characters cm ch) (db_pos info))
      in enter_entries e ds n
           (say (Seen (db_token info) (posX (db_pos info)) (posY (db_pos info))) (cl\<lparr>charMgr := cm\<rparr>)))"

definition S2C_EnterCharacter ::
  "cli_env \<Rightarrow> addr \<Rightarrow> client \<Rightarrow> SC_P_ENTER_CHARACTER_LIST \<Rightarrow> (bool \<times> client) option" where
  "S2C_EnterCharacter e a cl packet = do {
     cl \<leftarrow> enter_entries e (list_data packet) (nat (sint (list_count packet))) cl;
     Some (True, cl) }"

definition S2C_Leave :: "cli_env \<Rightarrow> addr \<Rightarrow> client \<Rightarrow> SC_P_LEAVE \<Rightarrow> (bool \<times> client) option" where
  "S2C_Leave e a cl packet =
     (let token = sc_leave_token packet
      in case GetCharacter (charMgr cl) token of
           None \<Rightarrow> Some (True, say (Error_line ''invalid character'') cl)
         | Some ch \<Rightarrow>
             if IsPlayerCharacter (charMgr cl) (Some ch) then Some (True, say Left cl)
             else Some (True, say (Left_other token)
                    (cl\<lparr>charMgr := CharacterMgr_LeaveCharacter (charMgr cl) token\<rparr>)))"

definition S2C_Move :: "cli_env \<Rightarrow> addr \<Rightarrow> client \<Rightarrow> SC_P_MOVE \<Rightarrow> (bool \<times> client) option" where
  "S2C_Move e a cl packet =
     (let token = sc_move_token packet; cm = charMgr cl
      in case GetCharacter cm token of
           None \<Rightarrow> Some (True, say (Error_line ''invalid character'') cl)
         | Some ch \<Rightarrow>
             let old = ch_pos (characters cm ch);
                 cm = upd_character cm ch (Character_SetPos2 (characters cm ch) (sc_move_x packet) (sc_move_y packet));
                 new = ch_pos (characters cm ch)
             in Some (True, say (if IsPlayerCharacter cm (Some ch)
                                 then Moved (posX old) (posY old) (posX new) (posY new)
                                 else Moved_other token (posX old) (posY old) (posX new) (posY new))
                    (cl\<lparr>charMgr := cm\<rparr>)))"

definition S2C_Interaction :: "cli_env \<Rightarrow> addr \<Rightarrow> client \<Rightarrow> SC_P_INTERACTION \<Rightarrow> (bool \<times> client) option" where
  "S2C_Interaction e a cl packet =
     (let token = sc_inter_token packet; target = sc_targetToken packet; cm = charMgr cl; ty = sc_interactionType packet
      in if GetCharacter cm token = None then Some (True, say (Error_line ''invalid character'') cl)
         else if target \<noteq> 0 \<and> GetCharacter cm target = None
           then Some (True, say (Error_line ''invalid target character'') cl)
         else Some (True, say
           (if IsPlayerCharacter cm (GetCharacter cm token) then You_act target ty
            else if IsPlayerCharacter cm (GetCharacter cm target) then Acts_on_you target ty
            else Acts token target ty) cl))"

definition S2C_Heartbeat :: "cli_env \<Rightarrow> addr \<Rightarrow> client \<Rightarrow> packet_body \<Rightarrow> (bool \<times> client) option" where
  "S2C_Heartbeat e a cl packet = do {
     (r, cl) \<leftarrow> SendPacket_cli e a (say Heartbeat_line cl) (P_CS_HEARTBEAT CS_P_HEARTBEAT);
     Some (True, cl) }"

text \<open>\<open>S2C_Echo\<close> prints the array as a C string; without a zero byte the read runs past its end.\<close>

definition S2C_Echo :: "cli_env \<Rightarrow> addr \<Rightarrow> client \<Rightarrow> SC_P_ECHO \<Rightarrow> (bool \<times> client) option" where
  "S2C_Echo e a cl packet =
     (if 0 \<notin> set (sc_echoData packet) then None
      else Some (True, say (Echo_line (sc_echo_token packet) (takeWhile (\<lambda>b. b \<noteq> 0) (sc_echoData packet))) cl))"

definition RegisterPacketHandlers_cli :: "cli_env \<Rightarrow> addr \<Rightarrow> client packet_handler option" where
  "RegisterPacketHandlers_cli e a = (let j = ce_junk e in do {
     h \<leftarrow> Register (PacketHandler (unat (s2c_code S2C_Max))) (s2c_code S2C_auth_result)
            (PacketFunctor_Execute j (pack_with SC_P_AUTH_RESULT_Serialize) SC_P_AUTH_RESULT (S2C_AuthResult e a));
     h \<leftarrow> Register h (s2c_code S2C_enter)
            (PacketFunctor_Execute j (pack_with SC_P_ENTER_Serialize) SC_P_ENTER (S2C_Enter e a));
     h \<leftarrow> Register h (s2c_code S2C_enter_character)
            (PacketFunctor_Execute j (pack_with CHARACTER_LIST_Serialize) SC_P_ENTER_CHARACTER_LIST (S2C_EnterCharacter e a));
     h \<leftarrow> Register h (s2c_code S2C_leave)
            (PacketFunctor_Execute j (pack_with SC_P_LEAVE_Serialize) SC_P_LEAVE (S2C_Leave e a));
     h \<leftarrow> Register h (s2c_code S2C_move)
            (PacketFunctor_Execute j (pack_with SC_P_MOVE_Serialize) SC_P_MOVE (S2C_Move e a));
     h \<leftarrow> Register h (s2c_code S2C_interaction)
            (PacketFunctor_Execute j (pack_with SC_P_INTERACTION_Serialize) SC_P_INTERACTION (S2C_Interaction e a));
     h \<leftarrow> Register h (s2c_code S2C_heartbeat)
            (PacketFunctor_Execute j (pack_with SC_P_HEARTBEAT_Serialize) SC_P_HEARTBEAT (S2C_Heartbeat e a));
     Register h (s2c_code S2C_echo)
            (PacketFunctor_Execute j (pack_with SC_P_ECHO_Serialize) SC_P_ECHO (S2C_Echo e a)) })"

definition MessageProcess_cli :: "cli_env \<Rightarrow> addr \<Rightarrow> client \<Rightarrow> bytes \<Rightarrow> u32 \<Rightarrow> (int \<times> client) option" where
  "MessageProcess_cli e a cl pData nLen =
     (if 8 > unat (scast nLen :: u64) then Some (- 1, cl)
      else do {
        hd \<leftarrow> mem_read pData 0 8;
        let dwPacketLength = ui32Length (head_of hd) - 8 - 12;
        h \<leftarrow> RegisterPacketHandlers_cli e a;
        (r, cl) \<leftarrow> PacketHandler_Execute (ce_junk e) h (drop 8 pData) dwPacketLength cl;
        Some (if r then 1 else 0, cl) })"

subsection \<open>Command units\<close>

fun Operator_cli :: "cli_command \<Rightarrow> client \<Rightarrow> client option" where
  "Operator_cli TestCommandUnit cl = Some (say Test_line cl)"
| "Operator_cli (DynamicCommandUnit operation) cl =
     Some (case operation of None \<Rightarrow> cl | Some l \<Rightarrow> say l cl)"

definition client_Tick :: "client \<Rightarrow> client option" where
  "client_Tick = Tick cl_queue (\<lambda>q cl. cl\<lparr>cl_queue := q\<rparr>) Operator_cli"

definition add_cmd_cli :: "cli_command \<Rightarrow> client \<Rightarrow> client" where
  "add_cmd_cli c cl = cl\<lparr>cl_queue := Add (cl_queue cl) c\<rparr>"

subsection \<open>The process thread\<close>

text \<open>One round after \<open>Pop\<close> returned a packet; a packet without a connector skips the tick.\<close>

definition ProcessThread_cli_round :: "cli_env \<Rightarrow> client \<Rightarrow> PacketStruct \<Rightarrow> client option" where
  "ProcessThread_cli_round e cl pPacket = do {
     hd \<leftarrow> mem_read (pBuffer pPacket) 0 8;
     let off = uint (ui32Length (head_of hd)) - 12;
     tl \<leftarrow> (if off < 0 then None else mem_read (pBuffer pPacket) (nat off) 4);
     let cl = (if PACKET_CHECK_TAIL_KEY \<noteq> le_word tl
               then set_net (snd (Disconnect (cl_net cl) (cl_loop_pConnector cl))) cl else cl);
     let cl = cl\<lparr>cl_loop_pConnector := ps_pConnector pPacket\<rparr>;
     (case ps_pConnector pPacket of
        None \<Rightarrow> Some cl
      | Some c \<Rightarrow> do {
          cl \<leftarrow> (case cn_param (connectors (cl_net cl) c) of
                   Some a \<Rightarrow> do {
                     (r, cl) \<leftarrow> MessageProcess_cli e a cl (pBuffer pPacket) (nDataSize pPacket);
                     Some cl }
                 | None \<Rightarrow> Some cl);
          client_Tick cl }) }"

subsection \<open>The command thread\<close>

text \<open>The pool of sessions default-constructs the objects it grows by.\<close>

definition GetFreeSession_cli :: "(nat \<Rightarrow> addr) \<Rightarrow> client \<Rightarrow> addr option \<times> client" where
  "GetFreeSession_cli fresh cl =
     (let (r, m) = PoolMgr_GetFreeObject fresh (cl_sessionMgr cl);
          new = drop (length (pm_poolList (cl_sessionMgr cl))) (pm_poolList m)
      in (r, cl\<lparr>cl_sessionMgr := m, cl_sessions := fold (\<lambda>a f. f(a := UserSession_cli)) new (cl_sessions cl)\<rparr>))"

definition cmd_connect :: "cli_env \<Rightarrow> client \<Rightarrow> client option" where
  "cmd_connect e cl =
     (if cl_pConnector cl = None then do {
        (r, nt) \<leftarrow> Connect (ce_junk e) (ce_fresh e) (ce_found e) (ce_socket e) (ce_connected e) (ce_port_ok e) (ce_wsa e)
          (cl_net cl) (si_ip (serverInfo (ce_config e))) (si_port (serverInfo (ce_config e)));
        let cl = (set_net nt cl)\<lparr>cl_pConnector := r\<rparr>;
        Some (case r of
            None \<Rightarrow> cl
          | Some c \<Rightarrow>
              (case GetFreeSession_cli (ce_fresh_session e) cl of
                 (Some s, cl) \<Rightarrow>
                   let nt = upd_connector (cl_net cl) c ((connectors (cl_net cl) c)\<lparr>cn_param := Some s\<rparr>)
                   in (set_net nt cl)\<lparr>cl_pSession := Some s,
                        cl_sessions := (cl_sessions cl)(s := (cl_sessions cl s)\<lparr>cs_pConnector := Some c\<rparr>)\<rparr>
               | (None, cl) \<Rightarrow> (set_net (snd (Disconnect (cl_net cl) (Some c))) cl)\<lparr>cl_pSession := None\<rparr>)) }
      else Some cl)"

definition cmd_disconnect :: "client \<Rightarrow> client" where
  "cmd_disconnect cl =
     (case cl_pConnector cl of
        None \<Rightarrow> cl
      | Some c \<Rightarrow> (set_net (snd (Disconnect (cl_net cl) (Some c))) cl)\<lparr>cl_pConnector := None\<rparr>)"

text \<open>A call through \<open>pSession\<close>, with and without the test for null.\<close>

definition on_session :: "(addr \<Rightarrow> client \<Rightarrow> (eResultCode \<times> client) option) \<Rightarrow> client \<Rightarrow> client option" where
  "on_session f cl = do { s \<leftarrow> cl_pSession cl; (r, cl) \<leftarrow> f s cl; Some cl }"

definition on_session_if :: "(addr \<Rightarrow> client \<Rightarrow> (eResultCode \<times> client) option) \<Rightarrow> client \<Rightarrow> client option" where
  "on_session_if f cl = (if cl_pSession cl = None then Some cl else on_session f cl)"

definition step_rand :: "nat \<Rightarrow> nat \<Rightarrow> u32" where
  "step_rand r1 r2 = of_nat (r1 mod 10) * (if r2 mod 2 = 0 then 1 else - 1)"

definition cmd_move :: "cli_env \<Rightarrow> client \<Rightarrow> client option" where
  "cmd_move e cl =
     (let p = ch_pos (characters (charMgr cl) (playerCharacter (charMgr cl)));
          x = posX p + step_rand (ce_rand e 0) (ce_rand e 1); y = posY p + step_rand (ce_rand e 2) (ce_rand e 3)
      in on_session (\<lambda>s cl. ReqMove e s cl x y) cl)"

text \<open>\<open>atoi\<close>: leading white space, a sign, digits; a value that does not fit is clamped.\<close>

definition is_digit :: "char \<Rightarrow> bool" where
  "is_digit ch \<longleftrightarrow> (let n = (of_char ch :: nat) in 48 \<le> n \<and> n \<le> 57)"

definition digits_value :: "string \<Rightarrow> int" where
  "digits_value s = foldl (\<lambda>v c. v * 10 + (of_char c - 48)) 0 (takeWhile is_digit s)"

definition atoi :: "string \<Rightarrow> int" where
  "atoi s =
     (let s = dropWhile (\<lambda>ch. let n = (of_char ch :: nat) in n = 32 \<or> 9 \<le> n \<and> n \<le> 13) s;
          v = (case s of
                 [] \<Rightarrow> 0
               | c # cs \<Rightarrow> if c = CHR ''-'' then - digits_value cs
                           else if c = CHR ''+'' then digits_value cs else digits_value s)
      in max (- (2 ^ 31)) (min (2 ^ 31 - 1) v))"

fun repeat_n :: "nat \<Rightarrow> (client \<Rightarrow> client option) \<Rightarrow> client \<Rightarrow> client option" where
  "repeat_n 0 f cl = Some cl"
| "repeat_n (Suc n) f cl = do { cl \<leftarrow> f cl; repeat_n n f cl }"

definition cmd_sendLoop :: "cli_env \<Rightarrow> string list \<Rightarrow> client \<Rightarrow> client option" where
  "cmd_sendLoop e cmdTokens cl =
     (let loopCount = (if 2 \<le> length cmdTokens then atoi (cmdTokens ! 1) else 5);
          loopCount = (if 1 > loopCount then 1 else loopCount)
      in repeat_n (nat loopCount) (on_session_if (ReqEcho e)) cl)"

text \<open>\<open>0 == strncmp(tok, lit, tok.length())\<close>.\<close>

definition names :: "string \<Rightarrow> string \<Rightarrow> bool" where
  "names tok lit = strncmp_equal (length tok) (chars tok @ [0]) (chars lit @ [0])"

text \<open>
  One round of \<open>CommandThread\<close> on the line that was typed: \<open>gets_s\<close> ends the program on a line of 1024
  characters or more.  The first component tells whether the loop is left.  \<open>Stop\<close> may throw or hang, see
  \<open>App_Stop_cli\<close>; \<open>cmdTokens[0]\<close> of an empty vector is undefined.
\<close>

definition CommandThread_round :: "cli_env \<Rightarrow> string \<Rightarrow> client \<Rightarrow> (bool \<times> client) outcome option" where
  "CommandThread_round e line cl =
     (if 1024 \<le> length line then None
      else
        let cmdStr = takeWhile (\<lambda>c. c \<noteq> CHR 0x00) line; go = (\<lambda>cl. Ends (False, cl))
        in if 0 \<ge> length cmdStr then Some (go cl)
           else
             let cmdTokens = TokenizeA cmdStr [] '' ''
             in case cmdTokens of
                  [] \<Rightarrow> None
                | tok # _ \<Rightarrow>
                    if names tok ''/connect'' then map_option go (cmd_connect e cl)
                    else if names tok ''/disconnect'' then Some (go (cmd_disconnect cl))
                    else if names tok ''/auth'' then map_option go (on_session_if (ReqAuth e) cl)
                    else if names tok ''/enter'' then map_option go (on_session (ReqEnter e) cl)
                    else if names tok ''/leave'' then Some (go cl)
                    else if names tok ''/move'' then map_option go (cmd_move e cl)
                    else if names tok ''/send'' then map_option go (on_session_if (ReqEcho e) cl)
                    else if names tok ''/sendLoop'' then map_option go (cmd_sendLoop e cmdTokens cl)
                    else if names tok ''/exit'' then
                      Some (bind_outcome (App_Stop_cli (cl_app cl)) (\<lambda>ap. Ends (True, cl\<lparr>cl_app := ap\<rparr>)))
                    else Some (go (add_cmd_cli (DynamicCommandUnit (Some Dynamic_line)) (add_cmd_cli TestCommandUnit cl))))"

subsection \<open>Reading a command\<close>

lemma names_prefix:
  assumes "CHR 0x00 \<notin> set tok"
  shows "names tok lit \<longleftrightarrow> take (length tok) lit = tok"
proof -
  have z: "0 \<notin> set (chars tok)" using chars_no_zero [OF assms] .
  have "strncmp_equal (length tok) (chars tok @ [0]) (chars lit @ [0]) \<longleftrightarrow>
      strncmp_equal (length tok) (chars lit @ [0]) (chars tok @ [0])"
    by (rule strncmp_equal_sym)
  also have "\<dots> \<longleftrightarrow> take (length tok) (chars lit @ [0]) = chars tok"
    using strncmp_equal_take [OF z, of "length tok" "chars lit @ [0]" "[0]"] by simp
  also have "\<dots> \<longleftrightarrow> take (length tok) lit = tok"
  proof (cases "length tok \<le> length lit")
    case True
    then show ?thesis by (simp add: take_chars)
  next
    case False
    then have "take (length tok) (chars lit @ [0]) = chars lit @ [0]" by simp
    moreover have "chars lit @ [0] \<noteq> chars tok" using z by (metis in_set_conv_decomp)
    ultimately show ?thesis using False by (metis nle_le take_all)
  qed
  finally show ?thesis by (simp add: names_def)
qed

end
