(* ===== verification/Client_Props.thy ===== *)
theory Client_Props
  imports Client
begin

text \<open>
  What the client does with server packets: dispatch, the picture of the world it keeps, which refines
  an abstract one, and what it sends.
\<close>

subsection \<open>Dispatch\<close>

fun s2c_handle :: "cli_env \<Rightarrow> addr \<Rightarrow> client \<Rightarrow> s2c_packet \<Rightarrow> (bool \<times> client) option" where
  "s2c_handle e a cl (P_SC_AUTH_RESULT p) = S2C_AuthResult e a cl p"
| "s2c_handle e a cl (P_SC_ENTER p) = S2C_Enter e a cl p"
| "s2c_handle e a cl (P_SC_LIST p) = S2C_EnterCharacter e a cl p"
| "s2c_handle e a cl (P_SC_LEAVE p) = S2C_Leave e a cl p"
| "s2c_handle e a cl (P_SC_MOVE p) = S2C_Move e a cl p"
| "s2c_handle e a cl (P_SC_INTERACTION p) = S2C_Interaction e a cl p"
| "s2c_handle e a cl (P_SC_HEARTBEAT p) = S2C_Heartbeat e a cl p"
| "s2c_handle e a cl (P_SC_ECHO p) = S2C_Echo e a cl p"

lemma client_handlers:
  "\<exists>h. RegisterPacketHandlers_cli e a = Some h \<and>
     packetFunctors h = map (s2c_functor (ce_junk e) (s2c_handle e a))
       [S2C_invalid, S2C_auth_result, S2C_enter, S2C_enter_character, S2C_leave, S2C_move, S2C_interaction,
        S2C_heartbeat, S2C_echo]"
proof -
  have rep: "replicate 9 x = [x, x, x, x, x, x, x, x, x]" for x :: "client packet_functor option"
    by (simp add: numeral_eq_Suc)
  show ?thesis
    by (simp add: RegisterPacketHandlers_cli_def Register_def PacketHandler_def Let_def rep list_update_numeral)
qed

lemma s2c_handler_at:
  "RegisterPacketHandlers_cli e a = Some h \<Longrightarrow>
   unat (s2c_code (s2c_tag p)) < length (packetFunctors h) \<and>
   packetFunctors h ! unat (s2c_code (s2c_tag p)) = s2c_functor (ce_junk e) (s2c_handle e a) (s2c_tag p)"
  using client_handlers [of e a] by (cases p) auto

lemma MessageProcess_cli_dispatch:
  assumes v: "s2c_valid p" and n: "unat nLen = length (s2c_image p) + 20"
  shows "MessageProcess_cli e a cl (frame (s2c_image p) seq now @ rest) nLen =
    map_option (\<lambda>(r, cl). (if r then 1 else 0, cl)) (s2c_handle e a cl p)"
proof -
  let ?i = "s2c_image p" and ?d = "frame (s2c_image p) seq now @ rest"
  have fits: "length ?i + 20 \<le> max_packet" using s2c_image_fits [OF v] .
  obtain h where h: "RegisterPacketHandlers_cli e a = Some h" using client_handlers by blast
  have len: "ui32Length (head_of (take 8 ?d)) - 8 - 12 = of_nat (length ?i)"
    unfolding head_of_take [OF order_refl] head_of_frame by simp
  have rd: "mem_read ?d 0 8 = Some (take 8 ?d)" by (subst mem_read_Some) simp_all
  have u: "unat (of_nat (length ?i) :: u32) = length ?i" using fits by (simp add: unat_of_nat)
  obtain tl where tl: "drop 8 ?d = ?i @ tl" by (simp add: frame_def)
  have ty: "body_type (?i @ tl) (of_nat (length ?i)) = s2c_code (s2c_tag p)"
    using s2c_image_type [OF v] u fits by (simp add: body_type_def)
  obtain pf where pf: "s2c_functor (ce_junk e) (s2c_handle e a) (s2c_tag p) = Some pf"
    "pf (?i @ tl) (of_nat (length ?i)) cl = s2c_handle e a cl p"
    using s2c_functor_ok [OF v u, of "ce_junk e" "s2c_handle e a" tl cl] by blast
  have small: "\<not> 8 > unat (scast nLen :: u64)" using unat_scast_nonneg [of nLen] n fits by simp
  have "PacketHandler_Execute (ce_junk e) h (?i @ tl) (of_nat (length ?i)) cl = s2c_handle e a cl p"
    using PacketHandler_Execute_eq [of "of_nat (length ?i)" "?i @ tl" "ce_junk e" h cl] u ty
      s2c_handler_at [OF h, of p] pf by simp
  then have "MessageProcess_cli e a cl ?d nLen =
      (s2c_handle e a cl p \<bind> (\<lambda>(r, cl). Some (if r then 1 else 0, cl)))"
    unfolding MessageProcess_cli_def using small h by (simp only: rd bind.bind_lunit if_False Let_def len tl)
  then show ?thesis by (cases "s2c_handle e a cl p") auto
qed

subsection \<open>The world as the client sees it\<close>

record world =
  me :: u64
  my_pos :: Position
  others :: "int \<Rightarrow> Position option"

definition world_of :: "character_mgr \<Rightarrow> world" where
  "world_of cm = \<lparr>me = ch_token (characters cm (playerCharacter cm)),
     my_pos = ch_pos (characters cm (playerCharacter cm)),
     others = (\<lambda>k. map_option (\<lambda>a. ch_pos (characters cm a)) (map_of (cm_map cm) k))\<rparr>"

definition place :: "world \<Rightarrow> u64 \<Rightarrow> (Position \<Rightarrow> Position) \<Rightarrow> world" where
  "place w t f =
     (if me w = t then w\<lparr>my_pos := f (my_pos w)\<rparr>
      else w\<lparr>others := (others w)(sint t \<mapsto>
        f (case others w (sint t) of None \<Rightarrow> Position_init | Some p \<Rightarrow> p))\<rparr>)"

text \<open>What each server packet means for the picture of the world.\<close>

fun world_step :: "s2c_packet \<Rightarrow> world \<Rightarrow> world" where
  "world_step (P_SC_AUTH_RESULT p) w = w\<lparr>me := result_token p\<rparr>"
| "world_step (P_SC_ENTER p) w = place w (sc_enter_token p) (\<lambda>q. Position_SetPos2 q (sc_enter_x p) (sc_enter_y p))"
| "world_step (P_SC_LIST p) w =
     fold (\<lambda>d w. place w (db_token d) (\<lambda>_. db_pos d)) (take (nat (sint (list_count p))) (list_data p)) w"
| "world_step (P_SC_LEAVE p) w =
     (if me w = sc_leave_token p then w else w\<lparr>others := (others w)(sint (sc_leave_token p) := None)\<rparr>)"
| "world_step (P_SC_MOVE p) w =
     (if me w = sc_move_token p \<or> others w (sint (sc_move_token p)) \<noteq> None
      then place w (sc_move_token p) (\<lambda>q. Position_SetPos2 q (sc_move_x p) (sc_move_y p)) else w)"
| "world_step _ w = w"

definition cm_ok :: "(nat \<Rightarrow> addr) \<Rightarrow> character_mgr \<Rightarrow> bool" where
  "cm_ok alloc cm \<longleftrightarrow> mgr_ok (cm_objects cm) \<and> allocated_by alloc (cm_objects cm) \<and> omap_ok (cm_map cm) \<and>
     distinct (playerCharacter cm # map snd (cm_map cm)) \<and>
     set (playerCharacter cm # map snd (cm_map cm)) \<subseteq> mgr_in_use (cm_objects cm)"

lemma cm_ok_upd [simp]: "cm_ok alloc (upd_character cm a c) = cm_ok alloc cm"
  by (simp add: cm_ok_def upd_character_def)

lemma map_of_snd_inj:
  "distinct (map snd m) \<Longrightarrow> map_of m k = Some a \<Longrightarrow> map_of m k' = Some a \<Longrightarrow> k = k'"
proof (induction m)
  case (Cons p m)
  have "a \<in> snd ` set m" if "map_of m j = Some a" for j using map_of_SomeD [OF that] by force
  then show ?case using Cons by (auto split: if_splits)
qed simp

lemma world_upd:
  assumes ok: "cm_ok alloc cm" and a: "GetCharacter cm t = Some a"
    and c: "ch_token c = ch_token (characters cm a)" "ch_pos c = f (ch_pos (characters cm a))"
  shows "world_of (upd_character cm a c) = place (world_of cm) t f"
proof (cases "ch_token (characters cm (playerCharacter cm)) = t")
  case True
  then have p: "a = playerCharacter cm" using a by (simp add: GetCharacter_def)
  have "b \<noteq> a" if "map_of (cm_map cm) k = Some b" for k b
    using ok p map_of_SomeD [OF that] by (force simp: cm_ok_def)
  then show ?thesis
    using True p c
    by (auto simp: world_of_def place_def upd_character_def fun_eq_iff map_option_case split: option.splits)
next
  case False
  then have m: "map_of (cm_map cm) (sint t) = Some a" using a by (simp add: GetCharacter_def)
  have np: "playerCharacter cm \<noteq> a" using ok map_of_SomeD [OF m] by (force simp: cm_ok_def)
  have "b \<noteq> a" if "map_of (cm_map cm) k = Some b" "k \<noteq> sint t" for k b
    using ok m that map_of_snd_inj [of "cm_map cm" "sint t" a k] by (auto simp: cm_ok_def)
  then show ?thesis
    using False m np c
    by (auto simp: world_of_def place_def upd_character_def fun_eq_iff map_option_case split: option.splits)
qed

lemma omap_insert_mset: "map_of m k = None \<Longrightarrow> mset (omap_insert k v m) = add_mset (k, v) (mset m)"
  by (induction k v m rule: omap_insert.induct) (auto split: if_splits)

lemma EnterCharacter_world:
  assumes al: "allocator_ok alloc" and ok: "cm_ok alloc cm"
    and r: "CharacterMgr_EnterCharacter alloc cm t = (a, cm')"
  shows "cm_ok alloc cm' \<and> GetCharacter cm' t = Some a \<and> world_of cm' = place (world_of cm) t (\<lambda>q. q)"
proof (cases "GetCharacter cm t")
  case (Some b)
  then have "a = b" "cm' = cm" using r by (simp_all add: CharacterMgr_EnterCharacter_def)
  moreover have "world_of cm = place (world_of cm) t (\<lambda>q. q)"
    using Some by (auto simp: GetCharacter_def place_def world_of_def fun_eq_iff split: if_splits)
  ultimately show ?thesis using Some ok by simp
next
  case None
  then have nt: "ch_token (characters cm (playerCharacter cm)) \<noteq> t" "map_of (cm_map cm) (sint t) = None"
    by (auto simp: GetCharacter_def split: if_splits)
  obtain m where m: "ObjectMgr_GetFreeObject (next_chunk alloc (cm_objects cm)) (cm_objects cm) = (a, m)"
    "cm' = (upd_character (cm\<lparr>cm_objects := m\<rparr>) a (Character_SetToken Character_init t))
       \<lparr>cm_map := omap_insert (sint t) a (cm_map cm)\<rparr>"
    using r None
    by (auto simp: CharacterMgr_EnterCharacter_def Let_def upd_character_def split: prod.splits)
  have room: "mgr_room (next_chunk alloc (cm_objects cm)) (cm_objects cm)"
    using ok al allocator_room by (simp add: cm_ok_def)
  have k: "mgr_ok m" "a \<notin> mgr_in_use (cm_objects cm)" "mgr_in_use m = insert a (mgr_in_use (cm_objects cm))"
    using mgr.take_ok [OF _ room m(1)] ok by (auto simp: cm_ok_def)
  have alb: "allocated_by alloc m" using allocated_by_take [OF _ m(1)] ok by (simp add: cm_ok_def)
  have ins: "mset (omap_insert (sint t) a (cm_map cm)) = add_mset (sint t, a) (mset (cm_map cm))"
    by (rule omap_insert_mset [OF nt(2)])
  have snds: "mset (map snd (omap_insert (sint t) a (cm_map cm))) = mset (a # map snd (cm_map cm))"
    by (simp only: mset_map ins) simp
  have d: "distinct (map snd (omap_insert (sint t) a (cm_map cm))) = distinct (a # map snd (cm_map cm))"
    "set (map snd (omap_insert (sint t) a (cm_map cm))) = set (a # map snd (cm_map cm))"
    using mset_eq_imp_distinct_iff [OF snds] mset_eq_setD [OF snds] by simp_all
  have used: "playerCharacter cm \<in> mgr_in_use (cm_objects cm)" "snd ` set (cm_map cm) \<subseteq> mgr_in_use (cm_objects cm)"
    using ok by (auto simp: cm_ok_def)
  have "cm_ok alloc cm'"
    using ok k alb d used by (auto simp: m(2) cm_ok_def upd_character_def)
  moreover have "map_of (omap_insert (sint t) a (cm_map cm)) = (map_of (cm_map cm))(sint t \<mapsto> a)"
    using map_of_omap_insert [of "cm_map cm" "sint t" a] ok nt(2) by (simp add: cm_ok_def)
  moreover have "b \<noteq> a" if "map_of (cm_map cm) j = Some b" for j b
    using used k(2) map_of_SomeD [OF that] by force
  moreover have "playerCharacter cm \<noteq> a" using used k(2) by auto
  ultimately show ?thesis
    using nt
    by (auto simp: m(2) GetCharacter_def world_of_def place_def upd_character_def fun_eq_iff
        map_option_case character_defs split: option.splits)
qed

lemma enter_entries_world:
  assumes al: "allocator_ok (ce_base e)"
  shows "cm_ok (ce_base e) (charMgr cl) \<Longrightarrow> n \<le> length ds \<Longrightarrow>
    \<exists>cl'. enter_entries e ds n cl = Some cl' \<and> cm_ok (ce_base e) (charMgr cl') \<and>
      world_of (charMgr cl') = fold (\<lambda>d w. place w (db_token d) (\<lambda>_. db_pos d)) (take n ds) (world_of (charMgr cl)) \<and>
      cl_app cl' = cl_app cl \<and> cl_sessions cl' = cl_sessions cl"
proof (induction n arbitrary: ds cl)
  case (Suc n)
  then obtain d ds' where ds: "ds = d # ds'" "n \<le> length ds'" by (cases ds) auto
  obtain ch cm where en: "CharacterMgr_EnterCharacter (ce_base e) (charMgr cl) (db_token d) = (ch, cm)" by fastforce
  let ?cm = "upd_character cm ch (Character_SetPosition (characters cm ch) (db_pos d))"
  let ?cl = "say (Seen (db_token d) (posX (db_pos d)) (posY (db_pos d))) (cl\<lparr>charMgr := ?cm\<rparr>)"
  note w = EnterCharacter_world [OF al Suc.prems(1) en]
  have "world_of ?cm = place (world_of cm) (db_token d) (\<lambda>_. db_pos d)"
    using w by (intro world_upd [of "ce_base e"]) (simp_all add: character_defs)
  also have "\<dots> = place (world_of (charMgr cl)) (db_token d) (\<lambda>_. db_pos d)"
    using w by (simp add: place_def)
  finally have step: "world_of (charMgr ?cl) = place (world_of (charMgr cl)) (db_token d) (\<lambda>_. db_pos d)"
    by (simp add: say_def)
  have ok: "cm_ok (ce_base e) (charMgr ?cl)" using w by (simp add: say_def)
  show ?case
    using Suc.IH [OF ok ds(2)] step by (auto simp: ds(1) en Let_def say_def)
qed simp

definition plain :: "s2c_packet \<Rightarrow> bool" where
  "plain p \<longleftrightarrow> (case p of P_SC_HEARTBEAT _ \<Rightarrow> False | P_SC_ECHO _ \<Rightarrow> False | _ \<Rightarrow> True)"

lemma s2c_handle_world:
  assumes al: "allocator_ok (ce_base e)" and ok: "cm_ok (ce_base e) (charMgr cl)" and v: "s2c_valid p" and pl: "plain p"
  shows "\<exists>cl'. s2c_handle e a cl p = Some (True, cl') \<and> cm_ok (ce_base e) (charMgr cl') \<and>
    world_of (charMgr cl') = world_step p (world_of (charMgr cl)) \<and> cl_app cl' = cl_app cl"
proof (cases p)
  case (P_SC_AUTH_RESULT q)
  have "b \<noteq> playerCharacter (charMgr cl)" if "map_of (cm_map (charMgr cl)) k = Some b" for k b
    using ok map_of_SomeD [OF that] by (force simp: cm_ok_def)
  then show ?thesis
    using P_SC_AUTH_RESULT ok
    by (auto simp: S2C_AuthResult_def Let_def world_of_def upd_character_def cm_ok_def character_defs
        fun_eq_iff map_option_case split: option.splits)
next
  case (P_SC_ENTER q)
  let ?t = "sc_enter_token q"
  obtain ch cm where en: "(if IsPlayerToken (charMgr cl) ?t then (playerCharacter (charMgr cl), charMgr cl)
      else CharacterMgr_EnterCharacter (ce_base e) (charMgr cl) ?t) = (ch, cm)" by fastforce
  have w: "cm_ok (ce_base e) cm \<and> GetCharacter cm ?t = Some ch \<and> world_of cm = place (world_of (charMgr cl)) ?t (\<lambda>q. q)"
  proof (cases "IsPlayerToken (charMgr cl) ?t")
    case True
    then show ?thesis
      using en ok by (auto simp: IsPlayerToken_def GetCharacter_def place_def world_of_def)
  next
    case False
    then show ?thesis using EnterCharacter_world [OF al ok] en by simp
  qed
  have "world_of (upd_character cm ch (Character_SetPos2 (characters cm ch) (sc_enter_x q) (sc_enter_y q))) =
      place (world_of cm) ?t (\<lambda>p. Position_SetPos2 p (sc_enter_x q) (sc_enter_y q))"
    using w by (intro world_upd [of "ce_base e"]) (simp_all add: character_defs)
  also have "\<dots> = place (world_of (charMgr cl)) ?t (\<lambda>p. Position_SetPos2 p (sc_enter_x q) (sc_enter_y q))"
    using w by (simp add: place_def)
  finally show ?thesis
    unfolding P_SC_ENTER s2c_handle.simps S2C_Enter_def Let_def en
    using w by (auto simp: say_def)
next
  case (P_SC_LIST q)
  have "nat (sint (list_count q)) \<le> length (list_data q)"
    using v P_SC_LIST sint_nonneg32 [of "list_count q"]
    by (auto simp: character_list_valid_def MAX_SEND_COUNT_CHARACTER_DB_DATA_def)
  then show ?thesis
    using enter_entries_world [OF al ok, of "nat (sint (list_count q))" "list_data q"]
    by (auto simp: P_SC_LIST S2C_EnterCharacter_def)
next
  case (P_SC_LEAVE q)
  have "distinct (map snd (omap_erase k (cm_map (charMgr cl))))" for k
    using ok by (simp add: cm_ok_def omap_erase_def distinct_map_filter)
  moreover have "map_of (cm_map (charMgr cl)) k \<noteq> Some (playerCharacter (charMgr cl))" for k
    using ok map_of_SomeD [of "cm_map (charMgr cl)" k "playerCharacter (charMgr cl)"] by (force simp: cm_ok_def)
  ultimately show ?thesis
    using ok
    by (auto simp: P_SC_LEAVE S2C_Leave_def GetCharacter_def IsPlayerCharacter_def CharacterMgr_LeaveCharacter_def
        world_of_def say_def Let_def fun_eq_iff cm_ok_def map_of_omap_erase set_omap_erase split: option.splits)
next
  case (P_SC_MOVE q)
  let ?t = "sc_move_token q" and ?cm = "charMgr cl"
  show ?thesis
  proof (cases "GetCharacter ?cm ?t")
    case None
    then show ?thesis
      using ok by (auto simp: P_SC_MOVE S2C_Move_def say_def GetCharacter_def world_of_def split: if_splits)
  next
    case (Some ch)
    have "world_of (upd_character ?cm ch (Character_SetPos2 (characters ?cm ch) (sc_move_x q) (sc_move_y q))) =
        place (world_of ?cm) ?t (\<lambda>p. Position_SetPos2 p (sc_move_x q) (sc_move_y q))"
      using Some by (intro world_upd [OF ok]) (simp_all add: character_defs)
    moreover have "me (world_of ?cm) = ?t \<or> others (world_of ?cm) (sint ?t) \<noteq> None"
      using Some by (auto simp: GetCharacter_def world_of_def split: if_splits)
    ultimately show ?thesis
      using ok Some by (auto simp: P_SC_MOVE S2C_Move_def say_def Let_def)
  qed
next
  case (P_SC_INTERACTION q)
  then show ?thesis using ok by (auto simp: S2C_Interaction_def Let_def say_def)
qed (use pl in \<open>simp_all add: plain_def\<close>)

text \<open>Frames handled one after the other.\<close>

fun process_frames :: "cli_env \<Rightarrow> addr \<Rightarrow> (u32 \<times> s2c_packet) list \<Rightarrow> client \<Rightarrow> client option" where
  "process_frames e a [] cl = Some cl"
| "process_frames e a ((now, p) # ps) cl = do {
     (r, cl) \<leftarrow> MessageProcess_cli e a cl (frame (s2c_image p) 0 now) (of_nat (length (s2c_image p) + 20));
     process_frames e a ps cl }"

lemma MessageProcess_cli_world:
  assumes "allocator_ok (ce_base e)" and "cm_ok (ce_base e) (charMgr cl)" and v: "s2c_valid p" and "plain p"
    and n: "unat nLen = length (s2c_image p) + 20"
  shows "\<exists>cl'. MessageProcess_cli e a cl (frame (s2c_image p) seq now @ rest) nLen = Some (1, cl') \<and>
    cm_ok (ce_base e) (charMgr cl') \<and> world_of (charMgr cl') = world_step p (world_of (charMgr cl)) \<and>
    cl_app cl' = cl_app cl"
  using s2c_handle_world [OF assms(1,2,3,4), of a] MessageProcess_cli_dispatch [OF v n, of e a cl seq now rest] by auto

lemma frame_size: "s2c_valid p \<Longrightarrow> unat (of_nat (length (s2c_image p) + 20) :: u32) = length (s2c_image p) + 20"
proof -
  assume "s2c_valid p"
  then have "length (s2c_image p) + 20 < 2 ^ 32" using s2c_image_fits [of p] by simp
  then show ?thesis using unat_of_nat [of "length (s2c_image p) + 20", where 'a = 32] by simp
qed

subsection \<open>What the client sends\<close>

lemma echo_text_length: "0 \<le> sint t \<Longrightarrow> length (echo_text t) = 14 + length (digits (nat (sint t)))"
  by (simp add: echo_text_def show_int_def)

text \<open>What the client puts on the wire.\<close>

definition c2s_frame :: "u32 \<Rightarrow> c2s_packet \<Rightarrow> bytes" where
  "c2s_frame now p = frame (c2s_image p) 0 now"

lemma length_c2s_frame: "c2s_valid p \<Longrightarrow> length (c2s_frame now p) \<le> max_packet \<and> 20 \<le> length (c2s_frame now p)"
  using c2s_image_fits [of p] by (simp add: c2s_frame_def)

lemma make_send_buffer_cli_ok:
  assumes "c2s_valid p"
  shows "\<exists>buf n. make_send_buffer_cli junk now p = Some (buf, n) \<and> length buf = max_packet \<and>
    unat n = length (c2s_frame now p) \<and> take (unat n) buf = c2s_frame now p"
proof -
  obtain s where s: "c2s_collect (Serializer_send junk) p = Some s" "ser_out s (c2s_image p)"
    using c2s_collect_ok [OF assms] by blast
  have d: "take (unat (nDataSize s)) (pBuffer s) = c2s_image p" "unat (nDataSize s) = length (c2s_image p)"
    "unat (nDataSize s) \<le> length (pBuffer s)"
    using ser_out_data [OF s(2)] by auto
  obtain out where out: "MakeNetworkPacket (pBuffer s) (nDataSize s) (replicate max_packet 0)
      MAX_PACKET_BUFFER_SIZE 0 now = Some (succ, out, nDataSize s + 20)"
    "unat (nDataSize s + 20) = unat (nDataSize s) + 20" "length out = max_packet"
    "take (unat (nDataSize s) + 20) out = frame (take (unat (nDataSize s)) (pBuffer s)) 0 now"
    using MakeNetworkPacket_ok [of "nDataSize s" "pBuffer s" MAX_PACKET_BUFFER_SIZE "replicate max_packet 0" 0 now]
      d c2s_image_fits [OF assms] by auto
  have "make_send_buffer_cli junk now p = Some (out, nDataSize s + 20)"
    using s(1) out(1) by (simp add: make_send_buffer_cli_def)
  then show ?thesis using out(2,3,4) d(1,2) by (simp add: c2s_frame_def)
qed

lemma SendPacket_cli_ok:
  assumes v: "c2s_valid p" and c: "cs_pConnector (cl_sessions cl a) = Some d"
    and live: "send_live (connectors (cl_net cl) d)" and w: "ce_wsa e \<noteq> WSA_FAILED"
  shows "\<exists>nt. SendPacket_cli e a cl p = Some (succ, set_net nt cl) \<and> send_live (connectors nt d) \<and>
    outstanding (connectors nt d) = outstanding (connectors (cl_net cl) d) @ c2s_frame (ce_now e) p"
proof -
  obtain buf n where buf: "make_send_buffer_cli (ce_junk e) (ce_now e) p = Some (buf, n)" "length buf = max_packet"
    "unat n = length (c2s_frame (ce_now e) p)" "take (unat n) buf = c2s_frame (ce_now e) p"
    using make_send_buffer_cli_ok [OF v] by blast
  have n: "0 < unat n" "unat n \<le> max_packet" "unat n \<le> length buf"
    using length_c2s_frame [OF v, of "ce_now e"] buf(2,3) by auto
  show ?thesis
    using Write_live [OF live n w, of "ce_junk e"] buf c by (auto simp: SendPacket_cli_def)
qed

lemma echo_too_long:
  assumes "32 < length s" and "length s < 2 ^ 31"
  shows "CS_P_ECHO_SetData CS_P_ECHO (chars s @ [0]) (of_nat (length s)) = None"
proof -
  have "unat (of_nat (length s) :: u32) = length s" using assms(2) by (simp add: unat_of_nat)
  then show ?thesis
    using assms unat_scast_nonneg [of "of_nat (length s) :: u32"]
    by (simp add: CS_P_ECHO_SetData_def CS_P_ECHO_def memcpy_s_def MAX_ECHO_DATA_LENGTH_def Let_def)
qed

lemma client_host_appends: "Operator_cli c cl = Some cl' \<Longrightarrow> \<exists>new. cmds (cl_queue cl') = cmds (cl_queue cl) @ new"
  by (cases c) (auto simp: say_def split: option.splits)

interpretation cli: command_host cl_queue "\<lambda>q cl. cl\<lparr>cl_queue := q\<rparr>" Operator_cli
  by unfold_locales (simp_all add: client_host_appends)

text \<open>Without a queue the tick does nothing.\<close>

lemma client_Tick_idle: "cmds (cl_queue cl) = [] \<Longrightarrow> client_Tick cl = Some cl"
  by (simp add: client_Tick_def cli.Tick_eq)

lemma blank_line_no_words: "words_of (\<lambda>c. c \<in> set '' '') (replicate n CHR '' '') = []"
  by (subst words_of.simps) (simp add: dropWhile_eq_Nil_conv split: list.splits)

lemma words_of_one: "\<not> d x \<Longrightarrow> list_all (\<lambda>c. \<not> d c) xs \<Longrightarrow> words_of d (x # xs) = [x # xs]"
proof -
  assume x: "\<not> d x" "list_all (\<lambda>c. \<not> d c) xs"
  have "takeWhile (\<lambda>c. \<not> d c) xs = xs" "dropWhile (\<lambda>c. \<not> d c) xs = []"
    using x(2) by (auto simp: takeWhile_eq_all_conv dropWhile_eq_Nil_conv list_all_iff)
  moreover have "words_of d [] = []" by (subst words_of.simps) simp
  moreover have "words_of d (x # xs) = (x # takeWhile (\<lambda>c. \<not> d c) xs) # words_of d (dropWhile (\<lambda>c. \<not> d c) xs)"
    using x(1) by (subst words_of.simps) simp
  ultimately show ?thesis by (simp only:)
qed

lemma one_word: "w \<noteq> [] \<Longrightarrow> CHR '' '' \<notin> set w \<Longrightarrow> TokenizeA w [] '' '' = [w]"
proof -
  assume w: "w \<noteq> []" "CHR '' '' \<notin> set w"
  obtain x xs where x: "w = x # xs" using w(1) by (cases w) auto
  have "x \<notin> set '' ''" "list_all (\<lambda>c. c \<notin> set '' '') xs" using w(2) x by (auto simp: list_all_iff)
  then have "words_of (\<lambda>c. c \<in> set '' '') w = [w]" unfolding x by (rule words_of_one)
  then show ?thesis by (simp only: TokenizeA_def tokenize_words append_Nil)
qed

subsection \<open>Properties\<close>

text \<open>
  C9: The client's picture of the world is the one the server's packets describe.  Starting from any well
  formed picture, after any sequence of valid authentication, enter, list, leave, move and interaction
  frames, each handed to \<open>UserSession::MessageProcess\<close>, the player's token and position and the positions
  of all known characters are those of the abstract world stepped through the same packets, and the
  picture is well formed again.
\<close>

theorem client_tracks_world:
  assumes "allocator_ok (ce_base e)" and "cm_ok (ce_base e) (charMgr cl)"
    and "list_all (\<lambda>(now, p). s2c_valid p \<and> plain p) ps"
  shows "\<exists>cl'. process_frames e a ps cl = Some cl' \<and> cm_ok (ce_base e) (charMgr cl') \<and>
    world_of (charMgr cl') = fold (\<lambda>(now, p). world_step p) ps (world_of (charMgr cl))"
  using assms(2,3)
proof (induction ps arbitrary: cl)
  case (Cons x ps)
  obtain now p where x: "x = (now, p)" by (cases x)
  have v: "s2c_valid p" "plain p" using Cons.prems x by simp_all
  obtain cl1 where cl1: "MessageProcess_cli e a cl (frame (s2c_image p) 0 now) (of_nat (length (s2c_image p) + 20)) = Some (1, cl1)"
    "cm_ok (ce_base e) (charMgr cl1)" "world_of (charMgr cl1) = world_step p (world_of (charMgr cl))"
    using MessageProcess_cli_world [OF assms(1) Cons.prems(1) v frame_size [OF v(1)], of a 0 now "[]"] by auto
  obtain cl2 where "process_frames e a ps cl1 = Some cl2" "cm_ok (ce_base e) (charMgr cl2)"
    "world_of (charMgr cl2) = fold (\<lambda>(now, p). world_step p) ps (world_of (charMgr cl1))"
    using Cons.IH [OF cl1(2)] Cons.prems by auto
  then show ?case using cl1 by (simp add: x)
qed simp

text \<open>A client as it starts, for concrete instances.\<close>

definition demo_cli_env :: cli_env where
  "demo_cli_env = \<lparr>ce_junk = (\<lambda>_. 0), ce_now = 9, ce_wsa = WSA_OK, ce_base = (\<lambda>i. 100 * 2 ^ i), ce_fresh = (\<lambda>i. i + 10),
     ce_fresh_session = (\<lambda>i. i + 10), ce_rand = (\<lambda>i. i), ce_found = True, ce_socket = 8, ce_connected = True,
     ce_port_ok = True, ce_config = \<lparr>cc_id = 1, userName = '''', userPass = '''', serverInfo = ServerInfo_init\<rparr>\<rparr>"

definition demo_client :: client where
  "demo_client = \<lparr>cl_app = App (demo_net 7), cl_sessions = (\<lambda>_. UserSession_cli\<lparr>cs_pConnector := Some 0\<rparr>),
     cl_sessionMgr = ObjectPoolMgrBase (\<lambda>i. i) 1, charMgr = CharacterMgr (ce_base demo_cli_env),
     cl_queue = CommandUnitQueue, console = [], cl_pConnector = Some 0, cl_pSession = Some 0,
     cl_loop_pConnector = None\<rparr>"

lemma demo_allocator: "allocator_ok (ce_base demo_cli_env)"
proof -
  have "(200 :: nat) * 2 ^ i \<le> 100 * 2 ^ j" if "i < j" for i j
  proof -
    have "(2 :: nat) ^ Suc i \<le> 2 ^ j" using that by (intro power_increasing) auto
    then show ?thesis by simp
  qed
  then show ?thesis by (fastforce simp: allocator_ok_def demo_cli_env_def initSize_def)
qed

lemma CharacterMgr_new:
  assumes "allocator_ok alloc"
  shows "cm_ok alloc (CharacterMgr alloc)" "world_of (CharacterMgr alloc) = \<lparr>me = 0, my_pos = Position_init, others = Map.empty\<rparr>"
proof -
  obtain a m where m: "ObjectMgr_GetFreeObject (next_chunk alloc ObjectMgrBase) ObjectMgrBase = (a, m)" by fastforce
  have "mgr_ok m \<and> a \<notin> mgr_in_use ObjectMgrBase \<and> mgr_in_use m = insert a (mgr_in_use ObjectMgrBase)"
    by (rule mgr.take_ok [OF mgr_ok_new(1) allocator_room [OF assms mgr_ok_new(2,1)] m])
  moreover have "allocated_by alloc m" by (rule allocated_by_take [OF mgr_ok_new(2) m])
  ultimately show "cm_ok alloc (CharacterMgr alloc)"
    by (simp add: CharacterMgr_def m cm_ok_def)
  show "world_of (CharacterMgr alloc) = \<lparr>me = 0, my_pos = Position_init, others = Map.empty\<rparr>"
    by (simp add: CharacterMgr_def m world_of_def character_defs)
qed

theorem client_tracks_world_witness:
  "\<exists>cl'. process_frames demo_cli_env 0
      [(1, P_SC_AUTH_RESULT (SC_P_AUTH_RESULT_SetToken SC_P_AUTH_RESULT 2 5)),
       (2, P_SC_ENTER (SC_P_ENTER_SetPos SC_P_ENTER 6 10 20)),
       (3, P_SC_MOVE (SC_P_MOVE_SetPos SC_P_MOVE 6 11 21))] demo_client = Some cl' \<and>
    me (world_of (charMgr cl')) = 5 \<and>
    others (world_of (charMgr cl')) 6 = Some \<lparr>zoneId = 0, posX = 11, posY = 21\<rparr>"
proof -
  let ?ps = "[(1, P_SC_AUTH_RESULT (SC_P_AUTH_RESULT_SetToken SC_P_AUTH_RESULT 2 5)),
       (2, P_SC_ENTER (SC_P_ENTER_SetPos SC_P_ENTER 6 10 20)),
       (3, P_SC_MOVE (SC_P_MOVE_SetPos SC_P_MOVE 6 11 21))] :: (u32 \<times> s2c_packet) list"
  have ok: "cm_ok (ce_base demo_cli_env) (charMgr demo_client)"
    "world_of (charMgr demo_client) = \<lparr>me = 0, my_pos = Position_init, others = Map.empty\<rparr>"
    using CharacterMgr_new [OF demo_allocator] by (simp_all add: demo_client_def)
  have "list_all (\<lambda>(now, p). s2c_valid p \<and> plain p) ?ps"
    by (simp add: plain_def sc_typed_def SC_P_AUTH_RESULT_SetToken_def SC_P_AUTH_RESULT_def SC_P_ENTER_SetPos_def
        SC_P_ENTER_def SC_P_MOVE_SetPos_def SC_P_MOVE_def)
  then show ?thesis
    using client_tracks_world [OF demo_allocator ok(1), of ?ps 0]
    by (auto simp: ok(2) place_def Position_SetPos2_def Position_init_def SC_P_AUTH_RESULT_SetToken_def
        SC_P_ENTER_SetPos_def SC_P_MOVE_SetPos_def)
qed

text \<open>
  The echo request has a limit.  With a non-negative token below \<open>10^18\<close> the text fits into the 32 bytes
  of the packet, and on a healthy connection the frame with the whole text is sent; from \<open>10^18\<close> on the
  text is longer and \<open>memcpy_s\<close> ends the process.
\<close>

theorem echo_request_limit:
  assumes "0 \<le> sint (cs_token (cl_sessions cl a))"
  shows "(sint (cs_token (cl_sessions cl a)) < 10 ^ 18 \<longrightarrow> cs_pConnector (cl_sessions cl a) = Some d \<longrightarrow>
      send_live (connectors (cl_net cl) d) \<longrightarrow> ce_wsa e \<noteq> WSA_FAILED \<longrightarrow>
      (\<exists>nt p. ReqEcho e a cl = Some (succ, set_net nt cl) \<and>
        take (unat (echoDataSize p)) (echoData p) = chars (echo_text (cs_token (cl_sessions cl a))) \<and>
        outstanding (connectors nt d) = outstanding (connectors (cl_net cl) d) @ c2s_frame (ce_now e) (P_CS_ECHO p))) \<and>
    (10 ^ 18 \<le> sint (cs_token (cl_sessions cl a)) \<longrightarrow> ReqEcho e a cl = None)"
proof (intro conjI impI)
  let ?t = "cs_token (cl_sessions cl a)"
  let ?s = "echo_text ?t"
  have len: "length ?s = 14 + length (digits (nat (sint ?t)))" by (rule echo_text_length [OF assms])
  {
    assume lt: "sint ?t < 10 ^ 18" and c: "cs_pConnector (cl_sessions cl a) = Some d"
      and live: "send_live (connectors (cl_net cl) d)" and w: "ce_wsa e \<noteq> WSA_FAILED"
    have "length (digits (nat (sint ?t))) \<le> Suc 17" using lt by (intro digits_bounds(1)) (simp add: nat_less_iff [OF assms])
    then have l: "length ?s \<le> 32" using len by simp
    then have u: "unat (of_nat (length ?s) :: u32) = length ?s" by (simp add: unat_of_nat)
    let ?p = "CS_P_ECHO\<lparr>echoDataSize := of_nat (length ?s),
      echoData := take (length ?s) (chars ?s @ [0]) @ replicate (32 - length ?s) 0\<rparr>"
    have set: "CS_P_ECHO_SetData CS_P_ECHO (chars ?s @ [0]) (of_nat (length ?s)) = Some ?p"
      using CS_P_ECHO_SetData_ok [of "of_nat (length ?s)" "chars ?s @ [0]"] l u by (simp add: length_chars)
    have v: "c2s_valid (P_CS_ECHO ?p)"
      using l u by (simp add: echo_valid_def counted_array_def cs_typed_def CS_P_ECHO_def MAX_ECHO_DATA_LENGTH_def length_chars)
    obtain nt where nt: "SendPacket_cli e a cl (P_CS_ECHO ?p) = Some (succ, set_net nt cl)"
      "outstanding (connectors nt d) = outstanding (connectors (cl_net cl) d) @ c2s_frame (ce_now e) (P_CS_ECHO ?p)"
      using SendPacket_cli_ok [OF v c live w] by blast
    show "\<exists>nt p. ReqEcho e a cl = Some (succ, set_net nt cl) \<and>
        take (unat (echoDataSize p)) (echoData p) = chars ?s \<and>
        outstanding (connectors nt d) = outstanding (connectors (cl_net cl) d) @ c2s_frame (ce_now e) (P_CS_ECHO p)"
      using nt set u by (intro exI [of _ nt] exI [of _ ?p]) (simp add: ReqEcho_def Let_def length_chars)
  }
  assume "10 ^ 18 \<le> sint ?t"
  then have "Suc 18 \<le> length (digits (nat (sint ?t)))" by (intro digits_bounds(2)) (simp add: le_nat_iff [OF assms])
  moreover have "length (digits (nat (sint ?t))) \<le> Suc 18"
    using sint_lt [of ?t] by (intro digits_bounds(1)) (simp add: nat_less_iff [OF assms])
  ultimately show "ReqEcho e a cl = None"
    using echo_too_long [of ?s] len by (simp add: ReqEcho_def Let_def)
qed

theorem echo_request_limit_witness:
  "\<exists>nt (p :: CS_P_ECHO). ReqEcho demo_cli_env 0 demo_client = Some (succ, set_net nt demo_client) \<and>
     take (unat (echoDataSize p)) (echoData p) = chars ''hello. my id 0.''"
proof -
  have s: "(7 :: SOCKET) \<noteq> INVALID_SOCKET" by (simp add: INVALID_SOCKET_def)
  have t: "cs_token (cl_sessions demo_client 0) = 0" "cs_pConnector (cl_sessions demo_client 0) = Some 0"
    "ce_wsa demo_cli_env \<noteq> WSA_FAILED" "cl_net demo_client = demo_net 7"
    by (simp_all add: demo_client_def demo_cli_env_def UserSession_cli_def App_def)
  have "echo_text 0 = ''hello. my id 0.''" by code_simp
  then show ?thesis
    using echo_request_limit [of demo_client 0 0 demo_cli_env] demo_net_ok(1) [OF s] by (simp add: t) blast
qed

text \<open>
  How a command is read.  A line is taken for \<open>/connect\<close> as soon as its only word is a prefix of it, a
  single \<open>/\<close> included, because \<open>strncmp\<close> compares no further than the word; and a line of blanks leaves the
  token vector empty, whose first element is then used: the behaviour is undefined.
\<close>

theorem command_line_reading:
  "(w \<noteq> [] \<and> take (length w) ''/connect'' = w \<longrightarrow>
      CommandThread_round e w cl = map_option (\<lambda>cl. Ends (False, cl)) (cmd_connect e cl)) \<and>
   (0 < n \<and> n < 1024 \<longrightarrow> CommandThread_round e (replicate n CHR '' '') cl = None)"
proof (intro conjI impI)
  assume w: "w \<noteq> [] \<and> take (length w) ''/connect'' = w"
  then have sub: "set w \<subseteq> set ''/connect''" "length w \<le> length ''/connect''"
    by (metis set_take_subset, metis length_take min.cobounded1)
  then have z: "CHR 0x00 \<notin> set w" "CHR '' '' \<notin> set w" by auto
  have tw: "takeWhile (\<lambda>c. c \<noteq> CHR 0x00) w = w" using z by (auto simp: takeWhile_eq_all_conv)
  have tk: "TokenizeA w [] '' '' = [w]" "names w ''/connect''"
    using w names_prefix [OF z(1), of "''/connect''"] one_word [of w] z by simp_all
  show "CommandThread_round e w cl = map_option (\<lambda>cl. Ends (False, cl)) (cmd_connect e cl)"
    using w sub(2) by (simp add: CommandThread_round_def Let_def tw tk)
next
  assume n: "0 < n \<and> n < 1024"
  then have tw: "takeWhile (\<lambda>c. c \<noteq> CHR 0x00) (replicate n CHR '' '') = replicate n CHR '' ''"
    by (auto simp: takeWhile_eq_all_conv)
  have tk: "TokenizeA (replicate n CHR '' '') [] '' '' = []"
    using blank_line_no_words [of n] by (simp add: TokenizeA_def tokenize_words)
  show "CommandThread_round e (replicate n CHR '' '') cl = None"
    using n by (simp add: CommandThread_round_def Let_def tw tk)
qed

theorem command_line_reading_witness:
  "CommandThread_round demo_cli_env ''/'' demo_client = Some (Ends (False, demo_client)) \<and>
   CommandThread_round demo_cli_env ''  '' demo_client = None"
proof -
  have "replicate 2 CHR '' '' = ''  ''" by (simp add: numeral_eq_Suc)
  moreover have "cmd_connect demo_cli_env demo_client = Some demo_client"
    by (simp add: cmd_connect_def demo_client_def)
  ultimately show ?thesis
    using command_line_reading [of "''/''" demo_cli_env demo_client 2] by simp
qed

end
