(* ===== verification/Certify.thy ===== *)
theory Certify
  imports PL_Prelude
begin

text \<open>
  \<^verbatim>\<open>_framework/certifyData.h/.cpp\<close> and \<^verbatim>\<open>certifyConvertData.h\<close>: the challenge a server sends to a client.  One
  of ten strings is encrypted by XOR with a key and written in one of ten 64-letter alphabets, three
  bytes as four letters; the client translates it back and the server decrypts and compares the answer.
  Values of \<open>rand()\<close> are arguments.  The global alphabets are an argument \<open>tbl\<close>, empty until
  \<open>CertifyConvertTableInit\<close>.
\<close>

definition MAX_STRING_LEN :: nat where
  "MAX_STRING_LEN = 60"

definition MAX_CONVERT_BUFFER_LEN :: nat where
  "MAX_CONVERT_BUFFER_LEN = 80"

definition MAX_ENC_STRING_LEN :: nat where
  "MAX_ENC_STRING_LEN = 10"

definition szConvertTable :: "string list" where
  "szConvertTable = [
     ''AKSBC+Z3a69psMDgwyxoiXLHhtn7cuTImdEYObrFz58JGlWVUfk40eNPQvqRj/12'',
     ''Mv0oVS+PTjdzZEAr3eBf7lsOhIHGCgn4DFJkK/1LbtWNQmRy5xcqi9UuwYXap826'',
     ''8fnXUH+CyMvGQeAwxhcrBLSWDTk1aE47z3q2sIbF5NliJ6pPuKZOgjR/Vt0Ydom9'',
     ''Yq43A/PS7tDOedBJ0oVxZbunCFE+kGyrw5WIjpUHQhlTKgsviaL2cRM6z9fNXm18'',
     ''8qvxAb3VN07Ph2BdfsCDXoU1gTyu6jE/FpmKGRlHr4YeILZ+iW5atzJncSMOQkw9'',
     ''oWCUsSF2Zkqjz8Al7edBcLr6gxmvIQGHhyu9RKDE4MJbN+TfY0t1aOPXV/3inpw5'',
     ''c26aq0o4Mhfp1SAKknJizlH5BNGECDr3YvF+b7QIT8ULOxdyjZ9mtPR/VguWXesw'',
     ''8+KzAhxBPjNrLYCQ25HlRmwIgqpOJDvofbZ1dsWEFXeSGntay4kc60MUTi3Vu97/'',
     ''k5+qA/LrBuXQGxCJ1KyD6aYREgNFPnMV40Hzm72IOswUS9eitocpl3TvfbjWZdh8'',
     ''UtwSq/r6eFyKpxAav+5HQkcNBRfMoJI8h3XnLmCDZsgPEbT12z0dulGWjiYOV479'']"

definition g_szCertifyString :: "string list" where
  "g_szCertifyString = [
     ''123456789012345678901234567890123456789012345678901234567890'',
     ''234567890123456789012345678901234567890123456789012345678901'',
     ''345678901234567890123456789012345678901234567890123456789012'',
     ''456789012345678901234567890123456789012345678901234567890123'',
     ''567890123456789012345678901234567890123456789012345678901234'',
     ''678901234567890123456789012345678901234567890123456789012345'',
     ''789012345678901234567890123456789012345678901234567890123456'',
     ''890123456789012345678901234567890123456789012345678901234567'',
     ''901234567890123456789012345678901234567890123456789012345678'',
     ''012345678901234567890123456789012345678901234567890123456789'']"

definition CertifyConvertTableInit :: "byte list list" where
  "CertifyConvertTableInit = map (\<lambda>idx. take 64 (chars (szConvertTable ! idx))) [0 ..< 10]"

record certify_data =
  nStringIndex :: nat
  nConvertTableID :: nat
  nLastSendTime :: int
  nCheckCount :: int
  nEncKey :: u32
  szString :: bytes

definition CCertifyData :: certify_data where
  "CCertifyData = \<lparr>nStringIndex = 0, nConvertTableID = 0, nLastSendTime = 0, nCheckCount = 0, nEncKey = 0,
     szString = replicate (MAX_CONVERT_BUFFER_LEN + 1) 0\<rparr>"

subsection \<open>Strings\<close>

text \<open>
  \<open>SetString(char*)\<close>: the argument is a C string given by its characters.  \<open>strncpy_s\<close> in \<open>SetString()\<close>
  copies the characters and a terminator; the bytes behind it stay (the debug library fills them, and
  nothing reads them).
\<close>

definition SetString_ptr :: "certify_data \<Rightarrow> bytes option \<Rightarrow> nat \<times> certify_data" where
  "SetString_ptr c p =
     (case p of
        None \<Rightarrow> (0, c)
      | Some s \<Rightarrow>
          if length s = 0 then (0, c)
          else let n = (if MAX_STRING_LEN < length s then MAX_STRING_LEN else length s)
               in (n, c\<lparr>szString := take n s @ drop n (szString c)\<rparr>))"

definition SetString :: "nat \<Rightarrow> certify_data \<Rightarrow> nat \<times> certify_data" where
  "SetString r c =
     (let nRand = r mod 10; str = chars (g_szCertifyString ! nRand)
      in (nRand, c\<lparr>szString := str @ [0] @ drop (length str + 1) (szString c), nStringIndex := nRand\<rparr>))"

subsection \<open>The alphabets\<close>

definition nth_opt :: "'a list \<Rightarrow> nat \<Rightarrow> 'a option" where
  "nth_opt xs i = (if i < length xs then Some (xs ! i) else None)"

text \<open>
  Three bytes as four numbers below 64.  The masks remove what sign extension to \<open>int\<close> would add, so the
  operations can be written on bytes.
\<close>

definition enc0 :: "byte \<Rightarrow> byte" where
  "enc0 a = drop_bit 2 (a AND 0xFC)"

definition enc1 :: "byte \<Rightarrow> byte \<Rightarrow> byte" where
  "enc1 a b = push_bit 4 (a AND 0x03) OR drop_bit 4 (b AND 0xF0)"

definition enc2 :: "byte \<Rightarrow> byte \<Rightarrow> byte" where
  "enc2 b c = push_bit 2 (b AND 0x0F) OR drop_bit 6 (c AND 0xC0)"

definition enc3 :: "byte \<Rightarrow> byte" where
  "enc3 c = c AND 0x3F"

fun convert_groups :: "byte list \<Rightarrow> bytes \<Rightarrow> bytes option" where
  "convert_groups t (a # b # c # rest) = do {
     w \<leftarrow> nth_opt t (unat (enc0 a));
     x \<leftarrow> nth_opt t (unat (enc1 a b));
     y \<leftarrow> nth_opt t (unat (enc2 b c));
     z \<leftarrow> nth_opt t (unat (enc3 c));
     zs \<leftarrow> convert_groups t rest;
     Some (w # x # y # z # zs) }"
| "convert_groups t _ = Some []"

definition Convert :: "byte list list \<Rightarrow> nat \<Rightarrow> certify_data \<Rightarrow> (nat \<times> certify_data) option" where
  "Convert tbl tid c = do {
     t \<leftarrow> nth_opt tbl tid;
     buf \<leftarrow> convert_groups t (take MAX_STRING_LEN (szString c));
     s \<leftarrow> mem_write (szString c) 0 (take MAX_CONVERT_BUFFER_LEN (buf @ replicate (81 - length buf) 0));
     Some (length buf, c\<lparr>szString := s, nConvertTableID := tid\<rparr>) }"

text \<open>
  The way back: a letter is replaced by its position in the alphabet; a byte that is no letter stays, and
  then takes part in the shifts sign-extended.
\<close>

fun letter_index :: "byte list \<Rightarrow> nat \<Rightarrow> byte \<Rightarrow> byte" where
  "letter_index [] k e = e"
| "letter_index (x # xs) k e = (if e \<noteq> x then letter_index xs (k + 1) e else of_nat k)"

definition promote :: "byte \<Rightarrow> u32" where
  "promote e = scast e"

fun recover_groups :: "byte list \<Rightarrow> bytes \<Rightarrow> bytes" where
  "recover_groups t (e0 # e1 # e2 # e3 # rest) =
     (let e0 = letter_index t 0 e0; e1 = letter_index t 0 e1; e2 = letter_index t 0 e2; e3 = letter_index t 0 e3
      in ucast (push_bit 2 (promote e0) OR signed_drop_bit 4 (promote e1)) #
         ucast (push_bit 4 (promote e1) OR signed_drop_bit 2 (promote e2)) #
         ucast (push_bit 6 (promote e2) OR promote e3) # recover_groups t rest)"
| "recover_groups t _ = []"

definition CertifyDataRecover :: "byte list list \<Rightarrow> nat \<Rightarrow> bytes \<Rightarrow> (nat \<times> bytes) option" where
  "CertifyDataRecover tbl tid szData = do {
     t \<leftarrow> nth_opt tbl tid;
     enc \<leftarrow> mem_read szData 0 MAX_CONVERT_BUFFER_LEN;
     _ \<leftarrow> nth_opt t 63;
     let dec = recover_groups t enc;
     s \<leftarrow> mem_write szData 0 (take MAX_CONVERT_BUFFER_LEN (dec @ replicate (81 - length dec) 0));
     Some (length dec, s) }"

definition Recover :: "byte list list \<Rightarrow> nat \<Rightarrow> certify_data \<Rightarrow> (nat \<times> certify_data) option" where
  "Recover tbl tid c = do {
     t \<leftarrow> nth_opt tbl tid;
     enc \<leftarrow> mem_read (szString c) 0 MAX_CONVERT_BUFFER_LEN;
     _ \<leftarrow> nth_opt t 63;
     let dec = recover_groups t enc;
     s \<leftarrow> mem_write (szString c) 0 (take MAX_CONVERT_BUFFER_LEN (dec @ replicate (81 - length dec) 0));
     Some (length dec, c\<lparr>szString := s\<rparr>) }"

subsection \<open>Encryption\<close>

text \<open>A loop \<open>for (offset = 0; offset < 80; offset += n)\<close> that reads a block, changes it and writes it back.\<close>

definition offsets :: "nat \<Rightarrow> nat list" where
  "offsets n = map (\<lambda>i. i * n) [0 ..< (MAX_CONVERT_BUFFER_LEN + n - 1) div n]"

fun block_loop :: "nat \<Rightarrow> (bytes \<Rightarrow> bytes) \<Rightarrow> nat list \<Rightarrow> bytes \<Rightarrow> bytes option" where
  "block_loop n f [] s = Some s"
| "block_loop n f (off # offs) s = do {
     b \<leftarrow> mem_read s off n;
     s \<leftarrow> mem_write s off (f b);
     block_loop n f offs s }"

definition Encrypt_INT32 :: "u32 \<Rightarrow> certify_data \<Rightarrow> certify_data option" where
  "Encrypt_INT32 key c = do {
     s \<leftarrow> block_loop 4 (\<lambda>b. le_bytes 4 ((le_word b :: u32) XOR key)) (offsets 4) (szString c);
     Some (c\<lparr>szString := s\<rparr>) }"

definition Encrypt_INT64 :: "u64 \<Rightarrow> certify_data \<Rightarrow> certify_data option" where
  "Encrypt_INT64 key c = do {
     s \<leftarrow> block_loop 8 (\<lambda>b. le_bytes 8 ((le_word b :: u64) XOR key)) (offsets 8) (szString c);
     Some (c\<lparr>szString := s\<rparr>) }"

text \<open>\<open>Encrypt(char*)\<close>: the key string is given by its characters.\<close>

definition Encrypt_string :: "bytes option \<Rightarrow> certify_data \<Rightarrow> certify_data option" where
  "Encrypt_string p c =
     (case p of
        None \<Rightarrow> Some c
      | Some key \<Rightarrow>
          let len = (if MAX_ENC_STRING_LEN < length key then MAX_ENC_STRING_LEN else length key)
          in if 0 \<ge> len then Some c
             else do {
               s \<leftarrow> block_loop len (\<lambda>b. map2 (XOR) b (take len key)) (offsets len) (szString c);
               Some (c\<lparr>szString := s\<rparr>) })"

subsection \<open>The challenge\<close>

definition CheckSendTime :: "int \<Rightarrow> int \<Rightarrow> certify_data \<Rightarrow> bool \<times> certify_data" where
  "CheckSendTime now nCheckTime c =
     (if 0 \<ge> nLastSendTime c then (False, c)
      else if nLastSendTime c + nCheckTime \<le> now then (True, c\<lparr>nLastSendTime := now\<rparr>)
      else (False, c))"

record rands =
  r_key_high :: nat
  r_key_low :: nat
  r_string :: nat
  r_table :: nat

definition MakeCertifyData :: "byte list list \<Rightarrow> rands \<Rightarrow> u32 \<Rightarrow> certify_data \<Rightarrow> (nat \<times> certify_data) option" where
  "MakeCertifyData tbl r key c = do {
     let key = (if key = 0
                then push_bit 16 (of_nat (r_key_high r mod 10000)) OR of_nat (r_key_low r mod 10000) else key);
     let (i, c) = SetString (r_string r) c;
     let c = c\<lparr>nEncKey := key\<rparr>;
     c \<leftarrow> Encrypt_INT32 key c;
     (n, c) \<leftarrow> Convert tbl (r_table r mod 10) c;
     let c = c\<lparr>nCheckCount := nCheckCount c + 1\<rparr>;
     Some (nConvertTableID c, c) }"

definition GetCertifyData :: "certify_data \<Rightarrow> nat \<times> bytes" where
  "GetCertifyData c = (nConvertTableID c, take MAX_CONVERT_BUFFER_LEN (szString c))"

definition CheckCertifyData :: "bytes \<Rightarrow> certify_data \<Rightarrow> (bool \<times> certify_data) option" where
  "CheckCertifyData szData c = do {
     d \<leftarrow> mem_read szData 0 MAX_CONVERT_BUFFER_LEN;
     s \<leftarrow> mem_write (szString c) 0 d;
     c \<leftarrow> Encrypt_INT32 (nEncKey c) (c\<lparr>szString := s\<rparr>);
     let str = chars (g_szCertifyString ! nStringIndex c);
     Some (if \<not> strncmp_equal (length str) (szString c) (str @ [0]) then (False, c)
           else (True, c\<lparr>nCheckCount := nCheckCount c - 1\<rparr>)) }"

subsection \<open>Alphabets are inverse to themselves\<close>

definition alphabet :: "byte list \<Rightarrow> bool" where
  "alphabet t \<longleftrightarrow> length t = 64 \<and> distinct t"

lemma szConvertTable_distinct: "list_all (\<lambda>s. length s = 64 \<and> distinct s) szConvertTable"
  unfolding szConvertTable_def by code_simp

lemma alphabets:
  assumes "i < 10"
  shows "nth_opt CertifyConvertTableInit i = Some (CertifyConvertTableInit ! i) \<and> alphabet (CertifyConvertTableInit ! i)"
proof -
  have l: "length szConvertTable = 10" by (simp add: szConvertTable_def)
  then have "length (szConvertTable ! i) = 64" "distinct (szConvertTable ! i)"
    using szConvertTable_distinct assms by (simp_all add: list_all_length)
  then show ?thesis
    using assms distinct_chars [of "szConvertTable ! i"]
    by (simp add: CertifyConvertTableInit_def alphabet_def nth_opt_def chars_def)
qed

lemma letter_index_nth:
  "distinct t \<Longrightarrow> i < length t \<Longrightarrow> letter_index t k (t ! i) = of_nat (k + i)"
proof (induction t arbitrary: i k)
  case (Cons x xs)
  then show ?case by (cases i) (auto simp: nth_mem)
qed simp

lemma byte_masks:
  "(0xFC :: byte) = push_bit 2 (mask 6)" "(0x03 :: byte) = mask 2" "(0xF0 :: byte) = push_bit 4 (mask 4)"
  "(0x0F :: byte) = mask 4" "(0xC0 :: byte) = push_bit 6 (mask 2)" "(0x3F :: byte) = mask 6"
  by (simp_all add: mask_eq_exp_minus_1)

lemmas enc_defs = enc0_def enc1_def enc2_def enc3_def byte_masks

lemma six_bits: "(\<And>n. bit w n \<Longrightarrow> n < 6) \<Longrightarrow> unat (w :: byte) < 64"
proof -
  assume small: "\<And>n. bit w n \<Longrightarrow> n < 6"
  have "take_bit 6 w = w" by (rule bit_word_eqI) (use small in \<open>auto simp: bit_simps\<close>)
  then have "take_bit 6 (unat w) = unat w" by (metis unsigned_take_bit_eq)
  then show ?thesis using take_bit_nat_less_exp [of 6 "unat w"] by simp
qed

lemma enc_bits:
  "bit (enc0 a) n \<Longrightarrow> n < 6" "bit (enc1 a b) n \<Longrightarrow> n < 6" "bit (enc2 b c) n \<Longrightarrow> n < 6" "bit (enc3 c) n \<Longrightarrow> n < 6"
  by (auto simp: enc_defs bit_simps)

lemma enc_small [simp]:
  "unat (enc0 a) < 64" "unat (enc1 a b) < 64" "unat (enc2 b c) < 64" "unat (enc3 c) < 64"
  by (rule six_bits, erule enc_bits)+

lemma promote_six: "(\<And>n. bit w n \<Longrightarrow> n < 6) \<Longrightarrow> promote w = ucast w"
  by (rule bit_word_eqI) (force simp: promote_def bit_simps min_def)

lemma promote_enc: "promote (enc0 a) = ucast (enc0 a)" "promote (enc1 a b) = ucast (enc1 a b)"
  "promote (enc2 b c) = ucast (enc2 b c)" "promote (enc3 c) = ucast (enc3 c)"
  by (rule promote_six, erule enc_bits)+

lemma below_8: "n < LENGTH(8) \<Longrightarrow> n = 0 \<or> n = 1 \<or> n = 2 \<or> n = 3 \<or> n = 4 \<or> n = 5 \<or> n = 6 \<or> n = 7"
  by auto

lemma group_back:
  "ucast (push_bit 2 (ucast (enc0 a) :: u32) OR signed_drop_bit 4 (ucast (enc1 a b) :: u32)) = a"
  "ucast (push_bit 4 (ucast (enc1 a b) :: u32) OR signed_drop_bit 2 (ucast (enc2 b c) :: u32)) = b"
  "ucast (push_bit 6 (ucast (enc2 b c) :: u32) OR (ucast (enc3 c) :: u32)) = c"
  by (rule bit_word_eqI, drule below_8, elim disjE; simp add: enc_defs bit_simps)+

text \<open>The alphabet round trip, for any number of whole groups.\<close>

lemma letter_back: "alphabet t \<Longrightarrow> unat w < 64 \<Longrightarrow> letter_index t 0 (t ! unat w) = w"
  by (simp add: alphabet_def letter_index_nth)

lemma recover_convert_groups:
  assumes "alphabet t"
  shows "length xs = 3 * m \<Longrightarrow>
    \<exists>ys. convert_groups t xs = Some ys \<and> length ys = 4 * m \<and> recover_groups t ys = xs"
proof (induction m arbitrary: xs)
  case (Suc m)
  then obtain a b c rest where xs: "xs = a # b # c # rest" "length rest = 3 * m"
    by (auto simp: length_Suc_conv numeral_eq_Suc)
  obtain ys where ys: "convert_groups t rest = Some ys" "length ys = 4 * m" "recover_groups t ys = rest"
    using Suc.IH [OF xs(2)] by blast
  have l: "length t = 64" using assms by (simp add: alphabet_def)
  show ?case
    by (simp add: xs(1) nth_opt_def l ys letter_back [OF assms] promote_enc group_back Let_def)
qed simp

lemma Convert_ok:
  assumes t: "nth_opt tbl i = Some t" "alphabet t" and s: "length (szString c) = 81"
  shows "\<exists>ys. Convert tbl i c = Some (80, c\<lparr>szString := ys @ drop 80 (szString c), nConvertTableID := i\<rparr>) \<and>
    length ys = 80 \<and> recover_groups t ys = take 60 (szString c)"
proof -
  obtain ys where "convert_groups t (take 60 (szString c)) = Some ys" "length ys = 80"
    "recover_groups t ys = take 60 (szString c)"
    using recover_convert_groups [OF t(2), of "take 60 (szString c)" 20] s by auto
  then show ?thesis
    using t(1) s
    by (intro exI [of _ ys]) (simp add: Convert_def MAX_STRING_LEN_def MAX_CONVERT_BUFFER_LEN_def mem_simps)
qed

lemma Recover_ok:
  assumes t: "nth_opt tbl i = Some t" "alphabet t" and ys: "length ys = 80" "length (recover_groups t ys) = 60"
  shows "CertifyDataRecover tbl i (ys @ rest) = Some (60, recover_groups t ys @ replicate 20 0 @ rest)"
    and "szString c = ys @ rest \<Longrightarrow>
      Recover tbl i c = Some (60, c\<lparr>szString := recover_groups t ys @ replicate 20 0 @ rest\<rparr>)"
proof -
  have z: "nth_opt t 63 = Some (t ! 63)" using t(2) by (simp add: nth_opt_def alphabet_def)
  show "CertifyDataRecover tbl i (ys @ rest) = Some (60, recover_groups t ys @ replicate 20 0 @ rest)"
    using t(1) ys z by (simp add: CertifyDataRecover_def MAX_CONVERT_BUFFER_LEN_def mem_simps Let_def)
  show "szString c = ys @ rest \<Longrightarrow>
      Recover tbl i c = Some (60, c\<lparr>szString := recover_groups t ys @ replicate 20 0 @ rest\<rparr>)"
    using t(1) ys z by (simp add: Recover_def MAX_CONVERT_BUFFER_LEN_def mem_simps Let_def)
qed

subsection \<open>Encryption is an involution\<close>

primrec blocks :: "nat \<Rightarrow> (bytes \<Rightarrow> bytes) \<Rightarrow> nat \<Rightarrow> bytes \<Rightarrow> bytes" where
  "blocks n f 0 s = s"
| "blocks n f (Suc m) s = f (take n s) @ blocks n f m (drop n s)"

lemma block_loop_shift:
  "block_loop n f (map (\<lambda>i. i + length p) offs) (p @ s) = map_option ((@) p) (block_loop n f offs s)"
proof (induction offs arbitrary: s)
  case (Cons off offs)
  have r: "mem_read (p @ s) (off + length p) n = mem_read s off n" by (simp add: mem_read_def)
  have w: "mem_write (p @ s) (off + length p) xs = map_option ((@) p) (mem_write s off xs)" for xs
    by (simp add: mem_write_def)
  show ?case
  proof (cases "mem_read s off n")
    case (Some b)
    then show ?thesis
      using Cons.IH by (cases "mem_write s off (f b)") (simp_all add: r w)
  qed (simp add: r)
qed simp

lemma block_loop_blocks:
  assumes "\<And>b. length b = n \<Longrightarrow> length (f b) = n"
  shows "m * n \<le> length s \<Longrightarrow> block_loop n f (map (\<lambda>i. i * n) [0 ..< m]) s = Some (blocks n f m s)"
proof (induction m arbitrary: s)
  case (Suc m)
  have offs: "map (\<lambda>i. i * n) [0 ..< Suc m] = 0 # map (\<lambda>i. i + n) (map (\<lambda>i. i * n) [0 ..< m])"
    by (simp add: upt_conv_Cons map_Suc_upt [symmetric] del: upt_Suc)
  have l: "length (f (take n s)) = n" using assms Suc.prems by simp
  have "m * n \<le> length (drop n s)" using Suc.prems by simp
  then have ih: "block_loop n f (map (\<lambda>i. i * n) [0 ..< m]) (drop n s) = Some (blocks n f m (drop n s))"
    by (rule Suc.IH)
  show ?case
    unfolding offs
    using block_loop_shift [of n f "f (take n s)" "map (\<lambda>i. i * n) [0 ..< m]" "drop n s"] ih l Suc.prems
    by (simp add: mem_simps)
qed simp

lemma block_loop_overrun:
  assumes "\<And>b. length b = n \<Longrightarrow> length (f b) = n"
  shows "length s < m * n \<Longrightarrow> block_loop n f (map (\<lambda>i. i * n) [0 ..< m]) s = None"
proof (induction m arbitrary: s)
  case (Suc m)
  have offs: "map (\<lambda>i. i * n) [0 ..< Suc m] = 0 # map (\<lambda>i. i + n) (map (\<lambda>i. i * n) [0 ..< m])"
    by (simp add: upt_conv_Cons map_Suc_upt [symmetric] del: upt_Suc)
  show ?case
  proof (cases "n \<le> length s")
    case True
    then have l: "length (f (take n s)) = n" using assms by simp
    have "length (drop n s) < m * n" using Suc.prems True by simp
    then show ?thesis
      unfolding offs
      using block_loop_shift [of n f "f (take n s)" "map (\<lambda>i. i * n) [0 ..< m]" "drop n s"] Suc.IH l True
      by (simp add: mem_simps)
  next
    case False
    then show ?thesis unfolding offs by (simp add: mem_simps)
  qed
qed simp

lemma blocks_length:
  "(\<And>b. length b = n \<Longrightarrow> length (f b) = n) \<Longrightarrow> m * n \<le> length s \<Longrightarrow> length (blocks n f m s) = length s"
  by (induction m arbitrary: s) simp_all

lemma blocks_involution:
  assumes "\<And>b. length b = n \<Longrightarrow> length (f b) = n \<and> f (f b) = b"
  shows "m * n \<le> length s \<Longrightarrow> blocks n f m (blocks n f m s) = s"
proof (induction m arbitrary: s)
  case (Suc m)
  have "length (f (take n s)) = n" "f (f (take n s)) = take n s" using assms Suc.prems by simp_all
  then show ?case using Suc by simp
qed simp

lemma blocks_take:
  assumes "\<And>b. length b = n \<Longrightarrow> length (f b) = n"
  shows "m * n \<le> length s \<Longrightarrow> k \<le> m \<Longrightarrow> take (k * n) (blocks n f m s) = blocks n f k (take (k * n) s)"
proof (induction m arbitrary: s k)
  case (Suc m)
  show ?case
  proof (cases k)
    case (Suc j)
    have "length (f (take n s)) = n" using assms Suc.prems by simp
    then show ?thesis
      using Suc.IH [of "drop n s" j] Suc.prems Suc by (simp add: drop_take min_def)
  qed simp
qed simp

text \<open>All three routines XOR the buffer with a key that repeats.\<close>

abbreviation xor_key :: "bytes \<Rightarrow> bytes \<Rightarrow> bytes" where
  "xor_key k b \<equiv> map2 (XOR) b k"

lemma xor_key_involution: "length b = length k \<Longrightarrow> length (xor_key k b) = length k \<and> xor_key k (xor_key k b) = b"
  by (intro conjI nth_equalityI) (simp_all add: xor.assoc)

lemma le_word_xor:
  fixes key :: "'a::len word"
  assumes "length b = n" and that: "8 * n = LENGTH('a)"
  shows "le_bytes n (le_word b XOR key) = xor_key (le_bytes n key) b"
proof (rule nth_equalityI)
  fix i assume "i < length (le_bytes n (le_word b XOR key))"
  then have i: "i < n" by simp
  have "le_bytes n (le_word b :: 'a word) ! i = b ! i"
    using le_bytes_le_word [of b, where 'a = 'a] assms by simp
  then show "le_bytes n (le_word b XOR key) ! i = xor_key (le_bytes n key) b ! i"
    using i assms by (simp add: nth_le_bytes drop_bit_xor unsigned_xor_eq)
qed (simp add: assms(1))

lemma block_loop_key:
  assumes "length k = n" and "\<And>b. length b = n \<Longrightarrow> f b = xor_key k b" and "m * n \<le> length s"
  shows "block_loop n f (map (\<lambda>i. i * n) [0 ..< m]) s = Some (blocks n (xor_key k) m s)"
proof -
  have "blocks n f j s = blocks n (xor_key k) j s" if "j * n \<le> length s" for j s
    using that by (induction j arbitrary: s) (simp_all add: assms(2))
  then show ?thesis
    using block_loop_blocks [of n f m s] assms by simp
qed

lemma Encrypt_INT32_eq:
  assumes "length (szString c) = 81"
  shows "Encrypt_INT32 key c = Some (c\<lparr>szString := blocks 4 (xor_key (le_bytes 4 key)) 20 (szString c)\<rparr>)"
proof -
  have "offsets 4 = map (\<lambda>i. i * 4) [0 ..< 20]" by (simp add: offsets_def MAX_CONVERT_BUFFER_LEN_def)
  then show ?thesis
    using block_loop_key [of "le_bytes 4 key" 4 "\<lambda>b. le_bytes 4 ((le_word b :: u32) XOR key)" 20 "szString c"] assms
    by (simp add: Encrypt_INT32_def le_word_xor)
qed

lemma Encrypt_INT64_eq:
  assumes "length (szString c) = 81"
  shows "Encrypt_INT64 key c = Some (c\<lparr>szString := blocks 8 (xor_key (le_bytes 8 key)) 10 (szString c)\<rparr>)"
proof -
  have "offsets 8 = map (\<lambda>i. i * 8) [0 ..< 10]" by (simp add: offsets_def MAX_CONVERT_BUFFER_LEN_def)
  then show ?thesis
    using block_loop_key [of "le_bytes 8 key" 8 "\<lambda>b. le_bytes 8 ((le_word b :: u64) XOR key)" 10 "szString c"] assms
    by (simp add: Encrypt_INT64_def le_word_xor)
qed

lemma Encrypt_string_eq:
  assumes "key \<noteq> []" and "L = min 10 (length key)" and "m = (79 + L) div L" and "length (szString c) = 81"
  shows "Encrypt_string (Some key) c =
    (if m * L \<le> 81 then Some (c\<lparr>szString := blocks L (xor_key (take L key)) m (szString c)\<rparr>) else None)"
proof -
  have L: "(if MAX_ENC_STRING_LEN < length key then MAX_ENC_STRING_LEN else length key) = L" "0 < L"
    "length (take L key) = L"
    using assms(1,2) by (auto simp: MAX_ENC_STRING_LEN_def)
  have o: "offsets L = map (\<lambda>i. i * L) [0 ..< m]"
    using L(2) by (simp add: offsets_def MAX_CONVERT_BUFFER_LEN_def assms(3) algebra_simps)
  show ?thesis
  proof (cases "m * L \<le> 81")
    case True
    then show ?thesis
      using block_loop_key [of "take L key" L "\<lambda>b. xor_key (take L key) b" m "szString c"] L assms(4) o
      by (simp add: Encrypt_string_def Let_def)
  next
    case False
    then show ?thesis
      using block_loop_overrun [of L "\<lambda>b. xor_key (take L key) b" "szString c" m] L assms(4) o
      by (simp add: Encrypt_string_def Let_def)
  qed
qed

subsection \<open>Comparing\<close>

lemma certify_strings:
  assumes "i < 10"
  shows "length (chars (g_szCertifyString ! i)) = 60" "0 \<notin> set (chars (g_szCertifyString ! i))"
proof -
  have "list_all (\<lambda>s. length s = 60 \<and> list_all (\<lambda>c. of_char c \<noteq> (0 :: nat)) s) g_szCertifyString"
    unfolding g_szCertifyString_def by code_simp
  moreover have "length g_szCertifyString = 10" by (simp add: g_szCertifyString_def)
  ultimately have s: "length (g_szCertifyString ! i) = 60"
    "list_all (\<lambda>c. of_char c \<noteq> (0 :: nat)) (g_szCertifyString ! i)"
    using assms by (simp_all add: list_all_length)
  show "length (chars (g_szCertifyString ! i)) = 60" using s by (simp add: chars_def)
  have "(of_nat (of_char c) :: byte) \<noteq> 0" if "of_char c \<noteq> (0 :: nat)" for c
  proof -
    have "(of_char c :: nat) < 256" by simp
    then have "unat (of_nat (of_char c) :: byte) = of_char c" by (simp add: unat_of_nat)
    then show ?thesis using that by auto
  qed
  then show "0 \<notin> set (chars (g_szCertifyString ! i))" using s(2) by (auto simp: chars_def list_all_iff)
qed

abbreviation key32 :: "u32 \<Rightarrow> nat \<Rightarrow> bytes \<Rightarrow> bytes" where
  "key32 key m s \<equiv> blocks 4 (xor_key (le_bytes 4 key)) m s"

lemma key32_twice: "m * 4 \<le> length s \<Longrightarrow> key32 key m (key32 key m s) = s"
  by (rule blocks_involution) (simp_all add: xor_key_involution)

lemma key32_take: "80 \<le> length s \<Longrightarrow> take 60 (key32 key 20 s) = key32 key 15 (take 60 s)"
  using blocks_take [of 4 "xor_key (le_bytes 4 key)" 20 s 15] by simp

lemma key32_length: "m * 4 \<le> length s \<Longrightarrow> length (key32 key m s) = length s"
  by (rule blocks_length) simp_all

lemma key32_zero: "m * 4 \<le> length s \<Longrightarrow> key32 0 m s = s"
proof (induction m arbitrary: s)
  case (Suc m)
  have "xor_key (le_bytes 4 (0 :: u32)) b = b" if "length b = 4" for b
    using that by (intro nth_equalityI) (simp_all add: nth_le_bytes)
  then show ?case using Suc by simp
qed simp

lemma CheckCertifyData_eq:
  assumes "length d = 80" and "length (szString c) = 81" and "nStringIndex c < 10"
  shows "\<exists>c'. CheckCertifyData d c =
      Some (take 60 d = key32 (nEncKey c) 15 (chars (g_szCertifyString ! nStringIndex c)), c') \<and>
    nCheckCount c' = nCheckCount c -
      (if take 60 d = key32 (nEncKey c) 15 (chars (g_szCertifyString ! nStringIndex c)) then 1 else 0)"
proof -
  let ?str = "chars (g_szCertifyString ! nStringIndex c)" and ?s = "d @ drop 80 (szString c)"
  note str = certify_strings [OF assms(3)]
  have len: "length ?s = 81" using assms by simp
  have e: "Encrypt_INT32 (nEncKey c) (c\<lparr>szString := ?s\<rparr>) = Some (c\<lparr>szString := key32 (nEncKey c) 20 ?s\<rparr>)"
    using Encrypt_INT32_eq [of "c\<lparr>szString := ?s\<rparr>" "nEncKey c"] len by simp
  have "take 60 (key32 (nEncKey c) 20 ?s) = key32 (nEncKey c) 15 (take 60 d)"
    using key32_take [of ?s "nEncKey c"] assms(1) len by simp
  moreover have "key32 (nEncKey c) 15 (take 60 d) = ?str \<longleftrightarrow> take 60 d = key32 (nEncKey c) 15 ?str"
    using key32_twice [of 15 ?str "nEncKey c"] key32_twice [of 15 "take 60 d" "nEncKey c"] str(1) assms(1) by auto
  ultimately have "strncmp_equal (length ?str) (key32 (nEncKey c) 20 ?s) (?str @ [0]) \<longleftrightarrow>
      take 60 d = key32 (nEncKey c) 15 ?str"
    using strncmp_equal_take [OF str(2) refl, of "key32 (nEncKey c) 20 ?s" "[0]"] str(1) by simp
  then show ?thesis
    using e assms by (simp add: CheckCertifyData_def MAX_CONVERT_BUFFER_LEN_def mem_simps Let_def)
qed

lemma MakeCertifyData_ok:
  assumes "length (szString c) = 81"
  shows "\<exists>c1 ys t. MakeCertifyData CertifyConvertTableInit r key c = Some (r_table r mod 10, c1) \<and>
    nth_opt CertifyConvertTableInit (r_table r mod 10) = Some t \<and> alphabet t \<and>
    nConvertTableID c1 = r_table r mod 10 \<and> nStringIndex c1 = r_string r mod 10 \<and> nCheckCount c1 = nCheckCount c + 1 \<and>
    length (szString c1) = 81 \<and> length ys = 80 \<and> take 80 (szString c1) = ys \<and>
    recover_groups t ys = key32 (nEncKey c1) 15 (chars (g_szCertifyString ! (r_string r mod 10)))"
proof -
  define k where "k = (if key = 0
    then push_bit 16 (of_nat (r_key_high r mod 10000)) OR of_nat (r_key_low r mod 10000) else key)"
  define i where "i = r_table r mod 10"
  let ?str = "chars (g_szCertifyString ! (r_string r mod 10))"
  have str: "length ?str = 60" using certify_strings(1) [of "r_string r mod 10"] by simp
  define s where "s = ?str @ [0] @ drop 61 (szString c)"
  define c0 where "c0 = c\<lparr>szString := s, nStringIndex := r_string r mod 10, nEncKey := k\<rparr>"
  have s: "length s = 81" "take 60 s = ?str" using str assms by (simp_all add: s_def)
  have e: "Encrypt_INT32 k c0 = Some (c0\<lparr>szString := key32 k 20 s\<rparr>)"
    using Encrypt_INT32_eq [of c0 k] s(1) by (simp add: c0_def)
  have len: "length (szString (c0\<lparr>szString := key32 k 20 s\<rparr>)) = 81" using s(1) by (simp add: key32_length)
  obtain t where t: "nth_opt CertifyConvertTableInit i = Some t" "alphabet t"
    using alphabets [of i] by (auto simp: i_def)
  obtain ys where ys: "Convert CertifyConvertTableInit i (c0\<lparr>szString := key32 k 20 s\<rparr>) =
      Some (80, (c0\<lparr>szString := key32 k 20 s\<rparr>)\<lparr>szString := ys @ drop 80 (key32 k 20 s), nConvertTableID := i\<rparr>)"
    "length ys = 80" "recover_groups t ys = take 60 (key32 k 20 s)"
    using Convert_ok [OF t len] by auto
  have "recover_groups t ys = key32 k 15 ?str" using ys(3) key32_take [of s k] s by simp
  moreover have "MakeCertifyData CertifyConvertTableInit r key c =
      Some (i, c0\<lparr>szString := ys @ drop 80 (key32 k 20 s), nConvertTableID := i, nCheckCount := nCheckCount c + 1\<rparr>)"
    using e ys(1) str unfolding MakeCertifyData_def SetString_def k_def [symmetric] i_def [symmetric]
    by (simp add: Let_def c0_def s_def)
  ultimately show ?thesis
    using t ys(2) s(1) by (intro exI) (auto simp: c0_def i_def key32_length)
qed

subsection \<open>Properties\<close>

text \<open>
  C23: The challenge can be answered.  Whatever string, key and alphabet are drawn, the data a server makes
  and sends is translated back by \<open>CertifyDataRecover\<close> with the table that was announced into an answer
  that the server accepts, and the count of open challenges is as before.
\<close>

theorem certify_answer_accepted:
  assumes "length (szString c) = 81"
  shows "\<exists>tid c1 ans c2. MakeCertifyData CertifyConvertTableInit r key c = Some (tid, c1) \<and>
    CertifyDataRecover CertifyConvertTableInit (fst (GetCertifyData c1)) (snd (GetCertifyData c1)) = Some (60, ans) \<and>
    CheckCertifyData ans c1 = Some (True, c2) \<and> nCheckCount c2 = nCheckCount c"
proof -
  obtain c1 ys t where c1: "MakeCertifyData CertifyConvertTableInit r key c = Some (r_table r mod 10, c1)"
    "nth_opt CertifyConvertTableInit (r_table r mod 10) = Some t" "alphabet t"
    "nConvertTableID c1 = r_table r mod 10" "nStringIndex c1 = r_string r mod 10" "nCheckCount c1 = nCheckCount c + 1"
    "length (szString c1) = 81" "length ys = 80" "take 80 (szString c1) = ys"
    "recover_groups t ys = key32 (nEncKey c1) 15 (chars (g_szCertifyString ! (r_string r mod 10)))"
    using MakeCertifyData_ok [OF assms, of r key] by blast
  let ?w = "recover_groups t ys"
  have w: "length ?w = 60" using c1(10) certify_strings(1) [of "r_string r mod 10"] by (simp add: key32_length)
  have rec: "CertifyDataRecover CertifyConvertTableInit (r_table r mod 10) ys = Some (60, ?w @ replicate 20 0)"
    using Recover_ok(1) [OF c1(2,3,8) w, of "[]"] by simp
  have six: "take 60 (?w @ replicate 20 0) = ?w" using w by simp
  obtain c2 where "CheckCertifyData (?w @ replicate 20 0) c1 = Some (True, c2)" "nCheckCount c2 = nCheckCount c1 - 1"
    using CheckCertifyData_eq [of "?w @ replicate 20 0" c1] c1(5,7) w unfolding six c1(10) by auto
  then show ?thesis
    using c1(1,4,6,9) rec by (auto simp: GetCertifyData_def MAX_CONVERT_BUFFER_LEN_def)
qed

theorem certify_answer_accepted_witness:
  "\<exists>tid c1 ans c2. MakeCertifyData CertifyConvertTableInit \<lparr>r_key_high = 5, r_key_low = 6, r_string = 3, r_table = 7\<rparr> 0
      CCertifyData = Some (tid, c1) \<and>
    CertifyDataRecover CertifyConvertTableInit (fst (GetCertifyData c1)) (snd (GetCertifyData c1)) = Some (60, ans) \<and>
    CheckCertifyData ans c1 = Some (True, c2) \<and> nCheckCount c2 = 0"
  using certify_answer_accepted [of CCertifyData "\<lparr>r_key_high = 5, r_key_low = 6, r_string = 3, r_table = 7\<rparr>" 0]
  by (simp add: CCertifyData_def MAX_CONVERT_BUFFER_LEN_def)

text \<open>
  Only the right answer is accepted.  An answer of 80 bytes passes exactly when its first 60 bytes are
  the challenge string under the key; a wrong answer leaves the count of open challenges.
\<close>

theorem certify_answer_unique:
  assumes "length d = 80" and "length (szString c) = 81" and "nStringIndex c < 10"
  shows "\<exists>ok c'. CheckCertifyData d c = Some (ok, c') \<and>
    (ok \<longleftrightarrow> take 60 d = key32 (nEncKey c) 15 (chars (g_szCertifyString ! nStringIndex c))) \<and>
    nCheckCount c' = nCheckCount c - (if ok then 1 else 0)"
  using CheckCertifyData_eq [OF assms] by auto

theorem certify_answer_unique_witness:
  "\<exists>c'. CheckCertifyData (replicate 80 0) CCertifyData = Some (False, c') \<and> nCheckCount c' = 0"
proof -
  have "length (szString CCertifyData) = 81" "nStringIndex CCertifyData < 10" "nEncKey CCertifyData = 0"
    "nCheckCount CCertifyData = 0" "nStringIndex CCertifyData = 0"
    by (simp_all add: CCertifyData_def MAX_CONVERT_BUFFER_LEN_def)
  moreover have "take 60 (replicate 80 0) \<noteq> key32 0 15 (chars (g_szCertifyString ! 0))"
  proof -
    have str: "length (chars (g_szCertifyString ! 0)) = 60" "0 \<notin> set (chars (g_szCertifyString ! 0))"
      using certify_strings [of 0] by simp_all
    have "0 \<in> set (take 60 (replicate 80 (0 :: byte)))" by simp
    moreover have "key32 0 15 (chars (g_szCertifyString ! 0)) = chars (g_szCertifyString ! 0)"
      using key32_zero [of 15 "chars (g_szCertifyString ! 0)"] str(1) by simp
    ultimately show ?thesis using str(2) by metis
  qed
  ultimately show ?thesis
    using certify_answer_unique [of "replicate 80 0" CCertifyData] by auto
qed

text \<open>
  Encrypting twice with the same key restores the buffer, for a 32-bit key, a 64-bit key and a key
  string; but a key string of 6 or 7 characters runs past the end of the buffer, because neither length
  fits the 81 bytes a whole number of times.
\<close>

theorem encrypt_involution:
  assumes "length (szString c) = 81" and "key \<noteq> []"
  shows "(Encrypt_INT32 k c \<bind> Encrypt_INT32 k) = Some c \<and> (Encrypt_INT64 k' c \<bind> Encrypt_INT64 k') = Some c \<and>
    (Encrypt_string (Some key) c \<bind> Encrypt_string (Some key)) =
      (if length key = 6 \<or> length key = 7 then None else Some c)"
proof -
  have r: "c\<lparr>szString := szString c\<rparr> = c" by simp
  define L where "L = min 10 (length key)"
  define m where "m = (79 + L) div L"
  have L: "L \<in> {1, 2, 3, 4, 5, 6, 7, 8, 9, 10}" "L = 6 \<longleftrightarrow> length key = 6" "L = 7 \<longleftrightarrow> length key = 7"
    "length (take L key) = L"
    using assms(2) by (auto simp: L_def min_def Suc_le_eq numeral_eq_Suc not_less_eq_eq length_greater_0_conv [symmetric] le_Suc_eq
        simp del: length_greater_0_conv)
  have mL: "m * L \<le> 81 \<longleftrightarrow> L \<noteq> 6 \<and> L \<noteq> 7" using L(1) by (auto simp: m_def)
  have three: "blocks n (xor_key k) j (blocks n (xor_key k) j (szString c)) = szString c"
    "length (blocks n (xor_key k) j (szString c)) = 81" if "length k = n" "j * n \<le> 81" for n k j
    using blocks_involution [of n "xor_key k" j "szString c"] blocks_length [of n "xor_key k" j "szString c"]
      that assms(1) xor_key_involution [of _ k] by simp_all
  have "(Encrypt_INT32 k c \<bind> Encrypt_INT32 k) = Some c"
    using assms(1) three [of "le_bytes 4 k" 4 20] by (simp add: Encrypt_INT32_eq)
  moreover have "(Encrypt_INT64 k' c \<bind> Encrypt_INT64 k') = Some c"
    using assms(1) three [of "le_bytes 8 k'" 8 10] by (simp add: Encrypt_INT64_eq)
  moreover have "(Encrypt_string (Some key) c \<bind> Encrypt_string (Some key)) =
      (if length key = 6 \<or> length key = 7 then None else Some c)"
    using assms three [of "take L key" L m] L mL
    by (simp add: Encrypt_string_eq [OF assms(2) L_def m_def])
  ultimately show ?thesis by blast
qed

theorem encrypt_involution_witness:
  "(Encrypt_string (Some [1, 2, 3]) CCertifyData \<bind> Encrypt_string (Some [1, 2, 3])) = Some CCertifyData \<and>
   (Encrypt_string (Some [1, 2, 3, 4, 5, 6]) CCertifyData \<bind> Encrypt_string (Some [1, 2, 3, 4, 5, 6])) = None"
  using encrypt_involution [of CCertifyData "[1, 2, 3]"] encrypt_involution [of CCertifyData "[1, 2, 3, 4, 5, 6]"]
  by (simp add: CCertifyData_def MAX_CONVERT_BUFFER_LEN_def)

end
