(* ===== verification/Json_Simple.thy ===== *)
theory Json_Simple
  imports Tokenizer "HOL-Library.While_Combinator"
begin

text \<open>
  \<^verbatim>\<open>_lib/_json.h\<close> and \<^verbatim>\<open>_json.cpp\<close>: \<open>json_parser_simple\<close>, which splits a text at braces and commas into nodes
  with a key and a value.  Nodes live in a list indexed by the order of their creation; index 0 is
  \<open>node_first\<close>, the others are the entries of \<open>node_list\<close>.  A position is \<open>None\<close> for \<open>npos\<close>, which is larger
  than every other position.  \<open>None\<close> as a result stands for undefined behaviour: a call through a null
  \<open>pCurrent\<close>, or \<open>tolower\<close> of a negative character other than \<open>EOF\<close>.
\<close>

subsection \<open>node\<close>

record jnode =
  dept :: int
  key :: string
  "value" :: string
  pParent :: "nat option"
  children :: "nat list"

definition node :: jnode where
  "node = \<lparr>dept = 0, key = '''', value = '''', pParent = None, children = []\<rparr>"

definition json_char :: "char \<Rightarrow> char option" where
  "json_char c =
     (let n = (of_char c :: nat)
      in if n = 34 then Some CHR '' '' else if 128 \<le> n \<and> n < 255 then None
         else Some (if 65 \<le> n \<and> n \<le> 90 then char_of (n + 32) else c))"

fun rscan :: "(nat \<Rightarrow> bool) \<Rightarrow> nat \<Rightarrow> nat option" where
  "rscan P 0 = None"
| "rscan P (Suc n) = (if P n then Some n else rscan P n)"

definition find_last_not_of :: "'a list \<Rightarrow> 'a list \<Rightarrow> nat option \<Rightarrow> nat option" where
  "find_last_not_of str chs pos =
     rscan (\<lambda>i. str ! i \<notin> set chs) (case pos of None \<Rightarrow> length str | Some p \<Rightarrow> min (Suc p) (length str))"

text \<open>\<open>substr(s, e - s + 1)\<close>; both positions are those of characters that are no blanks, so \<open>s\<close> is not behind \<open>e\<close>.\<close>

definition node_set :: "string \<Rightarrow> int \<Rightarrow> jnode \<Rightarrow> jnode option" where
  "node_set s d n = do {
     let n = n\<lparr>dept := d\<rparr>;
     str \<leftarrow> those (map json_char s);
     let key_s = find_first_not_of str '' '' (Some 0);
     let key_e = find_first_of str '':'' key_s;
     let val_s = find_first_not_of str '':'' key_e;
     let val_e = find_last_not_of str '' '' None;
     let key_e = find_last_not_of str '':'' key_e;
     let key_e = find_last_not_of str '' '' key_e;
     (case (key_s, key_e) of
        (Some ks, Some ke) \<Rightarrow>
          let n = n\<lparr>key := substr str ks (Some (ke + 1))\<rparr>
          in (case (find_first_not_of str '' '' val_s, val_e) of
                (Some vs, Some ve) \<Rightarrow> Some (n\<lparr>value := substr str vs (Some (ve + 1))\<rparr>)
              | _ \<Rightarrow> Some n)
      | _ \<Rightarrow> Some n) }"

definition checkKey :: "jnode \<Rightarrow> string \<Rightarrow> bool" where
  "checkKey n k = (key n = k)"

fun find_child :: "jnode list \<Rightarrow> nat list \<Rightarrow> string \<Rightarrow> nat option" where
  "find_child nodes [] findkey = None"
| "find_child nodes (p # ps) findkey = (if checkKey (nodes ! p) findkey then Some p else find_child nodes ps findkey)"

definition node_find :: "jnode list \<Rightarrow> nat \<Rightarrow> string \<Rightarrow> nat option" where
  "node_find nodes this findkey =
     (if 0 \<ge> length findkey then None
      else if 0 \<ge> length (children (nodes ! this)) then None
      else find_child nodes (children (nodes ! this)) findkey)"

subsection \<open>json_parser_simple\<close>

definition pos_less :: "nat option \<Rightarrow> nat option \<Rightarrow> bool" where
  "pos_less a b = (case (a, b) of (None, _) \<Rightarrow> False | (Some i, None) \<Rightarrow> True | (Some i, Some j) \<Rightarrow> i < j)"

definition next_pos :: "nat option \<Rightarrow> nat option" where
  "next_pos p = map_option Suc p"

text \<open>The loop that counts the separators; \<open>json_data.find_first_of(delimiter_key, pos + 1)\<close>.\<close>

function count_nodes :: "string \<Rightarrow> nat \<Rightarrow> nat \<Rightarrow> nat" where
  "count_nodes s pos n =
     (case find_first_of s '':'' (Some (pos + 1)) of None \<Rightarrow> n + 1 | Some p \<Rightarrow> count_nodes s p (n + 1))"
  by pat_completeness auto

termination
proof (relation "measure (\<lambda>(s, pos, n). length s - pos)", goal_cases)
  case (2 s pos n p)
  then show ?case
    using scan_from_Some [of "\<lambda>c. c \<in> set '':''" "drop (pos + 1) s" "pos + 1" p] by (auto simp: find_first_of_def)
qed simp

declare count_nodes.simps [simp del]

record jparse =
  j_nodes :: "jnode list"
  j_dept :: int
  j_cur :: "nat option"
  j_pos :: "nat option"
  j_end :: "nat option"
  j_start :: "nat option"
  j_close :: "nat option"

text \<open>\<open>new node\<close>, \<open>set\<close>, \<open>node_list.push_back\<close> and \<open>pCurrent->addChild\<close>.\<close>

definition add_node :: "string \<Rightarrow> jparse \<Rightarrow> (nat \<times> jparse) option" where
  "add_node s st = do {
     n \<leftarrow> node_set s (j_dept st) node;
     cur \<leftarrow> j_cur st;
     let p = length (j_nodes st);
     let nodes = j_nodes st @ [n\<lparr>pParent := Some cur\<rparr>];
     Some (p, st\<lparr>j_nodes := nodes[cur := (nodes ! cur)\<lparr>children := children (nodes ! cur) @ [p]\<rparr>]\<rparr>) }"

text \<open>Leaving families: one level for each closing brace before the next comma.\<close>

function close_families :: "string \<Rightarrow> nat option \<Rightarrow> jparse \<Rightarrow> jparse option" where
  "close_families s node_end st =
     (if 1 \<le> j_dept st \<and> pos_less (j_close st) node_end
      then do {
        cur \<leftarrow> j_cur st;
        close_families s node_end
          (st\<lparr>j_dept := j_dept st - 1, j_cur := pParent (j_nodes st ! cur),
              j_close := find_first_of s ''}'' (next_pos (j_close st))\<rparr>) }
      else Some st)"
  by pat_completeness auto

termination
  by (relation "measure (\<lambda>(s, e, st). nat (j_dept st))") auto

declare close_families.simps [simp del]

definition seek :: "string \<Rightarrow> nat option \<Rightarrow> jparse \<Rightarrow> jparse" where
  "seek s pos st = st\<lparr>j_pos := pos, j_end := find_first_of s '','' pos, j_start := find_first_of s ''{'' pos,
     j_close := find_first_of s ''}'' pos\<rparr>"

definition parse_step :: "string \<Rightarrow> jparse \<Rightarrow> jparse option" where
  "parse_step s st = do {
     pos \<leftarrow> j_pos st;
     if pos_less (j_start st) (j_end st) then do {
       (p, st) \<leftarrow> add_node (substr s pos (j_start st)) st;
       Some (seek s (find_first_not_of s ''{'' (j_start st)) (st\<lparr>j_dept := j_dept st + 1, j_cur := Some p\<rparr>)) }
     else if pos_less (j_close st) (j_end st) then do {
       (p, st) \<leftarrow> add_node (substr s pos (j_close st)) st;
       st \<leftarrow> close_families s (find_first_of s '','' (j_close st)) st;
       Some (seek s (find_first_not_of s '','' (find_first_of s '','' (Some pos))) st) }
     else do {
       (p, st) \<leftarrow> add_node (substr s pos (j_end st)) st;
       let pos = find_first_not_of s '','' (j_end st);
       Some (st\<lparr>j_pos := pos, j_end := find_first_of s '','' pos\<rparr>) } }"

definition parse_running :: "jparse option \<Rightarrow> bool" where
  "parse_running st = (case st of None \<Rightarrow> False | Some st \<Rightarrow> 0 \<le> j_dept st \<and> j_pos st \<noteq> None)"

definition parse_begin :: "string \<Rightarrow> jnode list \<Rightarrow> jparse" where
  "parse_begin s nodes =
     (let pos = find_first_not_of s ''{'' (Some 0)
      in \<lparr>j_nodes = nodes, j_dept = 1, j_cur = Some 0, j_pos = pos, j_end = find_first_of s '','' pos,
          j_start = find_first_of s ''{'' pos, j_close = None\<rparr>)"

text \<open>The outer \<open>None\<close> would be a loop that does not end; the inner one is undefined behaviour.\<close>

definition parse_loop :: "string \<Rightarrow> jparse option \<Rightarrow> jparse option option" where
  "parse_loop s = while_option parse_running (\<lambda>st. Option.bind st (parse_step s))"

definition parse :: "string \<Rightarrow> jnode list \<Rightarrow> (nat \<times> jnode list) option option" where
  "parse s nodes =
     map_option (map_option (\<lambda>st. (length (j_nodes st) - 1, j_nodes st))) (parse_loop s (Some (parse_begin s nodes)))"

subsection \<open>The loop ends\<close>

text \<open>What the loop keeps: the next comma is the one after the position, the next opening brace is not before it.\<close>

definition ahead :: "string \<Rightarrow> jparse \<Rightarrow> bool" where
  "ahead s st \<longleftrightarrow> j_end st = find_first_of s '','' (j_pos st) \<and>
     (\<forall>p f. j_pos st = Some p \<longrightarrow> j_start st = Some f \<longrightarrow> p \<le> f \<and> f < length s \<and> s ! f = CHR ''{'')"

lemma first_of_Some:
  "find_first_of s ds (Some p) = Some q \<Longrightarrow> p \<le> q \<and> q < length s \<and> s ! q \<in> set ds \<and> (\<forall>i. p \<le> i \<and> i < q \<longrightarrow> s ! i \<notin> set ds)"
  using scan_from_Some [of "\<lambda>c. c \<in> set ds" "drop p s" p q]
  by (auto simp: find_first_of_def) (metis add_diff_inverse_nat diff_less_mono leD nth_drop less_imp_le order.trans)

lemma first_not_of_Some:
  "find_first_not_of s ds (Some p) = Some q \<Longrightarrow> p \<le> q \<and> q < length s \<and> s ! q \<notin> set ds \<and> (\<forall>i. p \<le> i \<and> i < q \<longrightarrow> s ! i \<in> set ds)"
  using scan_from_Some [of "\<lambda>c. c \<notin> set ds" "drop p s" p q]
  by (auto simp: find_first_not_of_def) (metis add_diff_inverse_nat diff_less_mono leD nth_drop less_imp_le order.trans)

lemma find_npos [simp]: "find_first_of s ds None = None" "find_first_not_of s ds None = None"
  by (simp_all add: find_first_of_def find_first_not_of_def)

lemma seek_ahead: "ahead s (seek s pos st)"
  using first_of_Some [of s "''{''"] by (auto simp: ahead_def seek_def)

text \<open>Behind a comma the position is further on.\<close>

lemma behind_comma:
  assumes "find_first_not_of s '','' (find_first_of s '','' (Some p)) = Some q"
  shows "p < q \<and> q < length s"
proof -
  obtain c where c: "find_first_of s '','' (Some p) = Some c"
    using assms by (cases "find_first_of s '','' (Some p)") auto
  then have "p \<le> c" "s ! c = CHR '',''" using first_of_Some [OF c] by auto
  moreover have "c \<le> q" "q < length s" "s ! q \<noteq> CHR '',''"
    using first_not_of_Some [of s "'',''" c q] assms c by auto
  ultimately show ?thesis by (metis le_neq_implies_less le_less_trans)
qed

lemma add_node_keeps:
  "add_node x st = Some (p, st') \<Longrightarrow> j_pos st' = j_pos st \<and> j_end st' = j_end st \<and> j_start st' = j_start st \<and>
     j_close st' = j_close st \<and> j_dept st' = j_dept st"
  by (auto simp: add_node_def Let_def Option.bind_eq_Some_conv)

lemma parse_step_progress:
  assumes a: "ahead s st" and p: "j_pos st = Some p" and st: "parse_step s st = Some st'"
  shows "ahead s st' \<and> (\<forall>q. j_pos st' = Some q \<longrightarrow> p < q \<and> q < length s)"
proof -
  consider (family) f where "j_start st = Some f" "pos_less (j_start st) (j_end st)"
    | (last) "\<not> pos_less (j_start st) (j_end st)" "pos_less (j_close st) (j_end st)"
    | (plain) "\<not> pos_less (j_start st) (j_end st)" "\<not> pos_less (j_close st) (j_end st)"
    by (cases "j_start st") (auto simp: pos_less_def)
  then show ?thesis
  proof cases
    case family
    have f: "p \<le> f" "s ! f = CHR ''{''" using a p family(1) by (auto simp: ahead_def)
    obtain pc st1 where "add_node (substr s p (j_start st)) st = Some (pc, st1)"
      "st' = seek s (find_first_not_of s ''{'' (j_start st1)) (st1\<lparr>j_dept := j_dept st1 + 1, j_cur := Some pc\<rparr>)"
      using st p family(2) by (auto simp: parse_step_def Option.bind_eq_Some_conv)
    moreover have "p < q \<and> q < length s" if "find_first_not_of s ''{'' (Some f) = Some q" for q
    proof -
      have "f \<le> q" "q < length s" "s ! q \<noteq> CHR ''{''" using first_not_of_Some [OF that] by auto
      moreover have "q \<noteq> f" using calculation(3) f(2) by auto
      ultimately show ?thesis using f(1) by linarith
    qed
    moreover have "j_start st1 = Some f"
      if "add_node (substr s p (j_start st)) st = Some (pc, st1)" using add_node_keeps [OF that] family(1) by simp
    moreover have "j_pos (seek s q x) = q" for q x by (simp add: seek_def)
    ultimately show ?thesis using seek_ahead by metis
  next
    case last
    obtain st1 where "st' = seek s (find_first_not_of s '','' (find_first_of s '','' (Some p))) st1"
      using st p last by (auto simp: parse_step_def Option.bind_eq_Some_conv)
    then show ?thesis using seek_ahead behind_comma [of s p] by (auto simp: seek_def)
  next
    case plain
    obtain pc st1 where st1: "add_node (substr s p (j_end st)) st = Some (pc, st1)"
      "st' = st1\<lparr>j_pos := find_first_not_of s '','' (j_end st1), j_end := find_first_of s '','' (find_first_not_of s '','' (j_end st1))\<rparr>"
      using st p plain by (auto simp: parse_step_def Let_def Option.bind_eq_Some_conv)
    have e: "j_end st1 = find_first_of s '','' (Some p)" "j_start st1 = j_start st" "j_end st1 = j_end st"
      using add_node_keeps [OF st1(1)] a p by (auto simp: ahead_def)
    have "q \<le> f \<and> f < length s \<and> s ! f = CHR ''{''" if q: "find_first_not_of s '','' (j_end st1) = Some q" and f: "j_start st = Some f" for q f
    proof -
      have f': "p \<le> f" "f < length s" "s ! f = CHR ''{''" using a p f by (auto simp: ahead_def)
      obtain n where n: "j_end st1 = Some n" using q by (cases "j_end st1") auto
      then have "n \<le> f" using plain(1) f e(3) by (auto simp: pos_less_def)
      moreover have "\<forall>i. n \<le> i \<and> i < q \<longrightarrow> s ! i \<in> set '',''" using first_not_of_Some [of s "'',''" n q] q n by simp
      ultimately have "\<not> f < q" using f'(3) by auto
      then show ?thesis using f' by simp
    qed
    then show ?thesis
      using behind_comma [of s p] e by (auto simp: st1(2) ahead_def)
  qed
qed

lemma parse_loop_ends:
  assumes "ahead s st"
  shows "\<exists>r. parse_loop s (Some st) = Some r"
proof -
  let ?P = "\<lambda>x. case x of None \<Rightarrow> True | Some st \<Rightarrow> ahead s st"
  let ?f = "\<lambda>x. case x of None \<Rightarrow> 0 | Some st \<Rightarrow> Suc (case j_pos st of None \<Rightarrow> 0 | Some p \<Rightarrow> Suc (length s - p))"
  have "?P (Option.bind x (parse_step s)) \<and> ?f (Option.bind x (parse_step s)) < ?f x"
    if x: "?P x" "parse_running x" for x
  proof -
    obtain st p where st: "x = Some st" "j_pos st = Some p" "ahead s st"
      using x by (auto simp: parse_running_def split: option.splits)
    show ?thesis
    proof (cases "parse_step s st")
      case (Some st')
      then show ?thesis
        using parse_step_progress [OF st(3,2) Some] st by (cases "j_pos st'") (simp_all add: diff_less_mono2)
    qed (use st in simp)
  qed
  then have "\<exists>t. while_option parse_running (\<lambda>st. Option.bind st (parse_step s)) (Some st) = Some t"
    by (rule measure_while_option_Some [where P = ?P and f = ?f]) (use assms in simp_all)
  then show ?thesis by (simp add: parse_loop_def)
qed

lemma parse_begin_ahead: "ahead s (parse_begin s nodes)"
  using first_of_Some [of s "''{''"] by (auto simp: ahead_def parse_begin_def Let_def)

lemma parse_loop_step:
  "parse_loop s (Some st) = (if 0 \<le> j_dept st \<and> j_pos st \<noteq> None then parse_loop s (parse_step s st) else Some (Some st))"
  unfolding parse_loop_def by (subst while_option_unfold) (auto simp: parse_running_def)

lemma parse_loop_None [simp]: "parse_loop s None = Some None"
  unfolding parse_loop_def by (subst while_option_unfold) (simp add: parse_running_def)

subsection \<open>Positions as suffixes\<close>

lemma at_suffix_less:
  "length r1 \<le> length s \<Longrightarrow> length r2 \<le> length s \<Longrightarrow> pos_less (at_suffix s r1) (at_suffix s r2) \<longleftrightarrow> length r2 < length r1"
  by (cases r1; cases r2) (auto simp: pos_less_def at_suffix_def)

lemma substr_suffix:
  assumes "s = pre @ x @ r" and "x @ r \<noteq> []"
  shows "substr s (length s - length (x @ r)) (at_suffix s r) = x"
proof -
  have "length s - length (x @ r) = length pre" using assms(1) by simp
  then show ?thesis using assms by (cases r) (simp_all add: substr_def at_suffix_def)
qed

lemma at_suffix_Some: "r \<noteq> [] \<Longrightarrow> at_suffix s r = Some (length s - length r)"
  by (simp add: at_suffix_def)

lemma at_suffix_Nil [simp]: "at_suffix s [] = None"
  by (simp add: at_suffix_def)

subsection \<open>Lists of entries\<close>

text \<open>Entries separated by commas; what adding them below one node does.\<close>

fun commas :: "string list \<Rightarrow> string" where
  "commas [] = []"
| "commas [x] = x"
| "commas (x # xs) = x @ CHR '','' # commas xs"

definition entry :: "string \<Rightarrow> bool" where
  "entry x \<longleftrightarrow> x \<noteq> [] \<and> list_all (\<lambda>c. c \<noteq> CHR ''{'' \<and> c \<noteq> CHR ''}'' \<and> c \<noteq> CHR '','') x"

fun add_children :: "int \<Rightarrow> nat \<Rightarrow> string list \<Rightarrow> jnode list \<Rightarrow> jnode list option" where
  "add_children d cur [] nodes = Some nodes"
| "add_children d cur (x # xs) nodes = do {
     n \<leftarrow> node_set x d node;
     let nodes' = nodes @ [n\<lparr>pParent := Some cur\<rparr>];
     add_children d cur xs
       (nodes'[cur := (nodes' ! cur)\<lparr>children := children (nodes' ! cur) @ [length nodes]\<rparr>]) }"

lemma add_node_children:
  "j_cur st = Some cur \<Longrightarrow>
   add_node x st = map_option (\<lambda>ns. (length (j_nodes st), st\<lparr>j_nodes := ns\<rparr>)) (add_children (j_dept st) cur [x] (j_nodes st))"
  by (cases "node_set x (j_dept st) node") (simp_all add: add_node_def Let_def)

lemma add_children_append:
  "add_children d cur (xs @ ys) nodes = Option.bind (add_children d cur xs nodes) (add_children d cur ys)"
proof (induction xs arbitrary: nodes)
  case (Cons x xs)
  then show ?case by (cases "node_set x d node") (simp_all add: Let_def)
qed simp

lemma add_children_parents:
  "add_children d cur xs nodes = Some nodes' \<Longrightarrow> i < length nodes \<Longrightarrow>
   pParent (nodes' ! i) = pParent (nodes ! i) \<and> length nodes \<le> length nodes'"
proof (induction xs arbitrary: nodes)
  case (Cons x xs)
  then obtain n where n: "node_set x d node = Some n" by (cases "node_set x d node") auto
  let ?ns = "nodes @ [n\<lparr>pParent := Some cur\<rparr>]"
  let ?ns' = "?ns[cur := (?ns ! cur)\<lparr>children := children (?ns ! cur) @ [length nodes]\<rparr>]"
  have "pParent (nodes' ! i) = pParent (?ns' ! i) \<and> length ?ns' \<le> length nodes'"
    using Cons.prems n by (intro Cons.IH) (simp_all add: Let_def)
  then show ?case using Cons.prems(2) by (cases "i = cur") (auto simp: nth_append)
qed simp

lemma entry_no: "entry x \<Longrightarrow> c \<in> set x \<Longrightarrow> c \<noteq> CHR ''{'' \<and> c \<noteq> CHR ''}'' \<and> c \<noteq> CHR '',''"
  by (auto simp: entry_def list_all_iff)

lemma commas_hd: "list_all entry items \<Longrightarrow> items \<noteq> [] \<Longrightarrow> commas items \<noteq> [] \<and> hd (commas items) \<notin> set ''{},''"
  by (cases items rule: commas.cases) (auto simp: entry_def list_all_iff hd_append neq_Nil_conv)

lemma commas_set: "list_all entry items \<Longrightarrow> c \<in> set (commas items) \<Longrightarrow> c \<noteq> CHR ''{'' \<and> c \<noteq> CHR ''}''"
  by (induction items rule: commas.induct) (auto dest: entry_no)

lemma dropWhile_entry:
  "d \<in> set ''{},'' \<Longrightarrow> list_all (\<lambda>c. c \<noteq> d) x \<Longrightarrow> dropWhile (\<lambda>c. c \<notin> set [d]) (x @ d # r) = d # r"
  by (induction x) auto

lemma dropWhile_none: "d \<notin> set r \<Longrightarrow> dropWhile (\<lambda>c. c \<notin> set [d]) r = []"
  by (auto simp: dropWhile_eq_Nil_conv)

lemma parse_step_plain:
  assumes "j_pos st = Some p" and "\<not> pos_less (j_start st) (j_end st)" and "\<not> pos_less (j_close st) (j_end st)"
    and "j_cur st = Some cur"
  shows "parse_step s st = map_option (\<lambda>ns. st\<lparr>j_nodes := ns, j_pos := find_first_not_of s '','' (j_end st),
      j_end := find_first_of s '','' (find_first_not_of s '','' (j_end st))\<rparr>)
    (add_children (j_dept st) cur [substr s p (j_end st)] (j_nodes st))"
  using assms(1,2,3) add_node_children [OF assms(4), of "substr s p (j_end st)"]
  by (cases "add_children (j_dept st) cur [substr s p (j_end st)] (j_nodes st)")
    (simp_all add: parse_step_def Let_def del: add_children.simps)

text \<open>An entry followed by a comma, with no opening brace ahead and the next closing brace behind the comma.\<close>

lemma plain_step:
  assumes s: "s = pre @ x @ CHR '','' # r" and x: "entry x" and r: "r \<noteq> []" "hd r \<noteq> CHR '',''"
    and st: "j_pos st = at_suffix s (x @ CHR '','' # r)" "j_end st = find_first_of s '','' (j_pos st)" "j_start st = None"
      "j_close st = None \<or> (\<exists>t. j_close st = at_suffix s t \<and> length t \<le> length r)"
      "j_cur st = Some cur" "0 \<le> j_dept st"
  shows "parse_loop s (Some st) =
    parse_loop s (map_option (\<lambda>ns. st\<lparr>j_nodes := ns, j_pos := at_suffix s r, j_end := find_first_of s '','' (at_suffix s r)\<rparr>)
      (add_children (j_dept st) cur [x] (j_nodes st)))"
proof -
  let ?x = "x @ CHR '','' # r" and ?c = "CHR '','' # r"
  have dw: "dropWhile (\<lambda>c. c \<notin> set '','') ?x = ?c"
    using entry_no [OF x] by (intro dropWhile_entry) (auto simp: list_all_iff)
  have e: "j_end st = at_suffix s ?c"
    unfolding st(1,2) using find_at_suffix(1) [of s pre ?x "'',''"] s dw by simp
  have p: "j_pos st = Some (length s - length ?x)" using st(1) by (simp add: at_suffix_Some)
  have nc: "\<not> pos_less (j_close st) (j_end st)"
    using st(4) at_suffix_less [of _ s ?c] s by (auto simp: e pos_less_def)
  have ns: "\<not> pos_less (j_start st) (j_end st)" using st(3) by (simp add: pos_less_def)
  have sub: "substr s (length s - length ?x) (j_end st) = x" using substr_suffix [of s pre x ?c] s e by simp
  have nx: "find_first_not_of s '','' (j_end st) = at_suffix s r"
    unfolding e using find_at_suffix(2) [of s "pre @ x" ?c "'',''"] s r by (cases r) auto
  have "parse_step s st = map_option (\<lambda>ns. st\<lparr>j_nodes := ns, j_pos := at_suffix s r, j_end := find_first_of s '','' (at_suffix s r)\<rparr>)
      (add_children (j_dept st) cur [x] (j_nodes st))"
    unfolding parse_step_plain [OF p ns nc st(5)] sub nx by (rule refl)
  then show ?thesis using st(6) p by (simp add: parse_loop_step)
qed

text \<open>All entries but the last are added; the loop then stands at the last one.\<close>

lemma entries_loop:
  assumes "items \<noteq> []" and "list_all entry items" and "s = pre @ commas items @ t"
    and "j_pos st = at_suffix s (commas items @ t)" "j_end st = find_first_of s '','' (j_pos st)" "j_start st = None"
      "j_close st = None \<or> j_close st = at_suffix s t" "j_cur st = Some cur" "0 \<le> j_dept st"
  shows "parse_loop s (Some st) =
    parse_loop s (map_option (\<lambda>ns. st\<lparr>j_nodes := ns, j_pos := at_suffix s (last items @ t),
        j_end := find_first_of s '','' (at_suffix s (last items @ t))\<rparr>)
      (add_children (j_dept st) cur (butlast items) (j_nodes st)))"
  using assms
proof (induction items arbitrary: pre st rule: commas.induct)
  case (2 x)
  then have "st\<lparr>j_pos := at_suffix s (x @ t), j_end := find_first_of s '','' (at_suffix s (x @ t))\<rparr> = st" by simp
  then show ?case by simp
next
  case (3 x y ys)
  let ?r = "commas (y # ys) @ t"
  have hd: "commas (y # ys) \<noteq> []" "hd (commas (y # ys)) \<noteq> CHR '',''" using commas_hd [of "y # ys"] 3 by auto
  have r: "?r \<noteq> []" "hd ?r \<noteq> CHR '',''" using hd by (auto simp: hd_append)
  have x: "entry x" using 3 by simp
  have s: "s = pre @ x @ CHR '','' # ?r" using 3 by simp
  have close: "j_close st = None \<or> (\<exists>t. j_close st = at_suffix s t \<and> length t \<le> length ?r)"
    using 3(8) by auto
  have pos: "j_pos st = at_suffix s (x @ CHR '','' # ?r)" using 3 by simp
  have step: "parse_loop s (Some st) = parse_loop s
      (map_option (\<lambda>ns. st\<lparr>j_nodes := ns, j_pos := at_suffix s ?r, j_end := find_first_of s '','' (at_suffix s ?r)\<rparr>)
        (add_children (j_dept st) cur [x] (j_nodes st)))"
    by (rule plain_step [OF s x r pos _ _ close]) (use 3 in simp_all)
  have bl: "butlast (x # y # ys) = [x] @ butlast (y # ys)" by simp
  show ?case
  proof (cases "add_children (j_dept st) cur [x] (j_nodes st)")
    case None
    then have "add_children (j_dept st) cur (butlast (x # y # ys)) (j_nodes st) = None"
      by (simp only: bl add_children_append None bind.bind_lzero)
    then show ?thesis unfolding step None by (simp del: add_children.simps)
  next
    case (Some ns)
    let ?st = "st\<lparr>j_nodes := ns, j_pos := at_suffix s ?r, j_end := find_first_of s '','' (at_suffix s ?r)\<rparr>"
    have "parse_loop s (Some ?st) = parse_loop s (map_option (\<lambda>ns. ?st\<lparr>j_nodes := ns, j_pos := at_suffix s (last (y # ys) @ t),
        j_end := find_first_of s '','' (at_suffix s (last (y # ys) @ t))\<rparr>)
        (add_children (j_dept ?st) cur (butlast (y # ys)) (j_nodes ?st)))"
      using 3 s by (intro 3(1) [where pre = "pre @ x @ '',''"]) simp_all
    moreover have "add_children (j_dept st) cur (butlast (x # y # ys)) (j_nodes st) = add_children (j_dept st) cur (butlast (y # ys)) ns"
      by (simp only: bl add_children_append Some bind.bind_lunit)
    ultimately show ?thesis unfolding step Some by (simp del: add_children.simps butlast.simps)
  qed
qed simp

lemma commas_last: "items \<noteq> [] \<Longrightarrow> \<exists>pre. commas items = pre @ last items"
proof (induction items rule: commas.induct)
  case (3 x y ys)
  then obtain pre where "commas (y # ys) = pre @ last (y # ys)" by blast
  then show ?case by (intro exI [of _ "x @ CHR '','' # pre"]) simp
qed simp_all

text \<open>The whole text as one list of entries: the braces around it are not looked for.\<close>

lemma parse_flat:
  assumes items: "items \<noteq> []" "list_all entry items" and s: "s = CHR ''{'' # commas items @ ''}''"
  shows "parse_loop s (Some (parse_begin s nodes)) =
    Some (map_option (\<lambda>ns. (parse_begin s nodes)\<lparr>j_nodes := ns, j_pos := None, j_end := None\<rparr>)
      (add_children 1 0 (butlast items @ [last items @ ''}'']) nodes))"
proof -
  let ?r = "commas items @ ''}''" and ?l = "last items @ ''}''"
  note hd = commas_hd [OF items(2,1)]
  have rne: "?r \<noteq> []" by simp
  have "hd ?r \<noteq> CHR ''{''" using hd by (auto simp: hd_append)
  then have "dropWhile (\<lambda>c. c \<in> set ''{'') ?r = ?r" by (cases ?r) auto
  then have p: "find_first_not_of s ''{'' (Some 0) = at_suffix s ?r"
    using find_at_suffix(2) [of s "[]" s "''{''"] s by (simp add: at_suffix_def)
  have "CHR ''{'' \<notin> set ?r" using commas_set [OF items(2), of "CHR ''{''"] by auto
  then have fs: "find_first_of s ''{'' (at_suffix s ?r) = None"
    using find_at_suffix(1) [of s "''{''" ?r "''{''"] dropWhile_none [of "CHR ''{''" ?r] s by simp
  let ?st = "parse_begin s nodes"
  have st: "j_pos ?st = at_suffix s ?r" "j_end ?st = find_first_of s '','' (j_pos ?st)" "j_start ?st = None"
    "j_close ?st = None" "j_cur ?st = Some 0" "j_dept ?st = 1" "j_nodes ?st = nodes"
    using p fs by (simp_all add: parse_begin_def Let_def)
  have suf: "\<exists>pre. s = pre @ ?l"
  proof -
    obtain pre where "commas items = pre @ last items" using commas_last [OF items(1)] by blast
    then show ?thesis using s by (intro exI [of _ "CHR ''{'' # pre"]) simp
  qed
  obtain pre where pre: "s = pre @ ?l @ []" using suf by auto
  have le: "entry (last items)" using items by (simp add: list_all_iff)
  have "CHR '','' \<notin> set ?l" using entry_no [OF le, of "CHR '',''"] by auto
  then have end_None: "find_first_of s '','' (at_suffix s ?l) = None"
    using find_at_suffix(1) [of s pre ?l "'',''"] dropWhile_none [of "CHR '',''" ?l] pre by simp
  have run: "parse_loop s (Some ?st) =
    parse_loop s (map_option (\<lambda>ns. ?st\<lparr>j_nodes := ns, j_pos := at_suffix s ?l, j_end := None\<rparr>)
      (add_children 1 0 (butlast items) nodes))"
    using entries_loop [OF items, of s "''{''" "''}''" ?st 0] s st end_None by simp
  have sub: "substr s (length s - length ?l) None = ?l" using substr_suffix [OF pre] by simp
  show ?thesis
  proof (cases "add_children 1 0 (butlast items) nodes")
    case None
    then show ?thesis unfolding run by (simp add: add_children_append)
  next
    case (Some ns)
    let ?st' = "?st\<lparr>j_nodes := ns, j_pos := at_suffix s ?l, j_end := None\<rparr>"
    have "parse_step s ?st' = map_option (\<lambda>ns. ?st'\<lparr>j_nodes := ns, j_pos := find_first_not_of s '','' (j_end ?st'),
        j_end := find_first_of s '','' (find_first_not_of s '','' (j_end ?st'))\<rparr>)
        (add_children (j_dept ?st') 0 [substr s (length s - length ?l) (j_end ?st')] (j_nodes ?st'))"
      by (rule parse_step_plain) (simp_all add: st pos_less_def at_suffix_Some del: length_append)
    then have "parse_step s ?st' = map_option (\<lambda>ns. ?st\<lparr>j_nodes := ns, j_pos := None, j_end := None\<rparr>)
        (add_children 1 0 [?l] ns)"
      using st sub by (simp del: add_children.simps length_append)
    moreover have "parse_loop s (Some ?st') = parse_loop s (parse_step s ?st')"
      using st by (simp add: parse_loop_step at_suffix_Some)
    ultimately show ?thesis
      unfolding run Some add_children_append
      by (cases "add_children 1 0 [?l] ns") (simp_all add: parse_loop_step del: add_children.simps)
  qed
qed

subsection \<open>One family\<close>

lemma parse_step_family:
  assumes "j_pos st = Some p" and "pos_less (j_start st) (j_end st)" and "j_cur st = Some cur"
  shows "parse_step s st = map_option (\<lambda>ns. seek s (find_first_not_of s ''{'' (j_start st))
      (st\<lparr>j_nodes := ns, j_dept := j_dept st + 1, j_cur := Some (length (j_nodes st))\<rparr>))
    (add_children (j_dept st) cur [substr s p (j_start st)] (j_nodes st))"
  using assms(1,2) add_node_children [OF assms(3), of "substr s p (j_start st)"]
  by (cases "add_children (j_dept st) cur [substr s p (j_start st)] (j_nodes st)")
    (simp_all add: parse_step_def del: add_children.simps)

lemma parse_step_last:
  assumes "j_pos st = Some p" and "\<not> pos_less (j_start st) (j_end st)" and "pos_less (j_close st) (j_end st)"
    and "j_cur st = Some cur"
  shows "parse_step s st = do {
     ns \<leftarrow> add_children (j_dept st) cur [substr s p (j_close st)] (j_nodes st);
     st' \<leftarrow> close_families s (find_first_of s '','' (j_close st)) (st\<lparr>j_nodes := ns\<rparr>);
     Some (seek s (find_first_not_of s '','' (find_first_of s '','' (Some p))) st') }"
  using assms(1,2,3) add_node_children [OF assms(4), of "substr s p (j_close st)"]
  by (cases "add_children (j_dept st) cur [substr s p (j_close st)] (j_nodes st)")
    (simp_all add: parse_step_def del: add_children.simps)

lemma parse_step_null: "j_cur st = None \<Longrightarrow> parse_step s st = None"
  by (cases "j_pos st") (auto simp: parse_step_def add_node_def Let_def Option.bind_eq_None_conv split: option.splits)

lemma next_suffix:
  assumes "s = pre @ c # r" and "r \<noteq> []"
  shows "next_pos (at_suffix s (c # r)) = at_suffix s r"
proof -
  have "Suc (length s - Suc (length r)) = length s - length r" using assms(1) by simp
  then show ?thesis using assms(2) by (simp add: next_pos_def at_suffix_def)
qed

text \<open>Two closing braces, then the end or a comma: the first leaves the family, the second the outermost node.\<close>

lemma close_two:
  assumes s: "s = pre @ ''}}'' @ u" and u: "u = [] \<or> hd u = CHR '',''"
    and st: "j_dept st = 2" "j_cur st = Some 1" "pParent (j_nodes st ! 1) = Some 0" "pParent (j_nodes st ! 0) = None"
      "j_close st = at_suffix s (''}}'' @ u)"
  shows "\<exists>c. close_families s (at_suffix s u) st = Some (st\<lparr>j_dept := 0, j_cur := None, j_close := c\<rparr>)"
proof -
  have lu: "length u \<le> length s" "length (''}'' @ u) \<le> length s" "length (''}}'' @ u) \<le> length s" using s by simp_all
  have n1: "next_pos (at_suffix s (''}}'' @ u)) = at_suffix s (''}'' @ u)"
    using next_suffix [of s pre "CHR ''}''" "''}'' @ u"] s by simp
  have f1: "find_first_of s ''}'' (at_suffix s (''}'' @ u)) = at_suffix s (''}'' @ u)"
    using find_at_suffix(1) [of s "pre @ ''}''" "''}'' @ u" "''}''"] s by simp
  have l1: "pos_less (at_suffix s (''}}'' @ u)) (at_suffix s u)" using at_suffix_less [OF lu(3,1)] by simp
  have l2: "pos_less (at_suffix s (''}'' @ u)) (at_suffix s u)" using at_suffix_less [OF lu(2,1)] by simp
  let ?st1 = "st\<lparr>j_dept := 1, j_cur := Some 0, j_close := at_suffix s (''}'' @ u)\<rparr>"
  let ?c = "find_first_of s ''}'' (next_pos (at_suffix s (''}'' @ u)))"
  have "close_families s (at_suffix s u) st = close_families s (at_suffix s u) ?st1"
    by (subst close_families.simps) (simp only: st l1 n1 f1, use st(3) in simp)
  also have "\<dots> = close_families s (at_suffix s u) (?st1\<lparr>j_dept := 0, j_cur := None, j_close := ?c\<rparr>)"
    by (subst close_families.simps) (use l2 st in simp)
  also have "\<dots> = Some (st\<lparr>j_dept := 0, j_cur := None, j_close := ?c\<rparr>)"
    by (subst close_families.simps) simp
  finally show ?thesis by blast
qed

definition tail_ok :: "string \<Rightarrow> bool" where
  "tail_ok u \<longleftrightarrow> CHR ''{'' \<notin> set u \<and> (u = [] \<or> hd u = CHR '','' \<and> tl u \<noteq> [] \<and> hd (tl u) \<noteq> CHR '','')"

text \<open>The last entry of the family.\<close>

lemma family_last:
  assumes s: "s = pre @ l @ ''}}'' @ u" and l: "entry l" and u: "tail_ok u"
    and st: "j_pos st = at_suffix s (l @ ''}}'' @ u)" "j_end st = find_first_of s '','' (j_pos st)" "j_start st = None"
      "j_close st = at_suffix s (''}}'' @ u)" "j_dept st = 2" "j_cur st = Some 1"
      "pParent (j_nodes st ! 1) = Some 0" "pParent (j_nodes st ! 0) = None" "1 < length (j_nodes st)"
  shows "map_option (map_option j_nodes) (parse_loop s (Some st)) =
    Some (if u = [] then add_children 2 1 [l] (j_nodes st) else None)"
proof -
  let ?t = "''}}'' @ u" and ?p = "length s - length (l @ ''}}'' @ u)"
  have dw: "dropWhile (\<lambda>c. c \<notin> set '','') (l @ ?t) = u"
  proof -
    have n: "CHR '','' \<notin> set (l @ ''}}'')" using entry_no [OF l, of "CHR '',''"] by auto
    show ?thesis
    proof (cases u)
      case Nil
      then show ?thesis using dropWhile_none [OF n] by (simp only: append_Nil2)
    next
      case (Cons c v)
      then have c: "c = CHR '',''" using u by (simp add: tail_ok_def)
      have "list_all (\<lambda>c. c \<noteq> CHR '','') (l @ ''}}'')" using n by (auto simp only: list_all_iff)
      then have "dropWhile (\<lambda>c. c \<notin> set '','') ((l @ ''}}'') @ CHR '','' # v) = CHR '','' # v"
        by (intro dropWhile_entry) simp_all
      then show ?thesis unfolding Cons c append_assoc .
    qed
  qed
  have e: "j_end st = at_suffix s u"
    unfolding st(1,2) using find_at_suffix(1) [of s pre "l @ ?t" "'',''"] s dw by simp
  have p: "j_pos st = Some ?p" using st(1) by (simp add: at_suffix_Some del: length_append)
  have ns: "\<not> pos_less (j_start st) (j_end st)" using st(3) by (simp add: pos_less_def)
  have cl: "pos_less (j_close st) (j_end st)" unfolding e st(4) using at_suffix_less [of ?t s u] s by simp
  have sub: "substr s ?p (j_close st) = l" unfolding st(4) using substr_suffix [of s pre l ?t] s by simp
  have ce: "find_first_of s '','' (j_close st) = at_suffix s u"
  proof -
    have "dropWhile (\<lambda>c. c \<notin> set '','') ?t = u" using u by (cases u) (auto simp: tail_ok_def)
    then show ?thesis unfolding st(4) using find_at_suffix(1) [of s "pre @ l" ?t "'',''"] s by simp
  qed
  have pe: "find_first_of s '','' (Some ?p) = at_suffix s u" using e p st(2) by simp
  have nx: "find_first_not_of s '','' (at_suffix s u) = at_suffix s (tl u)"
  proof (cases u)
    case (Cons c v)
    then show ?thesis
      using find_at_suffix(2) [of s "pre @ l @ ''}}''" u "'',''"] s u by (cases v) (auto simp: tail_ok_def)
  qed simp
  have step: "parse_step s st = do {
     ns \<leftarrow> add_children 2 1 [l] (j_nodes st);
     st' \<leftarrow> close_families s (at_suffix s u) (st\<lparr>j_nodes := ns\<rparr>);
     Some (seek s (at_suffix s (tl u)) st') }"
    unfolding parse_step_last [OF p ns cl st(6)] sub ce pe nx st(5) by (rule refl)
  have go: "parse_loop s (Some st) = parse_loop s (parse_step s st)"
    using st(5) p by (simp add: parse_loop_step)
  show ?thesis
  proof (cases "add_children 2 1 [l] (j_nodes st)")
    case None
    then show ?thesis unfolding go step by (simp del: add_children.simps)
  next
    case (Some ns)
    have "pParent (ns ! 1) = Some 0" "pParent (ns ! 0) = None"
      using add_children_parents [OF Some st(9)] add_children_parents [OF Some less_trans [OF zero_less_one st(9)]] st(7,8)
      by simp_all
    then obtain c where c: "close_families s (at_suffix s u) (st\<lparr>j_nodes := ns\<rparr>) =
        Some (st\<lparr>j_nodes := ns, j_dept := 0, j_cur := None, j_close := c\<rparr>)"
      using close_two [of s "pre @ l" u "st\<lparr>j_nodes := ns\<rparr>"] s u st(4,5,6) by (auto simp: tail_ok_def)
    let ?st = "seek s (at_suffix s (tl u)) (st\<lparr>j_nodes := ns, j_dept := 0, j_cur := None, j_close := c\<rparr>)"
    have sel: "j_cur ?st = None" "j_nodes ?st = ns" "j_pos ?st = at_suffix s (tl u)" "j_dept ?st = 0"
      by (simp_all add: seek_def)
    have run: "parse_loop s (Some st) = parse_loop s (Some ?st)" unfolding go step Some using c by simp
    show ?thesis
    proof (cases "u = []")
      case True
      then have "parse_loop s (Some ?st) = Some (Some ?st)" using sel by (subst parse_loop_step) simp
      then show ?thesis unfolding run using True sel Some by simp
    next
      case False
      then have "tl u \<noteq> []" using u by (simp add: tail_ok_def)
      then have "parse_loop s (Some ?st) = Some None"
        using sel parse_step_null [OF sel(1)] by (subst parse_loop_step) (simp add: at_suffix_Some)
      then show ?thesis unfolding run using False by simp
    qed
  qed
qed

lemma parse_family:
  assumes items: "items \<noteq> []" "list_all entry items" and k: "entry k" and u: "tail_ok u"
    and s: "s = CHR ''{'' # k @ CHR ''{'' # commas items @ ''}}'' @ u"
  shows "map_option (map_option j_nodes) (parse_loop s (Some (parse_begin s [node]))) =
    Some (if u = [] then Option.bind (add_children 1 0 [k] [node]) (add_children 2 1 items) else None)"
proof -
  let ?t = "''}}'' @ u" and ?st = "parse_begin s [node]"
  let ?r = "commas items @ ''}}'' @ u"
  let ?b = "CHR ''{'' # ?r"
  note hd = commas_hd [OF items(2,1)]
  have kn: "CHR ''{'' \<notin> set k" using entry_no [OF k, of "CHR ''{''"] by auto
  have kne: "k \<noteq> []" "hd k \<noteq> CHR ''{''" using k kn by (auto simp: entry_def) (metis hd_in_set)
  have p: "find_first_not_of s ''{'' (Some 0) = at_suffix s (k @ ?b)"
    using find_at_suffix(2) [of s "[]" s "''{''"] s kne by (cases k) (simp_all add: at_suffix_def)
  have "dropWhile (\<lambda>c. c \<notin> set ''{'') (k @ ?b) = ?b"
    using kn by (intro dropWhile_entry) (auto simp: list_all_iff)
  then have fs: "find_first_of s ''{'' (at_suffix s (k @ ?b)) = at_suffix s ?b"
    using find_at_suffix(1) [of s "''{''" "k @ ?b" "''{''"] s by simp
  have less: "pos_less (at_suffix s ?b) (find_first_of s '','' (at_suffix s (k @ ?b)))"
  proof -
    have kc: "CHR '','' \<notin> set (k @ ''{'')" using entry_no [OF k, of "CHR '',''"] by auto
    have "dropWhile (\<lambda>c. c \<notin> set '','') (k @ ?b) = dropWhile (\<lambda>c. c \<notin> set '','') ?r"
    proof -
      have "dropWhile (\<lambda>c. c \<notin> set '','') ((k @ ''{'') @ ?r) = dropWhile (\<lambda>c. c \<notin> set '','') ?r"
        using kc by (intro dropWhile_append2) auto
      then show ?thesis by simp
    qed
    moreover have "length (dropWhile (\<lambda>c. c \<notin> set '','') ?r) \<le> length ?r" by (rule length_dropWhile_le)
    ultimately show ?thesis
      using find_at_suffix(1) [of s "''{''" "k @ ?b" "'',''"] s
        at_suffix_less [of ?b s "dropWhile (\<lambda>c. c \<notin> set '','') ?r"] by simp
  qed
  have pp: "j_pos ?st = Some (length s - length (k @ ?b))" using p by (simp add: parse_begin_def Let_def at_suffix_Some)
  have st: "j_start ?st = at_suffix s ?b" "pos_less (j_start ?st) (j_end ?st)" "j_cur ?st = Some 0" "j_dept ?st = 1"
    "j_nodes ?st = [node]"
    using p fs less by (simp_all add: parse_begin_def Let_def)
  have sub: "substr s (length s - length (k @ ?b)) (j_start ?st) = k"
    unfolding st(1) using substr_suffix [of s "''{''" k ?b] s by simp
  have nx: "find_first_not_of s ''{'' (j_start ?st) = at_suffix s ?r"
  proof -
    have "dropWhile (\<lambda>c. c \<in> set ''{'') ?b = ?r" using hd by (cases "commas items") auto
    then show ?thesis unfolding st(1) using find_at_suffix(2) [of s "CHR ''{'' # k" ?b "''{''"] s by simp
  qed
  have step: "parse_step s ?st = map_option (\<lambda>ns. seek s (at_suffix s ?r) (?st\<lparr>j_nodes := ns, j_dept := 2, j_cur := Some 1\<rparr>))
      (add_children 1 0 [k] [node])"
    unfolding parse_step_family [OF pp st(2,3)] sub nx st(4,5) by simp
  have go: "parse_loop s (Some ?st) = parse_loop s (parse_step s ?st)" using st(4) pp by (simp add: parse_loop_step)
  show ?thesis
  proof (cases "add_children 1 0 [k] [node]")
    case None
    then show ?thesis unfolding go step by (simp del: add_children.simps)
  next
    case (Some ns)
    let ?st1 = "seek s (at_suffix s ?r) (?st\<lparr>j_nodes := ns, j_dept := 2, j_cur := Some 1\<rparr>)"
    have "CHR ''{'' \<notin> set ?r" using commas_set [OF items(2), of "CHR ''{''"] u by (auto simp: tail_ok_def)
    then have dn: "dropWhile (\<lambda>c. c \<notin> set ''{'') ?r = []" by (rule dropWhile_none)
    have sr: "s = (CHR ''{'' # k @ ''{'') @ ?r" using s by simp
    have s0: "find_first_of s ''{'' (at_suffix s ?r) = None"
      using find_at_suffix(1) [OF sr, of "''{''"] unfolding dn by simp
    have "CHR ''}'' \<notin> set (commas items)" using commas_set [OF items(2), of "CHR ''}''"] by auto
    then have "list_all (\<lambda>c. c \<noteq> CHR ''}'') (commas items)" by (auto simp only: list_all_iff)
    then have dc: "dropWhile (\<lambda>c. c \<notin> set ''}'') (commas items @ CHR ''}'' # ''}'' @ u) = CHR ''}'' # ''}'' @ u"
      by (intro dropWhile_entry) simp_all
    have c0: "find_first_of s ''}'' (at_suffix s ?r) = at_suffix s ?t"
      using find_at_suffix(1) [OF sr, of "''}''"] dc by simp
    have sel: "j_pos ?st1 = at_suffix s ?r" "j_end ?st1 = find_first_of s '','' (j_pos ?st1)" "j_start ?st1 = None"
      "j_close ?st1 = at_suffix s ?t" "j_cur ?st1 = Some 1" "j_dept ?st1 = 2" "j_nodes ?st1 = ns"
      using s0 c0 by (simp_all add: seek_def)
    have sp: "s = (CHR ''{'' # k @ ''{'') @ commas items @ ?t" using s by simp
    let ?st2 = "\<lambda>ns. ?st1\<lparr>j_nodes := ns, j_pos := at_suffix s (last items @ ?t), j_end := find_first_of s '','' (at_suffix s (last items @ ?t))\<rparr>"
    have run: "parse_loop s (Some ?st1) = parse_loop s (map_option ?st2 (add_children 2 1 (butlast items) ns))"
      using entries_loop [OF items sp sel(1,2,3) _ sel(5)] sel by simp
    have ns: "pParent (ns ! 1) = Some 0" "pParent (ns ! 0) = None" "1 < length ns"
      using Some by (auto simp: node_def Option.bind_eq_Some_conv Let_def)
    have bl: "add_children 2 1 items ns = Option.bind (add_children 2 1 (butlast items) ns) (add_children 2 1 [last items])"
      using add_children_append [of 2 1 "butlast items" "[last items]" ns] items(1) by simp
    have all: "parse_loop s (Some ?st) = parse_loop s (map_option ?st2 (add_children 2 1 (butlast items) ns))"
      unfolding go step Some using run by simp
    show ?thesis
    proof (cases "add_children 2 1 (butlast items) ns")
      case None
      then show ?thesis unfolding all using Some bl by (simp del: add_children.simps)
    next
      case (Some ns2)
      obtain pre where pre: "s = pre @ last items @ ''}}'' @ u"
        using commas_last [OF items(1)] sp by (metis append_assoc)
      have ns2: "pParent (ns2 ! 1) = Some 0" "pParent (ns2 ! 0) = None" "1 < length ns2"
        using add_children_parents [OF Some ns(3)] add_children_parents [OF Some less_trans [OF zero_less_one ns(3)]] ns by auto
      have "entry (last items)" using items by (simp add: list_all_iff)
      then have fl: "map_option (map_option j_nodes) (parse_loop s (Some (?st2 ns2))) =
          Some (if u = [] then add_children 2 1 [last items] (j_nodes (?st2 ns2)) else None)"
        using sel ns2 by (intro family_last [OF pre _ u]) simp_all
      have nn: "j_nodes (?st2 ns2) = ns2" by simp
      have bind: "Option.bind (add_children 1 0 [k] [node]) (add_children 2 1 items) = add_children 2 1 [last items] ns2"
        unfolding \<open>add_children 1 0 [k] [node] = Some ns\<close> bind.bind_lunit bl Some by (rule refl)
      show ?thesis
        unfolding all Some option.map bind using fl [unfolded nn] .
    qed
  qed
qed

subsection \<open>Keys and values\<close>

lemma rscan_Some: "P m \<Longrightarrow> m < n \<Longrightarrow> (\<And>i. m < i \<Longrightarrow> i < n \<Longrightarrow> \<not> P i) \<Longrightarrow> rscan P n = Some m"
  by (induction n) (auto simp: less_Suc_eq)

lemma find_last_at:
  assumes "str = xs @ c # ys @ zs" and "c \<notin> set chs" and "set ys \<subseteq> set chs"
  shows "find_last_not_of str chs (Some (length xs + length ys)) = Some (length xs)"
    and "zs = [] \<Longrightarrow> find_last_not_of str chs None = Some (length xs)"
proof -
  have "rscan (\<lambda>i. str ! i \<notin> set chs) (Suc (length xs + length ys)) = Some (length xs)"
  proof (rule rscan_Some)
    fix i assume i: "length xs < i" "i < Suc (length xs + length ys)"
    then have "i - length xs - 1 < length ys" by linarith
    then have "str ! i = ys ! (i - length xs - 1)" using assms(1) i by (simp add: nth_append nth_Cons')
    moreover have "ys ! (i - length xs - 1) \<in> set ys" using i by (intro nth_mem) simp
    ultimately show "\<not> str ! i \<notin> set chs" using assms(3) by auto
  qed (use assms in simp_all)
  then show "find_last_not_of str chs (Some (length xs + length ys)) = Some (length xs)"
    and "zs = [] \<Longrightarrow> find_last_not_of str chs None = Some (length xs)"
    using assms(1) by (simp_all add: find_last_not_of_def min_def)
qed

lemma skip_blanks: "r \<noteq> [] \<Longrightarrow> hd r \<noteq> CHR '' '' \<Longrightarrow> dropWhile (\<lambda>c. c \<in> set '' '') (replicate n CHR '' '' @ r) = r"
  by (induction n) (auto simp: neq_Nil_conv)

lemma substr_part: "str = pre @ x @ r \<Longrightarrow> substr str (length pre) (Some (length pre + length x)) = x"
  by (simp add: substr_def)

lemma node_set_parts:
  assumes s: "those (map json_char s) = Some str"
    and str: "str = replicate a CHR '' '' @ k @ replicate b CHR '' '' @ CHR '':'' # replicate c CHR '' '' @ v @ replicate d CHR '' ''"
    and k: "k \<noteq> []" "CHR '':'' \<notin> set k" "hd k \<noteq> CHR '' ''" "last k \<noteq> CHR '' ''"
    and v: "v \<noteq> []" "hd v \<noteq> CHR '' ''" "hd v \<noteq> CHR '':''" "last v \<noteq> CHR '' ''"
  shows "node_set s dp n = Some (n\<lparr>dept := dp, key := k, value := v\<rparr>)"
proof -
  let ?A = "replicate a CHR '' ''" and ?B = "replicate b CHR '' ''" and ?C = "replicate c CHR '' ''" and ?D = "replicate d CHR '' ''"
  let ?r3 = "?C @ v @ ?D"
  let ?r2 = "CHR '':'' # ?r3"
  let ?r1 = "k @ ?B @ ?r2"
  obtain k1 kl where kl: "k = k1 @ [kl]" "kl \<noteq> CHR '' ''" using k by (cases k rule: rev_cases) auto
  obtain v1 vl where vl: "v = v1 @ [vl]" "vl \<noteq> CHR '' ''" using v by (cases v rule: rev_cases) auto
  have s0: "str = [] @ str" "str \<noteq> []" "at_suffix str str = Some 0" using str by (simp_all add: at_suffix_def)
  have d1: "dropWhile (\<lambda>c. c \<in> set '' '') str = ?r1"
    unfolding str by (rule skip_blanks) (use k in \<open>simp_all add: hd_append\<close>)
  have key_s: "find_first_not_of str '' '' (Some 0) = at_suffix str ?r1"
    using find_at_suffix(2) [OF s0(1,2), of "'' ''"] unfolding s0(3) d1 .
  have d2: "dropWhile (\<lambda>c. c \<notin> set '':'') ?r1 = ?r2"
  proof -
    have "dropWhile (\<lambda>c. c \<notin> set '':'') ((k @ ?B) @ ?r2) = dropWhile (\<lambda>c. c \<notin> set '':'') ?r2"
      using k(2) by (intro dropWhile_append2) auto
    then show ?thesis by simp
  qed
  have key_e: "find_first_of str '':'' (at_suffix str ?r1) = at_suffix str ?r2"
    using find_at_suffix(1) [of str ?A ?r1 "'':''"] str k(1) unfolding d2 by simp
  have "dropWhile (\<lambda>c. c \<in> set '':'') ?r2 = ?r3"
    using v by (cases c; cases v) auto
  then have val_s: "find_first_not_of str '':'' (at_suffix str ?r2) = at_suffix str ?r3"
    using find_at_suffix(2) [of str "?A @ k @ ?B" ?r2 "'':''"] str by simp
  have "dropWhile (\<lambda>c. c \<in> set '' '') ?r3 = v @ ?D" by (rule skip_blanks) (use v in \<open>simp_all add: hd_append\<close>)
  then have val_s2: "find_first_not_of str '' '' (at_suffix str ?r3) = at_suffix str (v @ ?D)"
    using find_at_suffix(2) [of str "?A @ k @ ?B @ '':''" ?r3 "'' ''"] str v(1) by simp
  have val_e: "find_last_not_of str '' '' None = Some (length (?A @ k @ ?B @ '':'' @ ?C @ v1))"
    by (rule find_last_at(2) [of str _ vl ?D "[]"]) (use str vl in auto)
  obtain kb x where kb: "k @ ?B = kb @ [x]" using k(1) by (cases "k @ ?B" rule: rev_cases) auto
  have x: "x \<noteq> CHR '':''"
  proof -
    have "x \<in> set (k @ ?B)" unfolding kb by simp
    then show ?thesis using k(2) by auto
  qed
  have lkb: "length k + b = Suc (length kb)" using arg_cong [OF kb, of length] by simp
  have p2: "at_suffix str ?r2 = Some (length (?A @ kb) + length '':'')"
    using str lkb by (simp add: at_suffix_def)
  have e1: "find_last_not_of str '':'' (at_suffix str ?r2) = Some (length (?A @ kb))"
  proof -
    have "str = (?A @ kb) @ x # '':'' @ ?r3" using str kb by (metis append_Cons append_Nil append_assoc)
    then show ?thesis unfolding p2 by (rule find_last_at(1)) (use x in auto)
  qed
  have e2: "find_last_not_of str '' '' (Some (length (?A @ kb))) = Some (length (?A @ k1))"
  proof -
    have l: "length (?A @ kb) = length (?A @ k1) + length ?B" using lkb kl(1) by simp
    have "str = (?A @ k1) @ kl # ?B @ ?r2" using str kl(1) by simp
    then show ?thesis unfolding l by (rule find_last_at(1)) (use kl(2) in auto)
  qed
  have p1: "at_suffix str ?r1 = Some (length ?A)" and p4: "at_suffix str (v @ ?D) = Some (length (?A @ k @ ?B @ '':'' @ ?C))"
    using str k(1) v(1) by (simp_all add: at_suffix_def)
  have sk: "substr str (length ?A) (Some (length (?A @ k1) + 1)) = k"
    using substr_part [of str ?A k "?B @ ?r2"] str kl(1) by simp
  have sv: "substr str (length (?A @ k @ ?B @ '':'' @ ?C)) (Some (length (?A @ k @ ?B @ '':'' @ ?C @ v1) + 1)) = v"
    using substr_part [of str "?A @ k @ ?B @ '':'' @ ?C" v ?D] str vl(1) by (simp add: add.assoc)
  show ?thesis
    unfolding node_set_def Let_def s bind.bind_lunit key_s key_e val_s val_s2 val_e e1 e2
    unfolding p1 p4 prod.case option.case sk sv by simp
qed

subsection \<open>Properties\<close>

text \<open>
  C25: Parsing ends.  For every text, balanced or not, and every parser that has parsed before, both loops of
  \<open>parse\<close> end: either with a list of nodes or at an undefined step, never by running on.
\<close>

theorem json_parse_ends: "\<exists>r. parse s nodes = Some r"
  using parse_loop_ends [OF parse_begin_ahead, of s nodes] by (auto simp: parse_def)

text \<open>
  One family is parsed as intended, and only up to its end.  For \<open>{key:{entry,...,entry}}\<close> the first node is
  made from the key, and below it one node is made from each entry, in order; when a comma and more text
  follow the closing braces, the parser goes on below a null node, which is undefined.
\<close>

theorem json_family:
  assumes "items \<noteq> []" and "list_all entry items" and "entry k" and "tail_ok u"
    and "s = CHR ''{'' # k @ CHR ''{'' # commas items @ ''}}'' @ u"
  shows "map_option (map_option snd) (parse s [node]) =
    Some (if u = [] then Option.bind (add_children 1 0 [k] [node]) (add_children 2 1 items) else None)"
  using parse_family [OF assms] by (simp add: parse_def option.map_comp comp_def)

theorem json_family_witness:
  "map_option (map_option snd) (parse ''{a:{b:c,d:e}}'' [node]) =
     Some (Option.bind (add_children 1 0 [''a:''] [node]) (add_children 2 1 [''b:c'', ''d:e''])) \<and>
   map_option (map_option snd) (parse ''{a:{b:c}},d'' [node]) = Some None"
proof -
  have e: "list_all entry [''b:c'', ''d:e'']" "entry ''a:''" "tail_ok []" "list_all entry [''b:c'']" "tail_ok '',d''"
    by (simp_all add: entry_def tail_ok_def)
  show ?thesis
    using json_family [OF _ e(1,2,3), of "''{a:{b:c,d:e}}''"] json_family [OF _ e(4,2,5), of "''{a:{b:c}},d''"]
    by simp
qed

text \<open>
  A list of entries without a family keeps its closing brace.  For \<open>{entry,...,entry}\<close> one node below
  \<open>node_first\<close> is made from each entry, but the last one from its text with the closing brace, because the
  parser looks for closing braces only inside a family.
\<close>

theorem json_flat_keeps_brace:
  assumes "items \<noteq> []" and "list_all entry items" and "s = CHR ''{'' # commas items @ ''}''"
  shows "map_option (map_option snd) (parse s [node]) =
    Some (add_children 1 0 (butlast items @ [last items @ ''}'']) [node])"
  unfolding parse_def parse_flat [OF assms] by (simp add: option.map_comp comp_def option.map_ident)

theorem json_flat_keeps_brace_witness:
  "map_option (map_option (map value \<circ> snd)) (parse ''{a:1,b:2}'' [node]) = Some (Some ['''', ''1'', ''2}''])"
proof -
  have e: "list_all entry [''a:1'', ''b:2'']" by (simp add: entry_def)
  have v: "map_option (map value) (add_children 1 0 [''a:1'', ''b:2}''] [node]) = Some ['''', ''1'', ''2}'']"
    by code_simp
  have "map_option (map_option snd) (parse ''{a:1,b:2}'' [node]) = Some (add_children 1 0 [''a:1'', ''b:2}''] [node])"
    using json_flat_keeps_brace [OF _ e, of "''{a:1,b:2}''"] by simp
  then have "map_option (map_option (map value)) (map_option (map_option snd) (parse ''{a:1,b:2}'' [node])) =
      Some (map_option (map value) (add_children 1 0 [''a:1'', ''b:2}''] [node]))"
    by (simp only: option.map)
  then show ?thesis unfolding v by (simp add: option.map_comp comp_def)
qed

text \<open>
  Keys and values are trimmed.  After quotation marks became blanks and letters lower case, an entry that
  consists of a key, a colon and a value, with any number of blanks around either, gives a node with exactly
  that key and that value; a quoted member of a document is such an entry.
\<close>

theorem json_entry_trimmed:
  assumes "those (map json_char s) = Some (replicate a CHR '' '' @ k @ replicate b CHR '' '' @ CHR '':'' #
      replicate c CHR '' '' @ v @ replicate d CHR '' '')"
    and "k \<noteq> []" and "CHR '':'' \<notin> set k" and "hd k \<noteq> CHR '' ''" and "last k \<noteq> CHR '' ''"
    and "v \<noteq> []" and "hd v \<noteq> CHR '' ''" and "hd v \<noteq> CHR '':''" and "last v \<noteq> CHR '' ''"
  shows "node_set s dp node = Some \<lparr>dept = dp, key = k, value = v, pParent = None, children = []\<rparr>"
  using node_set_parts [OF assms(1) refl assms(2-9), of dp node] by (simp add: node_def)

theorem json_entry_trimmed_witness:
  "node_set (concat [[CHR 0x22], ''Name'', [CHR 0x22], '' : '', [CHR 0x22], ''x y'', [CHR 0x22]]) 1 node =
     Some \<lparr>dept = 1, key = ''name'', value = ''x y'', pParent = None, children = []\<rparr>"
proof -
  have "those (map json_char (concat [[CHR 0x22], ''Name'', [CHR 0x22], '' : '', [CHR 0x22], ''x y'', [CHR 0x22]])) =
      Some (replicate 1 CHR '' '' @ ''name'' @ replicate 2 CHR '' '' @ CHR '':'' # replicate 2 CHR '' '' @ ''x y'' @ replicate 1 CHR '' '')"
    by code_simp
  then show ?thesis by (rule json_entry_trimmed) simp_all
qed

end
