(* ===== verification/Time_Set.thy ===== *)
theory Time_Set
  imports PL_Prelude
begin

text \<open>
  \<^verbatim>\<open>_lib/util_time.h\<close> and \<^verbatim>\<open>util_time.cpp\<close>: \<open>CTimeSet\<close>, a point in time with its calendar fields in GMT and in
  local time.  The calendar functions of the C library come first: \<open>_gmtime64_s\<close> sets every field to -1 for a
  time before 1970 or after 3000, \<open>_mkgmtime64\<close> brings fields into range and answers -1 outside the same
  limits.  The time zone, with daylight saving, is a parameter: \<open>z_timezone\<close> is what \<open>_get_timezone\<close> reports,
  \<open>z_offset\<close> the seconds that local time is ahead of GMT at an instant.
\<close>

subsection \<open>The calendar of the C library\<close>

record tm =
  tm_sec :: int
  tm_min :: int
  tm_hour :: int
  tm_mday :: int
  tm_mon :: int
  tm_year :: int
  tm_wday :: int
  tm_yday :: int

record zone =
  z_timezone :: int
  z_offset :: "int \<Rightarrow> int"

definition is_leap :: "int \<Rightarrow> bool" where
  "is_leap y \<longleftrightarrow> y mod 4 = 0 \<and> (y mod 100 \<noteq> 0 \<or> y mod 400 = 0)"

definition year_days :: "int \<Rightarrow> nat" where
  "year_days y = (if is_leap y then 366 else 365)"

definition month_days :: "int \<Rightarrow> nat list" where
  "month_days y = [31, if is_leap y then 29 else 28, 31, 30, 31, 30, 31, 31, 30, 31, 30, 31]"

text \<open>Days from the first of January 1970 to the first of January of a year.\<close>

definition year_start :: "int \<Rightarrow> int" where
  "year_start y = 365 * (y - 1970) + (y - 1969) div 4 - (y - 1901) div 100 + (y - 1601) div 400"

function find_year :: "int \<Rightarrow> nat \<Rightarrow> int \<times> nat" where
  "find_year y d = (if d < year_days y then (y, d) else find_year (y + 1) (d - year_days y))"
  by pat_completeness auto

termination
  by (relation "measure snd") (auto simp: year_days_def split: if_splits)

declare find_year.simps [simp del]

fun find_month :: "nat list \<Rightarrow> nat \<Rightarrow> nat \<times> nat" where
  "find_month [] d = (0, d)"
| "find_month (m # ms) d = (if d < m then (0, d) else let (k, r) = find_month ms (d - m) in (Suc k, r))"

definition civil :: "int \<Rightarrow> tm" where
  "civil t =
     (let days = t div 86400; s = t mod 86400;
          (y, yd) = find_year 1969 (nat (days + 365));
          (mo, md) = find_month (month_days y) yd
      in \<lparr>tm_sec = s mod 60, tm_min = s div 60 mod 60, tm_hour = s div 3600, tm_mday = int md + 1,
          tm_mon = int mo, tm_year = y - 1900, tm_wday = (days + 4) mod 7, tm_yday = int yd\<rparr>)"

definition MAX_TIME64 :: int where
  "MAX_TIME64 = 32535215999"

definition bad_tm :: tm where
  "bad_tm = \<lparr>tm_sec = - 1, tm_min = - 1, tm_hour = - 1, tm_mday = - 1, tm_mon = - 1, tm_year = - 1,
     tm_wday = - 1, tm_yday = - 1\<rparr>"

definition in_range :: "int \<Rightarrow> bool" where
  "in_range t \<longleftrightarrow> 0 \<le> t \<and> t \<le> MAX_TIME64"

definition gmtime64 :: "int \<Rightarrow> tm" where
  "gmtime64 t = (if in_range t then civil t else bad_tm)"

definition localtime64 :: "zone \<Rightarrow> int \<Rightarrow> tm" where
  "localtime64 z t = (if in_range t then civil (t + z_offset z t) else bad_tm)"

definition seconds_of :: "tm \<Rightarrow> int" where
  "seconds_of m =
     (let y = tm_year m + 1900 + tm_mon m div 12;
          days = year_start y + int (sum_list (take (nat (tm_mon m mod 12)) (month_days y))) + tm_mday m - 1
      in days * 86400 + tm_hour m * 3600 + tm_min m * 60 + tm_sec m)"

definition mkgmtime64 :: "tm \<Rightarrow> int \<times> tm" where
  "mkgmtime64 m = (let t = seconds_of m in if in_range t then (t, civil t) else (- 1, m))"

subsection \<open>CTimeSet\<close>

record time_set =
  tzSec :: int
  tGMT :: int
  tLocalT :: int
  tmGMT :: tm
  tmLocalT :: tm

definition CTimeSet_fresh :: time_set where
  "CTimeSet_fresh = (let z = \<lparr>tm_sec = 0, tm_min = 0, tm_hour = 0, tm_mday = 0, tm_mon = 0, tm_year = 0, tm_wday = 0, tm_yday = 0\<rparr>
     in \<lparr>tzSec = 0, tGMT = 0, tLocalT = 0, tmGMT = z, tmLocalT = z\<rparr>)"

definition SetTimeZone :: "zone \<Rightarrow> time_set \<Rightarrow> time_set" where
  "SetTimeZone z ts = ts\<lparr>tzSec := z_timezone z\<rparr>"

text \<open>\<open>now\<close> is the result of \<open>_time64\<close>.\<close>

definition SetTime_now :: "zone \<Rightarrow> int \<Rightarrow> time_set \<Rightarrow> time_set" where
  "SetTime_now z now ts =
     (let (t, m) = mkgmtime64 (localtime64 z now)
      in ts\<lparr>tGMT := now, tmGMT := gmtime64 now, tmLocalT := m, tLocalT := t\<rparr>)"

definition SetTime :: "int \<Rightarrow> bool \<Rightarrow> time_set \<Rightarrow> time_set" where
  "SetTime tTime bLocal ts =
     (if bLocal
      then ts\<lparr>tGMT := tTime + tzSec ts, tLocalT := tTime, tmGMT := gmtime64 (tTime + tzSec ts), tmLocalT := gmtime64 tTime\<rparr>
      else ts\<lparr>tGMT := tTime, tLocalT := tTime - tzSec ts, tmGMT := gmtime64 tTime, tmLocalT := gmtime64 (tTime - tzSec ts)\<rparr>)"

text \<open>What both remaining variants do once the fields are in a \<open>tm\<close>; \<open>mk\<close> is \<open>_mktime64\<close>.\<close>

definition SetTime_tm :: "zone \<Rightarrow> (tm \<Rightarrow> int) \<Rightarrow> tm \<Rightarrow> bool \<Rightarrow> time_set \<Rightarrow> time_set" where
  "SetTime_tm z mk tmTime bLocal ts =
     (let gmt = (if bLocal then fst (mkgmtime64 tmTime) + tzSec ts else mk tmTime);
          (t, m) = mkgmtime64 (localtime64 z gmt)
      in ts\<lparr>tGMT := gmt, tmGMT := gmtime64 gmt, tmLocalT := m, tLocalT := t\<rparr>)"

definition SetTime_fields ::
  "zone \<Rightarrow> (tm \<Rightarrow> int) \<Rightarrow> int \<Rightarrow> int \<Rightarrow> int \<Rightarrow> int \<Rightarrow> int \<Rightarrow> int \<Rightarrow> bool \<Rightarrow> time_set \<Rightarrow> time_set" where
  "SetTime_fields z mk nYear nMon nDay nHour nMin nSec bLocal ts =
     SetTime_tm z mk \<lparr>tm_sec = nSec, tm_min = nMin, tm_hour = nHour, tm_mday = nDay, tm_mon = nMon - 1,
       tm_year = nYear - 1900, tm_wday = 0, tm_yday = 0\<rparr> bLocal ts"

text \<open>
  The variant with an initializer list: the loop runs while the index is below the length of the list \<^emph>\<open>or\<close>
  below 6, reading the list and writing the vector of 6 entries at each index.
\<close>

function copy_list :: "int list \<Rightarrow> int list \<Rightarrow> nat \<Rightarrow> int list option" where
  "copy_list xs t idx =
     (if idx < length xs \<or> idx < 6
      then if idx < length xs \<and> idx < length t then copy_list xs (t[idx := xs ! idx]) (idx + 1) else None
      else Some t)"
  by pat_completeness auto

termination
  by (relation "measure (\<lambda>(xs, t, idx). length xs - idx)") auto

declare copy_list.simps [simp del]

definition SetTime_list :: "zone \<Rightarrow> (tm \<Rightarrow> int) \<Rightarrow> int list \<Rightarrow> bool \<Rightarrow> time_set \<Rightarrow> time_set option" where
  "SetTime_list z mk yyMMddhhmmss bLocal ts = do {
     t \<leftarrow> copy_list yyMMddhhmmss [1900, 1, 0, 0, 0, 0] 0;
     Some (SetTime_tm z mk \<lparr>tm_sec = t ! 5, tm_min = t ! 4, tm_hour = t ! 3, tm_mday = t ! 2, tm_mon = t ! 1 - 1,
       tm_year = t ! 0 - 1900, tm_wday = 0, tm_yday = 0\<rparr> bLocal ts) }"

definition SetTime_timestamp ::
  "zone \<Rightarrow> (tm \<Rightarrow> int) \<Rightarrow> int \<times> int \<times> int \<times> int \<times> int \<times> int \<Rightarrow> bool \<Rightarrow> time_set \<Rightarrow> time_set option" where
  "SetTime_timestamp z mk = (\<lambda>(y, mo, d, h, mi, s). SetTime_list z mk [y, mo, d, h, mi, s])"

definition CTimeSet :: "zone \<Rightarrow> int \<Rightarrow> time_set" where
  "CTimeSet z now = SetTime_now z now (SetTimeZone z CTimeSet_fresh)"

definition CTimeSet_time :: "zone \<Rightarrow> int \<Rightarrow> bool \<Rightarrow> time_set" where
  "CTimeSet_time z tTime bLocal = SetTime tTime bLocal (SetTimeZone z CTimeSet_fresh)"

definition CTimeSet_list :: "zone \<Rightarrow> (tm \<Rightarrow> int) \<Rightarrow> int list \<Rightarrow> bool \<Rightarrow> time_set option" where
  "CTimeSet_list z mk xs bLocal = SetTime_list z mk xs bLocal (SetTimeZone z CTimeSet_fresh)"

definition CTimeSet_fields ::
  "zone \<Rightarrow> (tm \<Rightarrow> int) \<Rightarrow> int \<Rightarrow> int \<Rightarrow> int \<Rightarrow> int \<Rightarrow> int \<Rightarrow> int \<Rightarrow> bool \<Rightarrow> time_set" where
  "CTimeSet_fields z mk nYear nMonth nDay nHour nMin nSec bLocal =
     SetTime_fields z mk nYear nMonth nDay nHour nMin nSec bLocal (SetTimeZone z CTimeSet_fresh)"

definition CTimeSet_timestamp :: "zone \<Rightarrow> (tm \<Rightarrow> int) \<Rightarrow> int \<times> int \<times> int \<times> int \<times> int \<times> int \<Rightarrow> bool \<Rightarrow> time_set" where
  "CTimeSet_timestamp z mk = (\<lambda>(y, mo, d, h, mi, s) bLocal.
     SetTime_fields z mk y mo d h mi s bLocal (SetTimeZone z CTimeSet_fresh))"

definition ConvertLC2GM :: "time_set \<Rightarrow> int \<Rightarrow> int" where
  "ConvertLC2GM ts tTime = tTime + tzSec ts"

definition ConvertLC2GM_tm :: "time_set \<Rightarrow> tm \<Rightarrow> int" where
  "ConvertLC2GM_tm ts tmLocal = fst (mkgmtime64 tmLocal) + tzSec ts"

definition GetTime :: "bool \<Rightarrow> time_set \<Rightarrow> int" where
  "GetTime local ts = (if local then tLocalT ts else tGMT ts)"

definition GetTimeTM :: "bool \<Rightarrow> time_set \<Rightarrow> tm" where
  "GetTimeTM local ts = (if local then tmLocalT ts else tmGMT ts)"

definition GetYear :: "bool \<Rightarrow> time_set \<Rightarrow> int" where
  "GetYear bLocal ts = (if bLocal then tm_year (tmLocalT ts) else tm_year (tmGMT ts)) + 1900"

definition GetMonth :: "bool \<Rightarrow> time_set \<Rightarrow> int" where
  "GetMonth bLocal ts = (if bLocal then tm_mon (tmLocalT ts) + 1 else tm_mon (tmGMT ts) + 1)"

definition GetDay :: "bool \<Rightarrow> time_set \<Rightarrow> int" where
  "GetDay bLocal ts = (if bLocal then tm_mday (tmLocalT ts) else tm_mday (tmGMT ts))"

definition GetHour :: "bool \<Rightarrow> time_set \<Rightarrow> int" where
  "GetHour bLocal ts = (if bLocal then tm_hour (tmLocalT ts) else tm_hour (tmGMT ts))"

definition GetMin :: "bool \<Rightarrow> time_set \<Rightarrow> int" where
  "GetMin bLocal ts = (if bLocal then tm_min (tmLocalT ts) else tm_min (tmGMT ts))"

definition GetSec :: "bool \<Rightarrow> time_set \<Rightarrow> int" where
  "GetSec bLocal ts = (if bLocal then tm_sec (tmLocalT ts) else tm_sec (tmGMT ts))"

subsection \<open>The calendar functions are inverse to each other\<close>

lemma div_succ:
  assumes "0 < (m :: int)"
  shows "(x + 1) div m = x div m + (if (x + 1) mod m = 0 then 1 else 0)"
proof (cases "(x + 1) mod m = 0")
  case True
  then have "x = m * ((x + 1) div m - 1) + (m - 1)" using mult_div_mod_eq [of m "x + 1"] by (simp add: algebra_simps)
  then have "x div m = (x + 1) div m - 1" using assms int_div_pos_eq [of x m "(x + 1) div m - 1" "m - 1"] by simp
  then show ?thesis using True by simp
next
  case False
  have "x mod m < m" "0 \<le> x mod m" using assms by simp_all
  moreover have "x mod m \<noteq> m - 1"
  proof
    assume "x mod m = m - 1"
    then have "(x + 1) mod m = m mod m" by (metis mod_add_left_eq diff_add_cancel)
    then show False using False by simp
  qed
  moreover have "x + 1 = m * (x div m) + (x mod m + 1)" by simp
  ultimately have "(x + 1) div m = x div m"
    using int_div_pos_eq [of "x + 1" m "x div m" "x mod m + 1"] by linarith
  then show ?thesis using False by simp
qed

lemma leap_count:
  fixes D A B C :: int
  assumes "c400 \<longrightarrow> c100" and "c100 \<longrightarrow> c4"
  shows "D + 365 + (A + (if c4 then 1 else 0)) - (B + (if c100 then 1 else 0)) + (C + (if c400 then 1 else 0)) =
    D + A - B + C + int (if c4 \<and> (\<not> c100 \<or> c400) then 366 else 365)"
  using assms by (cases c4; cases c100; cases c400) simp_all

lemma year_start_Suc: "year_start (y + 1) = year_start y + int (year_days y)"
proof -
  have m: "(y - 1968) mod 4 = 0 \<longleftrightarrow> y mod 4 = 0" "(y - 1900) mod 100 = 0 \<longleftrightarrow> y mod 100 = 0"
    "(y - 1600) mod 400 = 0 \<longleftrightarrow> y mod 400 = 0"
    using dvd_diff_left_iff [of "4 :: int" 1968 y] dvd_diff_left_iff [of "100 :: int" 1900 y]
      dvd_diff_left_iff [of "400 :: int" 1600 y] by (simp_all add: mod_eq_0_iff_dvd)
  have d: "y mod 400 = 0 \<longrightarrow> y mod 100 = 0" "y mod 100 = 0 \<longrightarrow> y mod 4 = 0"
    using dvd_trans [of "100 :: int" 400 y] dvd_trans [of "4 :: int" 100 y] by (simp_all add: mod_eq_0_iff_dvd)
  have e: "y + 1 - 1969 = y - 1968" "y + 1 - 1901 = y - 1900" "y + 1 - 1601 = y - 1600"
    "y - 1969 + 1 = y - 1968" "y - 1901 + 1 = y - 1900" "y - 1601 + 1 = y - 1600"
    "365 * (y + 1 - 1970) = 365 * (y - 1970) + 365" by simp_all
  note q = div_succ [of 4 "y - 1969"] div_succ [of 100 "y - 1901"] div_succ [of 400 "y - 1601"]
  have q': "(y - 1968) div 4 = (y - 1969) div 4 + (if y mod 4 = 0 then 1 else 0)"
    "(y - 1900) div 100 = (y - 1901) div 100 + (if y mod 100 = 0 then 1 else 0)"
    "(y - 1600) div 400 = (y - 1601) div 400 + (if y mod 400 = 0 then 1 else 0)"
    using q [unfolded e m] by (simp_all only: zero_less_numeral simp_thms)
  show ?thesis
    unfolding year_start_def year_days_def is_leap_def e q' by (rule leap_count [OF d])
qed

lemma year_days_pos [simp]: "0 < year_days y"
  by (simp add: year_days_def)

lemma sum_month_days: "sum_list (month_days y) = year_days y"
  by (simp add: month_days_def year_days_def)

lemma find_year_sound:
  "find_year y d = (y', r) \<Longrightarrow> year_start y' + int r = year_start y + int d \<and> r < year_days y' \<and> y \<le> y'"
proof (induction y d rule: find_year.induct)
  case (1 y d)
  show ?case
  proof (cases "d < year_days y")
    case True
    then show ?thesis using 1(2) by (simp add: find_year.simps [of y d])
  next
    case False
    then have "find_year (y + 1) (d - year_days y) = (y', r)" using 1(2) by (simp add: find_year.simps [of y d])
    then show ?thesis using 1(1) [OF False] False year_start_Suc [of y] by auto
  qed
qed

lemma find_year_complete:
  "r < year_days (y + int n) \<Longrightarrow> find_year y (nat (year_start (y + int n) - year_start y) + r) = (y + int n, r)"
proof (induction n arbitrary: y)
  case 0
  then show ?case by (simp add: find_year.simps)
next
  case (Suc n)
  have e: "y + 1 + int n = y + int (Suc n)" by simp
  have mono: "year_start z \<le> year_start (z + int k)" for z k
  proof (induction k)
    case (Suc k)
    then show ?case using year_start_Suc [of "z + int k"] by (simp add: add.assoc add.commute [of 1])
  qed simp
  have "year_start (y + 1) \<le> year_start (y + int (Suc n))" using mono [of "y + 1" n] by (simp add: e)
  then have "nat (year_start (y + int (Suc n)) - year_start y) + r =
      year_days y + (nat (year_start (y + int (Suc n)) - year_start (y + 1)) + r)"
    using year_start_Suc [of y] by simp
  then show ?case
    using Suc.IH [of "y + 1"] Suc.prems by (subst find_year.simps) (simp add: e)
qed

lemma find_month_sound:
  "find_month ms d = (k, r) \<Longrightarrow> d < sum_list ms \<Longrightarrow> k < length ms \<and> r < ms ! k \<and> sum_list (take k ms) + r = d"
proof (induction ms arbitrary: d k)
  case (Cons m ms)
  show ?case
  proof (cases "d < m")
    case False
    obtain j where j: "find_month ms (d - m) = (j, r)" "k = Suc j"
      using Cons.prems(1) False by (auto split: prod.splits)
    moreover have "j < length ms \<and> r < ms ! j \<and> sum_list (take j ms) + r = d - m"
      using Cons.prems(2) False by (intro Cons.IH [OF j(1)]) auto
    ultimately show ?thesis using False by auto
  qed (use Cons.prems in auto)
qed simp

lemma find_month_complete:
  "k < length ms \<Longrightarrow> r < ms ! k \<Longrightarrow> find_month ms (sum_list (take k ms) + r) = (k, r)"
proof (induction ms arbitrary: k)
  case (Cons m ms)
  then show ?case by (cases k) auto
qed simp

lemma year_start_1969: "year_start 1969 = - 365"
  by (simp add: year_start_def)

text \<open>A date and time of day with all fields in range.\<close>

definition valid_tm :: "tm \<Rightarrow> bool" where
  "valid_tm m \<longleftrightarrow> 1969 \<le> tm_year m + 1900 \<and> 0 \<le> tm_mon m \<and> tm_mon m < 12 \<and> 1 \<le> tm_mday m \<and>
     tm_mday m \<le> int (month_days (tm_year m + 1900) ! nat (tm_mon m)) \<and>
     0 \<le> tm_hour m \<and> tm_hour m < 24 \<and> 0 \<le> tm_min m \<and> tm_min m < 60 \<and> 0 \<le> tm_sec m \<and> tm_sec m < 60"

definition fields_of :: "tm \<Rightarrow> int \<times> int \<times> int \<times> int \<times> int \<times> int" where
  "fields_of m = (tm_year m, tm_mon m, tm_mday m, tm_hour m, tm_min m, tm_sec m)"

lemma length_month_days [simp]: "length (month_days y) = 12"
  by (simp add: month_days_def)

lemma day_parts: "(s div 3600) * 3600 + (s div 60 mod 60) * 60 + s mod 60 = (s :: int)"
proof -
  have "s div 3600 = s div 60 div 60" by (simp add: div_mult2_eq [symmetric] zdiv_zmult2_eq [symmetric])
  moreover have "60 * (s div 60 div 60) + s div 60 mod 60 = s div 60" "60 * (s div 60) + s mod 60 = s" by simp_all
  moreover have "a * 3600 + b * 60 + c = t" if "60 * a + b = q" "60 * q + c = t" for a b c q t :: int
    using that by linarith
  ultimately show ?thesis by metis
qed

lemma day_parts_unique:
  assumes "0 \<le> h" "h < 24" "0 \<le> mi" "mi < 60" "0 \<le> s" "s < (60 :: int)"
  shows "(h * 3600 + mi * 60 + s) div 3600 = h" "(h * 3600 + mi * 60 + s) div 60 mod 60 = mi"
    "(h * 3600 + mi * 60 + s) mod 60 = s" "0 \<le> h * 3600 + mi * 60 + s" "h * 3600 + mi * 60 + s < 86400"
proof -
  have b: "0 \<le> mi * 60 + s" "mi * 60 + s < 3600" using assms by linarith+
  show "(h * 3600 + mi * 60 + s) div 3600 = h"
    using b int_div_pos_eq [of "h * 3600 + mi * 60 + s" 3600 h "mi * 60 + s"] by simp
  have d: "(h * 3600 + mi * 60 + s) div 60 = h * 60 + mi"
    using assms int_div_pos_eq [of "h * 3600 + mi * 60 + s" 60 "h * 60 + mi" s] by simp
  show "(h * 3600 + mi * 60 + s) div 60 mod 60 = mi" unfolding d using assms by simp
  show "(h * 3600 + mi * 60 + s) mod 60 = s"
    using mult_div_mod_eq [of 60 "h * 3600 + mi * 60 + s"] d by simp
  show "0 \<le> h * 3600 + mi * 60 + s" "h * 3600 + mi * 60 + s < 86400" using assms b by linarith+
qed

lemma seconds_civil:
  assumes "- (365 * 86400) \<le> t"
  shows "seconds_of (civil t) = t"
proof -
  obtain y yd where y: "find_year 1969 (nat (t div 86400 + 365)) = (y, yd)" by fastforce
  obtain mo md where m: "find_month (month_days y) yd = (mo, md)" by fastforce
  have "- 365 \<le> t div 86400" using assms by (simp add: zdiv_mono1 [of "- (365 * 86400)" t 86400, simplified])
  then have ys: "year_start y + int yd = t div 86400" "yd < year_days y"
    using find_year_sound [OF y] year_start_1969 by auto
  have ms: "mo < 12" "sum_list (take mo (month_days y)) + md = yd"
    using find_month_sound [OF m] ys(2) by (simp_all add: sum_month_days)
  let ?s = "t mod 86400"
  have mm: "int mo div 12 = 0" "nat (int mo mod 12) = mo" using ms(1) by simp_all
  have "seconds_of (civil t) =
      (year_start y + int (sum_list (take mo (month_days y))) + int md) * 86400 +
      (?s div 3600) * 3600 + (?s div 60 mod 60) * 60 + ?s mod 60"
    by (simp add: seconds_of_def civil_def y m mm Let_def)
  also have "\<dots> = (year_start y + int (sum_list (take mo (month_days y)) + md)) * 86400 +
      ((?s div 3600) * 3600 + (?s div 60 mod 60) * 60 + ?s mod 60)"
    by simp
  also have "\<dots> = (t div 86400) * 86400 + ?s" by (simp only: ms(2) ys(1) day_parts)
  finally show ?thesis by simp
qed

lemma civil_seconds:
  assumes v: "valid_tm m"
  shows "fields_of (civil (seconds_of m)) = fields_of m"
proof -
  let ?y = "tm_year m + 1900" and ?mo = "nat (tm_mon m)"
  let ?s = "tm_hour m * 3600 + tm_min m * 60 + tm_sec m"
  let ?yd = "sum_list (take ?mo (month_days ?y)) + nat (tm_mday m - 1)"
  let ?days = "year_start ?y + int ?yd"
  have s: "?s div 3600 = tm_hour m" "?s div 60 mod 60 = tm_min m" "?s mod 60 = tm_sec m" "0 \<le> ?s" "?s < 86400"
    using v by (auto simp: valid_tm_def intro!: day_parts_unique)
  have mo: "?mo < 12" "nat (tm_mday m - 1) < month_days ?y ! ?mo" "tm_mon m div 12 = 0" "tm_mon m mod 12 = tm_mon m"
    using v by (auto simp: valid_tm_def)
  have t: "seconds_of m = ?days * 86400 + ?s"
    using v by (simp add: seconds_of_def mo Let_def valid_tm_def)
  have td: "seconds_of m div 86400 = ?days" "seconds_of m mod 86400 = ?s"
    unfolding t using int_div_pos_eq [of "?days * 86400 + ?s" 86400 ?days ?s]
      int_mod_pos_eq [of "?days * 86400 + ?s" 86400 ?days ?s] s(4,5) by (simp_all only: mult.commute [of 86400])
  have fm: "find_month (month_days ?y) ?yd = (?mo, nat (tm_mday m - 1))"
    using find_month_complete [of ?mo "month_days ?y"] mo by simp
  have "?yd < sum_list (month_days ?y)"
  proof -
    have "sum_list (month_days ?y) = sum_list (take ?mo (month_days ?y)) + sum_list (drop ?mo (month_days ?y))"
      by (metis append_take_drop_id sum_list_append)
    moreover have "sum_list (drop ?mo (month_days ?y)) = month_days ?y ! ?mo + sum_list (drop (Suc ?mo) (month_days ?y))"
      using mo(1) by (simp add: Cons_nth_drop_Suc [symmetric])
    ultimately show ?thesis using mo(2) by linarith
  qed
  then have yd: "?yd < year_days ?y" by (simp add: sum_month_days)
  define n where "n = nat (?y - 1969)"
  have n: "?y = 1969 + int n" using v by (simp add: n_def valid_tm_def)
  have "find_year 1969 (nat (year_start ?y + 365) + ?yd) = (?y, ?yd)"
    using find_year_complete [of ?yd 1969 n] yd unfolding n [symmetric] year_start_1969 by simp
  moreover have "nat (?days + 365) = nat (year_start ?y + 365) + ?yd"
  proof -
    have "year_start 1969 \<le> year_start (1969 + int k)" for k
      by (induction k) (use year_start_Suc [of "1969 + int _"] in \<open>auto simp: add.assoc add.commute [of 1]\<close>)
    then have "- 365 \<le> year_start ?y" using year_start_1969 n by metis
    moreover have "nat (a + int b + 365) = nat (a + 365) + b" if "- 365 \<le> a" for a b using that by linarith
    ultimately show ?thesis by blast
  qed
  ultimately have fy: "find_year 1969 (nat (?days + 365)) = (?y, ?yd)" by metis
  have md: "int (nat (tm_mday m - 1)) + 1 = tm_mday m" "int ?mo = tm_mon m" using v by (simp_all add: valid_tm_def)
  show ?thesis
    unfolding civil_def Let_def td fy prod.case fm
    using md s by (simp add: fields_of_def)
qed

lemma mkgmtime_civil: "in_range t \<Longrightarrow> mkgmtime64 (civil t) = (t, civil t)"
  using seconds_civil [of t] by (simp add: mkgmtime64_def in_range_def)

lemma copy_list_spec:
  "idx \<le> 6 \<Longrightarrow> idx \<le> length xs \<Longrightarrow> length t = 6 \<Longrightarrow>
   copy_list xs t idx = (if length xs = 6 then Some (take idx t @ drop idx xs) else None)"
proof (induction "6 - idx" arbitrary: idx t)
  case 0
  then show ?case by (subst copy_list.simps) auto
next
  case (Suc n)
  show ?case
  proof (cases "idx < length xs")
    case True
    have "copy_list xs t idx = copy_list xs (t[idx := xs ! idx]) (idx + 1)"
      using True Suc by (subst copy_list.simps) auto
    also have "\<dots> = (if length xs = 6 then Some (take (idx + 1) (t[idx := xs ! idx]) @ drop (idx + 1) xs) else None)"
      using True Suc by (intro Suc.hyps(1)) auto
    finally show ?thesis
      using True Suc by (simp add: take_Suc_conv_app_nth Cons_nth_drop_Suc [symmetric] del: append.simps)
  next
    case False
    then show ?thesis using Suc by (subst copy_list.simps) auto
  qed
qed

subsection \<open>Properties\<close>

text \<open>
  The two views of a point in time agree.  After \<open>SetTime\<close> with a number of seconds, taken as local time
  or as GMT, the calendar fields of both views denote the seconds of that view, and converting the local view,
  as seconds or as fields, gives GMT.
\<close>

theorem timeset_views_agree:
  assumes "in_range (GetTime True ts)" and "in_range (GetTime False ts)" and "ts = SetTime tTime bLocal ts0"
  shows "seconds_of (GetTimeTM b ts) = GetTime b ts \<and> GetTime bLocal ts = tTime \<and>
    ConvertLC2GM ts (GetTime True ts) = GetTime False ts \<and>
    ConvertLC2GM_tm ts (GetTimeTM True ts) = GetTime False ts"
proof -
  have "seconds_of (civil t) = t" if "in_range t" for t
    using that seconds_civil [of t] by (simp add: in_range_def)
  then show ?thesis
    using assms mkgmtime_civil
    by (auto simp: SetTime_def GetTime_def GetTimeTM_def gmtime64_def ConvertLC2GM_def ConvertLC2GM_tm_def split: if_splits)
qed

theorem timeset_views_agree_witness:
  "seconds_of (GetTimeTM True (SetTime 1000000000 False (SetTimeZone \<lparr>z_timezone = - 32400, z_offset = (\<lambda>_. 32400)\<rparr> CTimeSet_fresh)))
   = 1000032400"
proof -
  let ?ts = "SetTime 1000000000 False (SetTimeZone \<lparr>z_timezone = - 32400, z_offset = (\<lambda>_. 32400)\<rparr> CTimeSet_fresh)"
  have r: "in_range (GetTime True ?ts)" "in_range (GetTime False ?ts)" "GetTime True ?ts = 1000032400"
    by (simp_all add: SetTime_def SetTimeZone_def GetTime_def in_range_def MAX_TIME64_def)
  then show ?thesis using timeset_views_agree [OF r(1,2) refl, of True] by simp
qed

text \<open>
  C31: A date that is set can be read back.  For a valid local date, the local view is off by the amount by
  which the zone's offset at that instant differs from the standard one, which the code uses; when they are
  the same, outside daylight saving, every getter returns the field that was set.
\<close>

theorem timeset_set_get:
  assumes v: "valid_tm \<lparr>tm_sec = s, tm_min = mi, tm_hour = h, tm_mday = d, tm_mon = mo - 1, tm_year = y - 1900,
      tm_wday = 0, tm_yday = 0\<rparr>"
    and t: "t = seconds_of \<lparr>tm_sec = s, tm_min = mi, tm_hour = h, tm_mday = d, tm_mon = mo - 1, tm_year = y - 1900,
      tm_wday = 0, tm_yday = 0\<rparr>"
    and r: "in_range t" "in_range (t + z_timezone z)"
    and dst: "dst = z_offset z (t + z_timezone z) + z_timezone z" "in_range (t + dst)"
    and ts: "ts = CTimeSet_fields z mk y mo d h mi s True"
  shows "GetTime True ts = t + dst \<and> GetTime False ts = t + z_timezone z \<and>
    (dst = 0 \<longrightarrow> GetYear True ts = y \<and> GetMonth True ts = mo \<and> GetDay True ts = d \<and>
      GetHour True ts = h \<and> GetMin True ts = mi \<and> GetSec True ts = s)"
proof -
  let ?m = "\<lparr>tm_sec = s, tm_min = mi, tm_hour = h, tm_mday = d, tm_mon = mo - 1, tm_year = y - 1900, tm_wday = 0, tm_yday = 0\<rparr>"
  have mk: "fst (mkgmtime64 ?m) = t" using r(1) t by (simp add: mkgmtime64_def Let_def)
  have sum: "t + z_timezone z + z_offset z (t + z_timezone z) = t + dst" using dst(1) by simp
  have lt: "mkgmtime64 (localtime64 z (t + z_timezone z)) = (t + dst, civil (t + dst))"
    using r(2) mkgmtime_civil [OF dst(2)] by (simp only: localtime64_def sum if_True)
  have set: "GetTime True ts = t + dst" "GetTime False ts = t + z_timezone z" "tmLocalT ts = civil (t + dst)"
    using mk lt by (simp_all add: ts CTimeSet_fields_def SetTime_fields_def SetTime_tm_def SetTimeZone_def GetTime_def Let_def)
  have "fields_of (civil t) = fields_of ?m" using civil_seconds [OF v] t by simp
  then show ?thesis
    using set by (auto simp: fields_of_def GetYear_def GetMonth_def GetDay_def GetHour_def GetMin_def GetSec_def)
qed

theorem timeset_set_get_witness:
  "GetMonth True (CTimeSet_fields \<lparr>z_timezone = - 32400, z_offset = (\<lambda>_. 32400)\<rparr> (\<lambda>_. 0) 2024 2 29 12 30 0 True) = 2 \<and>
   GetDay True (CTimeSet_fields \<lparr>z_timezone = - 32400, z_offset = (\<lambda>_. 32400)\<rparr> (\<lambda>_. 0) 2024 2 29 12 30 0 True) = 29"
proof -
  let ?z = "\<lparr>z_timezone = - 32400, z_offset = (\<lambda>_. 32400)\<rparr>"
  let ?m = "\<lparr>tm_sec = 0, tm_min = 30, tm_hour = 12, tm_mday = 29, tm_mon = 2 - 1, tm_year = 2024 - 1900, tm_wday = 0, tm_yday = 0\<rparr>"
  have v: "valid_tm ?m" by (simp add: valid_tm_def month_days_def is_leap_def)
  have t: "seconds_of ?m = 1709209800" by (simp add: seconds_of_def year_start_def month_days_def)
  have r: "in_range (seconds_of ?m)" "in_range (seconds_of ?m + z_timezone ?z)"
    "in_range (seconds_of ?m + (z_offset ?z (seconds_of ?m + z_timezone ?z) + z_timezone ?z))"
    unfolding t by (simp_all add: in_range_def MAX_TIME64_def)
  show ?thesis using timeset_set_get [OF v refl r(1,2) refl r(3) refl, of "\<lambda>_. 0"] by simp
qed

text \<open>
  The list variant of \<open>SetTime\<close> is defined for lists of exactly six values, where it does what the
  variant with six arguments does; its loop reads past a shorter list and writes past its vector for a
  longer one.
\<close>

theorem timeset_list_six:
  "SetTime_list z mk xs bLocal ts =
     (if length xs = 6 then Some (SetTime_fields z mk (xs ! 0) (xs ! 1) (xs ! 2) (xs ! 3) (xs ! 4) (xs ! 5) bLocal ts)
      else None)"
  using copy_list_spec [of 0 xs "[1900, 1, 0, 0, 0, 0]"]
  by (simp add: SetTime_list_def SetTime_fields_def)

end
