(* ===== verification/File_Log.thy ===== *)
theory File_Log
  imports Time_Set
begin

text \<open>
  \<^verbatim>\<open>_lib/log.h\<close>, \<^verbatim>\<open>log.cpp\<close> and the formatting functions of \<^verbatim>\<open>util_String.cpp\<close>: log lines are queued and written
  to a file named after the day in batches.  The text a format produces is computed; \<open>FormatA\<close> and \<open>FormatW\<close>
  call \<open>_vsnprintf_s\<close> with a count as large as the buffer, so a text that does not fit ends the process
  (\<open>None\<close>).  The log files, the console, the clock, the access rights and whether a file can be opened are
  explicit.
\<close>

definition BUFFER_MAX :: nat where
  "BUFFER_MAX = 1024 * 10"

definition FormatA :: "string \<Rightarrow> string option" where
  "FormatA text = (if length text < BUFFER_MAX then Some text else None)"

definition FormatW :: "string \<Rightarrow> string option" where
  "FormatW text = (if length text < BUFFER_MAX then Some text else None)"

subsection \<open>FileLogger\<close>

datatype eLogDivideType = Day | Hour | Min

datatype eLogLevel = Debug | Info | Normal | Warning | Error | Crirical

fun level_code :: "eLogLevel \<Rightarrow> nat" where
  "level_code Debug = 0"
| "level_code Info = 1"
| "level_code Normal = 2"
| "level_code Warning = 3"
| "level_code Error = 4"
| "level_code Crirical = 5"

record file_logger =
  wstrFileName :: string
  eDivideType :: eLogDivideType
  msgQueue :: "string list"
  maxQueueSize :: int
  logLevel :: eLogLevel
  files :: "string \<rightharpoonup> string list"
  screen :: "string list"

record log_env =
  le_time :: time_set
  le_writable :: "string \<Rightarrow> bool"
  le_open :: bool
  le_error :: int

definition FileLogger :: "string \<Rightarrow> (string \<rightharpoonup> string list) \<Rightarrow> file_logger" where
  "FileLogger program fs = \<lparr>wstrFileName = program, eDivideType = Day, msgQueue = [], maxQueueSize = 20, logLevel = Debug,
     files = fs, screen = []\<rparr>"

definition SetLogFile :: "string \<Rightarrow> file_logger \<Rightarrow> file_logger" where
  "SetLogFile n lg = lg\<lparr>wstrFileName := n\<rparr>"

definition SetLogLevel :: "eLogLevel \<Rightarrow> file_logger \<Rightarrow> file_logger" where
  "SetLogLevel l lg = lg\<lparr>logLevel := l\<rparr>"

definition ConsoleWrite :: "eLogLevel \<Rightarrow> string \<Rightarrow> file_logger \<Rightarrow> file_logger" where
  "ConsoleWrite l text lg =
     (if level_code l < level_code (logLevel lg) then lg else lg\<lparr>screen := screen lg @ [text]\<rparr>)"

definition log_file_name :: "log_env \<Rightarrow> file_logger \<Rightarrow> string" where
  "log_file_name e lg =
     (let t = le_time e;
          day = ''log'' @ [CHR 0x5C] @ wstrFileName lg @ ''_'' @ zero_pad 4 (GetYear True t) @ ''-'' @
                zero_pad 2 (GetMonth True t) @ ''-'' @ zero_pad 2 (GetDay True t)
      in (case eDivideType lg of
            Day \<Rightarrow> day
          | Hour \<Rightarrow> day @ ''_'' @ zero_pad 2 (GetHour True t)
          | Min \<Rightarrow> day @ ''_'' @ zero_pad 2 (GetHour True t) @ ''-'' @ zero_pad 2 (GetMin True t)) @ ''.log'')"

text \<open>
  \<open>FileWrite\<close>: a file that cannot be accessed for writing, or does not exist, is opened with \<^verbatim>\<open>w\<close>, which
  empties it; otherwise the lines are appended.
\<close>

definition FileWrite :: "log_env \<Rightarrow> string list \<Rightarrow> file_logger \<Rightarrow> file_logger option" where
  "FileWrite e ls lg = do {
     name \<leftarrow> FormatW (log_file_name e lg);
     let old = (if files lg name \<noteq> None \<and> le_writable e name then the (files lg name) else []);
     if \<not> le_open e then do {
       m \<leftarrow> FormatW (''error: FileLogger::FileWrite(): log file open fail '' @ show_int (le_error e));
       Some (ConsoleWrite Error m lg) }
     else Some (lg\<lparr>files := (files lg)(name \<mapsto> old @ ls)\<rparr>) }"

definition Flush :: "log_env \<Rightarrow> bool \<Rightarrow> file_logger \<Rightarrow> file_logger option" where
  "Flush e bForce lg =
     (if bForce = False \<and> int (length (msgQueue lg)) < maxQueueSize lg then Some lg
      else FileWrite e (msgQueue lg) (lg\<lparr>msgQueue := []\<rparr>))"

definition AddMessage :: "log_env \<Rightarrow> string \<Rightarrow> file_logger \<Rightarrow> file_logger option" where
  "AddMessage e text lg =
     (if maxQueueSize lg \<le> 1 then FileWrite e [text] lg
      else Flush e False (lg\<lparr>msgQueue := msgQueue lg @ [text]\<rparr>))"

definition log_text :: "log_env \<Rightarrow> string \<Rightarrow> string" where
  "log_text e str =
     (let t = le_time e
      in zero_pad 2 (GetHour True t) @ '':'' @ zero_pad 2 (GetMin True t) @ '':'' @ zero_pad 2 (GetSec True t) @ '' '' @ str)"

definition Log_Write :: "log_env \<Rightarrow> eLogLevel \<Rightarrow> string \<Rightarrow> file_logger \<Rightarrow> file_logger option" where
  "Log_Write e l str lg = do {
     text \<leftarrow> FormatW (log_text e str);
     lg \<leftarrow> AddMessage e text lg;
     Some (ConsoleWrite l text lg) }"

definition FileLogger_destroy :: "log_env \<Rightarrow> file_logger \<Rightarrow> file_logger option" where
  "FileLogger_destroy e lg = Flush e False lg"

subsection \<open>The functions the programs call\<close>

definition tagged :: "string \<Rightarrow> string \<Rightarrow> string" where
  "tagged tag str = ''['' @ left_pad 8 tag @ ''] '' @ str"

definition Log :: "log_env \<Rightarrow> string \<Rightarrow> file_logger \<Rightarrow> file_logger option" where
  "Log e str lg = do { t \<leftarrow> FormatA (tagged ''normal'' str); Log_Write e Normal t lg }"

definition LogDebug :: "log_env \<Rightarrow> string \<Rightarrow> file_logger \<Rightarrow> file_logger option" where
  "LogDebug e str lg = do { t \<leftarrow> FormatA (tagged ''debug'' str); Log_Write e Debug t lg }"

definition LogInfo :: "log_env \<Rightarrow> string \<Rightarrow> file_logger \<Rightarrow> file_logger option" where
  "LogInfo e str lg = do { t \<leftarrow> FormatA (tagged ''info'' str); Log_Write e Info t lg }"

definition LogError :: "log_env \<Rightarrow> string \<Rightarrow> string \<Rightarrow> file_logger \<Rightarrow> file_logger option" where
  "LogError e str loc lg = do { t \<leftarrow> FormatA (tagged ''error'' (str @ '' '' @ ''Loc:'' @ loc)); Log_Write e Error t lg }"

text \<open>\<open>%8s\<close> adds nothing to the 11 letters of the tag.\<close>

definition PerformanceLog :: "log_env \<Rightarrow> string \<Rightarrow> file_logger \<Rightarrow> file_logger option" where
  "PerformanceLog e str lg = do { t \<leftarrow> FormatA (''[performance] '' @ str); Log_Write e Info t lg }"

text \<open>
  \<open>PacketLog\<close>: the bytes in hexadecimal, or the first 6 of them for a packet over 1024 bytes.  \<open>hex\<close> is what
  \<open>format\<close> makes of one \<open>char\<close> with the option \<open>02X\<close>; the result is \<open>None\<close> too when the data end before the
  size does.
\<close>

definition packet_text :: "(byte \<Rightarrow> string) \<Rightarrow> string \<Rightarrow> bytes \<Rightarrow> int \<Rightarrow> string option" where
  "packet_text hex str pPacketData nPacketDataSize =
     (if 1024 < nPacketDataSize
      then if 6 \<le> length pPacketData
           then Some (str @ concat (map hex (take 6 pPacketData)) @ ''. connot write packetlog. too long.'') else None
      else if nPacketDataSize \<le> int (length pPacketData)
           then Some (str @ concat (map hex (take (nat nPacketDataSize) pPacketData))) else None)"

definition PacketLog :: "log_env \<Rightarrow> (byte \<Rightarrow> string) \<Rightarrow> string \<Rightarrow> bytes \<Rightarrow> int \<Rightarrow> file_logger \<Rightarrow> file_logger option" where
  "PacketLog e hex str pPacketData nPacketDataSize lg = do {
     strBuffer \<leftarrow> packet_text hex str pPacketData nPacketDataSize;
     LogDebug e strBuffer lg }"

subsection \<open>Batches\<close>

fun run_log :: "(log_env \<times> eLogLevel \<times> string) list \<Rightarrow> file_logger \<Rightarrow> file_logger option" where
  "run_log [] lg = Some lg"
| "run_log ((e, l, str) # ws) lg = do { lg \<leftarrow> Log_Write e l str lg; run_log ws lg }"

definition log_lines :: "string \<Rightarrow> file_logger \<Rightarrow> string list" where
  "log_lines F lg = (case files lg F of None \<Rightarrow> [] | Some ls \<Rightarrow> ls)"

definition calm :: "string \<Rightarrow> file_logger \<Rightarrow> log_env \<times> eLogLevel \<times> string \<Rightarrow> bool" where
  "calm F lg = (\<lambda>(e, l, str). log_file_name e lg = F \<and> le_open e \<and> le_writable e F \<and> length (log_text e str) < BUFFER_MAX)"

lemma log_file_name_cong:
  "wstrFileName lg = wstrFileName lg' \<Longrightarrow> eDivideType lg = eDivideType lg' \<Longrightarrow> log_file_name e lg = log_file_name e lg'"
  by (simp add: log_file_name_def)

lemma calm_cong:
  "wstrFileName lg = wstrFileName lg' \<Longrightarrow> eDivideType lg = eDivideType lg' \<Longrightarrow> calm F lg = calm F lg'"
  using log_file_name_cong [of lg lg'] by (auto simp: calm_def fun_eq_iff)

text \<open>One line: it joins the queue, or the queue is full and goes to the file with it.\<close>

lemma Log_Write_step:
  assumes c: "calm F lg (e, l, str)" and F: "length F < BUFFER_MAX" and m: "1 < maxQueueSize lg"
    and q: "int (length (msgQueue lg)) < maxQueueSize lg"
  shows "\<exists>lg'. Log_Write e l str lg = Some lg' \<and> wstrFileName lg' = wstrFileName lg \<and> eDivideType lg' = eDivideType lg \<and>
    maxQueueSize lg' = maxQueueSize lg \<and>
    (if int (length (msgQueue lg)) + 1 < maxQueueSize lg
     then msgQueue lg' = msgQueue lg @ [log_text e str] \<and> files lg' = files lg
     else msgQueue lg' = [] \<and> log_lines F lg' = log_lines F lg @ msgQueue lg @ [log_text e str] \<and>
       (\<forall>G. G \<noteq> F \<longrightarrow> files lg' G = files lg G))"
proof -
  let ?t = "log_text e str"
  have t: "FormatW ?t = Some ?t" "FormatW F = Some F" "log_file_name e lg = F"
    using c F by (simp_all add: calm_def FormatW_def)
  have n: "log_file_name e (lg\<lparr>msgQueue := q\<rparr>) = F" for q using t(3) log_file_name_cong [of "lg\<lparr>msgQueue := q\<rparr>" lg e] by simp
  show ?thesis
  proof (cases "int (length (msgQueue lg)) + 1 < maxQueueSize lg")
    case True
    then show ?thesis using t m by (simp add: Log_Write_def AddMessage_def Flush_def ConsoleWrite_def)
  next
    case False
    then show ?thesis
      using t n m c by (auto simp: Log_Write_def AddMessage_def Flush_def FileWrite_def ConsoleWrite_def Let_def calm_def log_lines_def)
  qed
qed

lemma run_log_batches:
  assumes "length F < BUFFER_MAX" and "list_all (calm F lg) ws" and "1 < maxQueueSize lg"
    and "int (length (msgQueue lg)) < maxQueueSize lg"
  shows "\<exists>lg' w. run_log ws lg = Some lg' \<and> log_lines F lg' = log_lines F lg @ w \<and>
    w @ msgQueue lg' = msgQueue lg @ map (\<lambda>(e, l, str). log_text e str) ws \<and>
    maxQueueSize lg dvd int (length w) \<and> int (length (msgQueue lg')) < maxQueueSize lg \<and>
    maxQueueSize lg' = maxQueueSize lg \<and> wstrFileName lg' = wstrFileName lg \<and> eDivideType lg' = eDivideType lg"
  using assms(2,3,4)
proof (induction ws arbitrary: lg)
  case (Cons x ws)
  obtain e l str where x: "x = (e, l, str)" by (cases x) auto
  have c: "calm F lg (e, l, str)" using Cons.prems x by simp
  obtain lg1 where s: "Log_Write e l str lg = Some lg1" "wstrFileName lg1 = wstrFileName lg" "eDivideType lg1 = eDivideType lg"
    "maxQueueSize lg1 = maxQueueSize lg"
    and cases: "if int (length (msgQueue lg)) + 1 < maxQueueSize lg
     then msgQueue lg1 = msgQueue lg @ [log_text e str] \<and> files lg1 = files lg
     else msgQueue lg1 = [] \<and> log_lines F lg1 = log_lines F lg @ msgQueue lg @ [log_text e str] \<and>
       (\<forall>G. G \<noteq> F \<longrightarrow> files lg1 G = files lg G)"
    using Log_Write_step [OF c assms(1) Cons.prems(2,3)] by blast
  have q1: "int (length (msgQueue lg1)) < maxQueueSize lg1"
    using cases s(4) Cons.prems(2) by (auto split: if_splits)
  have "list_all (calm F lg1) ws" using Cons.prems(1) calm_cong [OF s(2,3), of F] by simp
  then obtain lg' w where r: "run_log ws lg1 = Some lg'" "log_lines F lg' = log_lines F lg1 @ w"
    "w @ msgQueue lg' = msgQueue lg1 @ map (\<lambda>(e, l, str). log_text e str) ws"
    "maxQueueSize lg1 dvd int (length w)" "int (length (msgQueue lg')) < maxQueueSize lg1" "maxQueueSize lg' = maxQueueSize lg1"
    "wstrFileName lg' = wstrFileName lg1" "eDivideType lg' = eDivideType lg1"
    using Cons.IH [of lg1] q1 Cons.prems(2) s(4) by auto
  show ?case
  proof (cases "int (length (msgQueue lg)) + 1 < maxQueueSize lg")
    case True
    then have "msgQueue lg1 = msgQueue lg @ [log_text e str]" "log_lines F lg1 = log_lines F lg"
      using cases by (simp_all add: log_lines_def)
    then show ?thesis using r s x by (intro exI [of _ lg'] exI [of _ w]) simp
  next
    case False
    then have l: "msgQueue lg1 = []" "log_lines F lg1 = log_lines F lg @ msgQueue lg @ [log_text e str]" using cases by simp_all
    have "int (length (msgQueue lg @ [log_text e str])) = maxQueueSize lg" using False Cons.prems(3) by simp
    then have "maxQueueSize lg dvd int (length (msgQueue lg @ [log_text e str] @ w))"
      using r(4) s(4) by (metis append_assoc dvd_add dvd_refl length_append of_nat_add)
    then show ?thesis using r s x l by (intro exI [of _ lg'] exI [of _ "msgQueue lg @ [log_text e str] @ w"]) simp
  qed
qed simp

lemma take_drop_batches:
  assumes "w @ q = xs" and "int n dvd int (length w)" and "int (length q) < int n"
  shows "w = take (n * (length xs div n)) xs" and "q = drop (n * (length xs div n)) xs"
proof -
  obtain k where k: "length w = n * k" using assms(2) by auto
  have "length xs div n = k" using assms(1,3) k by (auto simp: div_nat_eqI)
  then show "w = take (n * (length xs div n)) xs" and "q = drop (n * (length xs div n)) xs"
    using assms(1) k by auto
qed

subsection \<open>Lengths\<close>

lemma length_zero_pad_2 [simp]: "0 \<le> i \<Longrightarrow> i < 100 \<Longrightarrow> length (zero_pad 2 i) = 2"
proof -
  assume "0 \<le> i" "i < 100"
  then have "length (digits (nat i)) \<le> 2" using digits_bounds(1) [of "nat i" 1] by (simp add: nat_less_iff)
  with \<open>0 \<le> i\<close> show ?thesis by (simp add: zero_pad_def show_int_def Let_def)
qed

definition clock_ok :: "time_set \<Rightarrow> bool" where
  "clock_ok t \<longleftrightarrow> GetHour True t \<in> {0..<24} \<and> GetMin True t \<in> {0..<60} \<and> GetSec True t \<in> {0..<60}"

lemma length_log_text: "clock_ok (le_time e) \<Longrightarrow> length (log_text e str) = 9 + length str"
  by (simp add: log_text_def clock_ok_def Let_def)

lemma length_tagged: "length tag \<le> 8 \<Longrightarrow> length (tagged tag str) = 11 + length str"
  by (simp add: tagged_def left_pad_def)

text \<open>A text that leaves room for the time stamp is taken, every longer one ends the process.\<close>

lemma Log_Write_taken:
  assumes "1 < maxQueueSize lg" and "int (length (msgQueue lg)) + 1 < maxQueueSize lg" and "clock_ok (le_time e)"
  shows "Log_Write e l str lg \<noteq> None \<longleftrightarrow> length str + 9 < BUFFER_MAX"
  using assms by (simp add: Log_Write_def AddMessage_def Flush_def FormatW_def length_log_text)

lemma concat_length_le: "(\<And>x. length (f x) \<le> k) \<Longrightarrow> length (concat (map f xs)) \<le> k * length xs"
  by (induction xs) (auto simp: add_mono)

lemma length_packet_text:
  assumes "\<And>b. length (hex b) \<le> 4" and "packet_text hex str d n = Some text"
  shows "length text \<le> length str + 4096"
proof -
  have "length (concat (map hex (take m d))) \<le> 4 * m" for m
    using concat_length_le [of hex 4 "take m d"] assms(1) by (fastforce intro: le_trans)
  from this [of 6] this [of "nat n"] show ?thesis
    using assms(2) by (auto simp: packet_text_def split: if_splits)
qed

subsection \<open>Properties\<close>

text \<open>
  C37: What a logger leaves behind: the texts reach the file of the day in the order they were written and in full
  batches of 20 only.  Its destructor flushes without force, so the last up to 19 texts are never written;
  a forced flush at that point would have written them.
\<close>

theorem log_keeps_full_batches:
  fixes program :: string and fs :: "string \<rightharpoonup> string list"
  defines "lg0 \<equiv> FileLogger program fs"
  assumes F: "length F < BUFFER_MAX" and c: "list_all (calm F lg0) ws" and e: "calm F lg0 (e, Normal, [])"
  shows "\<exists>lg forced. let texts = map (\<lambda>(e, l, str). log_text e str) ws; kept = 20 * (length ws div 20)
    in run_log ws lg0 = Some lg \<and> FileLogger_destroy e lg = Some lg \<and>
       log_lines F lg = log_lines F lg0 @ take kept texts \<and> msgQueue lg = drop kept texts \<and>
       Flush e True lg = Some forced \<and> log_lines F forced = log_lines F lg0 @ texts"
proof -
  have l0: "maxQueueSize lg0 = 20" "msgQueue lg0 = []" by (simp_all add: lg0_def FileLogger_def)
  let ?t = "map (\<lambda>(e, l, str). log_text e str) ws"
  obtain lg w where r: "run_log ws lg0 = Some lg" "log_lines F lg = log_lines F lg0 @ w" "w @ msgQueue lg = ?t"
    "20 dvd int (length w)" "int (length (msgQueue lg)) < 20" "maxQueueSize lg = 20"
    and names: "wstrFileName lg = wstrFileName lg0" "eDivideType lg = eDivideType lg0"
    using run_log_batches [OF F c] l0 by auto
  have b: "w = take (20 * (length ws div 20)) ?t" "msgQueue lg = drop (20 * (length ws div 20)) ?t"
    using take_drop_batches [OF r(3), of 20] r(4,5) by simp_all
  have n: "log_file_name e (lg\<lparr>msgQueue := q\<rparr>) = F" for q
    using e names log_file_name_cong [of "lg\<lparr>msgQueue := q\<rparr>" lg0 e] by (simp add: calm_def)
  obtain forced where "Flush e True lg = Some forced" "log_lines F forced = log_lines F lg @ msgQueue lg"
    using e n F by (auto simp: Flush_def FileWrite_def FormatW_def Let_def calm_def log_lines_def split: option.splits)
  then show ?thesis
    using r b by (intro exI [of _ lg] exI [of _ forced]) (simp add: Let_def FileLogger_destroy_def Flush_def)
qed

definition noon :: log_env where
  "noon = \<lparr>le_time = CTimeSet_time \<lparr>z_timezone = 0, z_offset = \<lambda>_. 0\<rparr> 43200 False, le_writable = \<lambda>_. True, le_open = True, le_error = 0\<rparr>"

theorem log_keeps_full_batches_witness:
  "\<exists>lg. run_log (replicate 23 (noon, Normal, ''x'')) (FileLogger ''svr'' Map.empty) = Some lg \<and>
     FileLogger_destroy noon lg = Some lg \<and>
     log_lines (log_file_name noon (FileLogger ''svr'' Map.empty)) lg = replicate 20 ''12:00:00 x'' \<and>
     msgQueue lg = replicate 3 ''12:00:00 x''"
proof -
  let ?lg = "FileLogger ''svr'' Map.empty"
  let ?F = "log_file_name noon ?lg"
  have F: "?F = ''log'' @ [CHR 0x5C] @ ''svr_1970-01-01.log''" "log_text noon ''x'' = ''12:00:00 x''" "log_text noon [] = ''12:00:00 ''"
    "log_lines ?F ?lg = []" by code_simp+
  have "length ?F < BUFFER_MAX" "list_all (calm ?F ?lg) (replicate 23 (noon, Normal, ''x''))" "calm ?F ?lg (noon, Normal, [])"
    using F by (simp_all add: calm_def BUFFER_MAX_def list_all_iff) (simp_all add: noon_def)
  from log_keeps_full_batches [OF this] show ?thesis using F by (auto simp: Let_def)
qed

text \<open>
  The length limit: with room in the queue a debug line of at most 10219 characters is taken, and any
  longer one ends the process; a packet log whose prefix has at most 6123 characters is within the limit
  whatever the packet, if no byte prints as more than 4 characters and the size is that of the data.
\<close>

theorem log_length_limit:
  assumes "1 < maxQueueSize lg" and "int (length (msgQueue lg)) + 1 < maxQueueSize lg" and "clock_ok (le_time e)"
    and "\<And>b. length (hex b) \<le> 4"
  shows "(LogDebug e str lg = None \<longleftrightarrow> 10220 \<le> length str) \<and>
    (length str \<le> 6123 \<longrightarrow> PacketLog e hex str d (int (length d)) lg \<noteq> None)"
proof -
  have dbg: "LogDebug e s lg = None \<longleftrightarrow> 10220 \<le> length s" for s
    using Log_Write_taken [OF assms(1-3), of Debug "tagged ''debug'' s"]
    by (auto simp: LogDebug_def FormatA_def length_tagged BUFFER_MAX_def)
  obtain m where t: "packet_text hex str d (int (length d)) = Some m"
    by (cases "1024 < length d") (auto simp: packet_text_def)
  have "length m \<le> length str + 4096" using length_packet_text [OF assms(4) t] .
  then show ?thesis using dbg t by (auto simp: PacketLog_def)
qed

theorem log_length_limit_witness:
  "LogDebug noon (replicate 10220 CHR ''a'') (FileLogger ''svr'' Map.empty) = None \<and>
   LogDebug noon (replicate 10219 CHR ''a'') (FileLogger ''svr'' Map.empty) \<noteq> None \<and>
   PacketLog noon (\<lambda>_. ''00'') ''recv '' [0, 1] 2 (FileLogger ''svr'' Map.empty) \<noteq> None"
proof -
  let ?lg = "FileLogger ''svr'' Map.empty"
  have h: "1 < maxQueueSize ?lg" "int (length (msgQueue ?lg)) + 1 < maxQueueSize ?lg"
    by (simp_all add: FileLogger_def)
  have c: "clock_ok (le_time noon)" by code_simp
  note limit = log_length_limit [OF h c, of "\<lambda>_. ''00''"]
  show ?thesis
    using limit [of "replicate 10220 CHR ''a''"] limit [of "replicate 10219 CHR ''a''"] limit [of "''recv ''" "[0, 1]"] by simp
qed

end
