(* ===== verification/Log_Threads.thy ===== *)
theory Log_Threads
  imports File_Log "HOL-Library.Multiset"
begin

text \<open>
  One \<open>FileLogger\<close> used by several threads.  \<open>AddMessage\<close> and \<open>Flush\<close> are cut where another thread can come in:
  the push under \<open>_msgLock\<close>, the look at the size of the queue, which takes no lock, the exchange of the queue
  under \<open>_msgLock\<close>, and \<open>FileWrite\<close> under \<open>_fileLock\<close>.  The parameter is the condition on the surroundings of the
  writing thread at the moment of its write (the day, the access rights and whether the file opens).
\<close>

datatype log_pc = Outside | Pushed | Flushing | Writing "string list"

record log_threads =
  lt_logger :: file_logger
  lt_pc :: "nat \<Rightarrow> log_pc"
  lt_added :: "string list"

definition lt_start :: "file_logger \<Rightarrow> log_threads" where
  "lt_start lg = \<lparr>lt_logger = lg, lt_pc = (\<lambda>_. Outside), lt_added = []\<rparr>"

datatype log_event = Ev_Push string | Ev_Look | Ev_Swap | Ev_Write log_env

definition log_event_step :: "nat \<Rightarrow> log_event \<Rightarrow> log_threads \<Rightarrow> log_threads option" where
  "log_event_step t ev s =
     (let lg = lt_logger s in
      case (lt_pc s t, ev) of
        (Outside, Ev_Push wstr) \<Rightarrow>
          Some (s\<lparr>lt_logger := lg\<lparr>msgQueue := msgQueue lg @ [wstr]\<rparr>, lt_pc := (lt_pc s)(t := Pushed), lt_added := lt_added s @ [wstr]\<rparr>)
      | (Pushed, Ev_Look) \<Rightarrow>
          Some (s\<lparr>lt_pc := (lt_pc s)(t := if int (length (msgQueue lg)) < maxQueueSize lg then Outside else Flushing)\<rparr>)
      | (Flushing, Ev_Swap) \<Rightarrow>
          Some (s\<lparr>lt_logger := lg\<lparr>msgQueue := []\<rparr>, lt_pc := (lt_pc s)(t := Writing (msgQueue lg))\<rparr>)
      | (Writing ls, Ev_Write e) \<Rightarrow>
          map_option (\<lambda>lg'. s\<lparr>lt_logger := lg', lt_pc := (lt_pc s)(t := Outside)\<rparr>) (FileWrite e ls lg)
      | _ \<Rightarrow> None)"

text \<open>Runs of \<open>n\<close> threads in which every write meets an open file \<open>F\<close>.\<close>

inductive log_run :: "nat \<Rightarrow> string \<Rightarrow> log_threads \<Rightarrow> log_threads \<Rightarrow> bool" for n F where
  log_refl: "log_run n F s s"
| log_more: "log_run n F s s' \<Longrightarrow> log_event_step t ev s' = Some s'' \<Longrightarrow> t < n \<Longrightarrow>
    (\<And>e. ev = Ev_Write e \<Longrightarrow> calm F (lt_logger s') (e, Normal, [])) \<Longrightarrow> log_run n F s s''"

fun log_schedule :: "(nat \<times> log_event) list \<Rightarrow> log_threads \<Rightarrow> log_threads option" where
  "log_schedule [] s = Some s"
| "log_schedule ((t, ev) # evs) s = Option.bind (log_event_step t ev s) (log_schedule evs)"

fun in_flight :: "log_pc \<Rightarrow> string list" where
  "in_flight (Writing ls) = ls"
| "in_flight _ = []"

subsection \<open>One thread alone is AddMessage\<close>

lemma AddMessage_is_events:
  assumes "1 < maxQueueSize (lt_logger s)" and "lt_pc s t = Outside"
  shows "map_option lt_logger (log_schedule
      (if int (length (msgQueue (lt_logger s))) + 1 < maxQueueSize (lt_logger s) then [(t, Ev_Push wstr), (t, Ev_Look)]
       else [(t, Ev_Push wstr), (t, Ev_Look), (t, Ev_Swap), (t, Ev_Write e)]) s) =
    AddMessage e wstr (lt_logger s)"
  using assms by (auto simp: log_event_step_def AddMessage_def Flush_def Let_def split: option.splits bind_splits)

subsection \<open>Nothing is lost between threads\<close>

lemma FileWrite_calm:
  assumes "calm F lg (e, Normal, [])" and "length F < BUFFER_MAX"
  shows "FileWrite e ls lg = Some (lg\<lparr>files := (files lg)(F \<mapsto> log_lines F lg @ ls)\<rparr>)"
  using assms by (auto simp: FileWrite_def FormatW_def Let_def calm_def log_lines_def split: option.splits)

definition flights :: "nat \<Rightarrow> (nat \<Rightarrow> log_pc) \<Rightarrow> string multiset" where
  "flights n pc = (\<Sum>t<n. mset (in_flight (pc t)))"

lemma flights_update: "t < n \<Longrightarrow> flights n (pc(t := c)) + mset (in_flight (pc t)) = flights n pc + mset (in_flight c)"
proof -
  assume t: "t < n"
  have "(\<Sum>i\<in>{..<n} - {t}. mset (in_flight ((pc(t := c)) i))) = (\<Sum>i\<in>{..<n} - {t}. mset (in_flight (pc i)))"
    by (rule sum.cong) auto
  then show ?thesis
    using t by (simp add: flights_def sum.remove [of "{..<n}" t])
qed

definition lt_inv :: "nat \<Rightarrow> string \<Rightarrow> file_logger \<Rightarrow> log_threads \<Rightarrow> bool" where
  "lt_inv n F lg0 s \<longleftrightarrow>
     mset (log_lines F (lt_logger s)) + mset (msgQueue (lt_logger s)) + flights n (lt_pc s) =
       mset (log_lines F lg0) + mset (lt_added s) \<and>
     maxQueueSize (lt_logger s) = maxQueueSize lg0 \<and> 0 < maxQueueSize lg0 \<and>
     (maxQueueSize lg0 \<le> int (length (msgQueue (lt_logger s))) \<longrightarrow> (\<exists>t<n. lt_pc s t \<in> {Pushed, Flushing}))"

lemma lt_inv_start: "msgQueue lg = [] \<Longrightarrow> 0 < maxQueueSize lg \<Longrightarrow> lt_inv n F lg (lt_start lg)"
  by (simp add: lt_inv_def lt_start_def flights_def)

lemma log_lines_queue [simp]: "log_lines F (lg\<lparr>msgQueue := q\<rparr>) = log_lines F lg"
  by (simp add: log_lines_def)

lemma lt_inv_step:
  assumes i: "lt_inv n F lg0 s" and st: "log_event_step t ev s = Some s'" and t: "t < n" and F: "length F < BUFFER_MAX"
    and c: "\<And>e. ev = Ev_Write e \<Longrightarrow> calm F (lt_logger s) (e, Normal, [])"
  shows "lt_inv n F lg0 s'"
proof -
  note fl = flights_update [OF t, of "lt_pc s"]
  from i have m: "mset (log_lines F (lt_logger s)) + mset (msgQueue (lt_logger s)) + flights n (lt_pc s) =
      mset (log_lines F lg0) + mset (lt_added s)" and q: "maxQueueSize (lt_logger s) = maxQueueSize lg0" "0 < maxQueueSize lg0"
    and w: "maxQueueSize lg0 \<le> int (length (msgQueue (lt_logger s))) \<Longrightarrow> \<exists>t<n. lt_pc s t \<in> {Pushed, Flushing}"
    by (auto simp: lt_inv_def)
  show ?thesis
  proof (cases "lt_pc s t")
    case Outside
    with st obtain x where "ev = Ev_Push x" by (cases ev) (auto simp: log_event_step_def Let_def)
    with Outside st m q t fl [of Pushed] show ?thesis
      by (auto simp: log_event_step_def lt_inv_def Let_def ac_simps)
  next
    case Pushed
    with st have "ev = Ev_Look" by (cases ev) (auto simp: log_event_step_def Let_def)
    with Pushed st m q w t fl [of Outside] fl [of Flushing] show ?thesis
      by (auto simp: log_event_step_def lt_inv_def Let_def)
  next
    case Flushing
    with st have "ev = Ev_Swap" by (cases ev) (auto simp: log_event_step_def Let_def)
    with Flushing st m q t fl [of "Writing (msgQueue (lt_logger s))"] show ?thesis
      by (auto simp: log_event_step_def lt_inv_def Let_def ac_simps)
  next
    case (Writing ls)
    with st obtain e where ev: "ev = Ev_Write e" by (cases ev) (auto simp: log_event_step_def Let_def)
    have "s' = s\<lparr>lt_logger := (lt_logger s)\<lparr>files := (files (lt_logger s))(F \<mapsto> log_lines F (lt_logger s) @ ls)\<rparr>, lt_pc := (lt_pc s)(t := Outside)\<rparr>"
      using st ev Writing FileWrite_calm [OF c [OF ev] F] by (simp add: log_event_step_def Let_def)
    moreover have "mset (log_lines F (lt_logger s) @ ls) + mset (msgQueue (lt_logger s)) + flights n ((lt_pc s)(t := Outside)) =
        mset (log_lines F lg0) + mset (lt_added s)"
    proof -
      have "flights n (lt_pc s) = mset ls + flights n ((lt_pc s)(t := Outside))" using fl [of Outside] Writing by (simp add: ac_simps)
      then show ?thesis using m by (simp add: ac_simps)
    qed
    moreover have "\<exists>u<n. ((lt_pc s)(t := Outside)) u \<in> {Pushed, Flushing}" if "maxQueueSize lg0 \<le> int (length (msgQueue (lt_logger s)))"
      using w [OF that] Writing by force
    ultimately show ?thesis using q by (simp add: lt_inv_def log_lines_def)
  qed
qed

lemma lt_inv_run:
  assumes "log_run n F s s'" and "length F < BUFFER_MAX" and "lt_inv n F lg0 s"
  shows "lt_inv n F lg0 s'"
  using assms by (induction rule: log_run.induct) (auto intro: lt_inv_step)

subsection \<open>Properties\<close>

text \<open>
  C27: However the threads of a program interleave their log calls, no line is lost or doubled: what is in the
  file, waiting in the queue or taken by a thread for writing is, as a multiset, what was in the file before
  and was added since.  When no thread is inside the logger, fewer than 20 lines wait.
\<close>

theorem log_threads_lose_nothing:
  fixes program :: string and fs :: "string \<rightharpoonup> string list"
  defines "lg0 \<equiv> FileLogger program fs"
  assumes "log_run n F (lt_start lg0) s" and "length F < BUFFER_MAX"
  shows "mset (log_lines F (lt_logger s)) + mset (msgQueue (lt_logger s)) + (\<Sum>t<n. mset (in_flight (lt_pc s t))) =
      mset (log_lines F lg0) + mset (lt_added s) \<and>
    ((\<forall>t<n. lt_pc s t = Outside) \<longrightarrow> length (msgQueue (lt_logger s)) < 20)"
proof -
  have "maxQueueSize lg0 = 20" "msgQueue lg0 = []" by (simp_all add: lg0_def FileLogger_def)
  then have "lt_inv n F lg0 s" using lt_inv_run [OF assms(2,3)] lt_inv_start by simp
  with \<open>maxQueueSize lg0 = 20\<close> show ?thesis by (fastforce simp: lt_inv_def flights_def)
qed

subsection \<open>Schedules\<close>

lemma FileWrite_names: "FileWrite e ls lg = Some lg' \<Longrightarrow> wstrFileName lg' = wstrFileName lg \<and> eDivideType lg' = eDivideType lg"
  by (auto simp: FileWrite_def ConsoleWrite_def Let_def split: if_splits bind_splits)

lemma log_event_names:
  "log_event_step t ev s = Some s' \<Longrightarrow>
     wstrFileName (lt_logger s') = wstrFileName (lt_logger s) \<and> eDivideType (lt_logger s') = eDivideType (lt_logger s)"
  by (auto simp: log_event_step_def Let_def dest: FileWrite_names split: log_pc.splits log_event.splits if_splits)

definition event_ok :: "nat \<Rightarrow> string \<Rightarrow> file_logger \<Rightarrow> nat \<times> log_event \<Rightarrow> bool" where
  "event_ok n F lg = (\<lambda>(t, ev). t < n \<and> (case ev of Ev_Write e \<Rightarrow> calm F lg (e, Normal, []) | _ \<Rightarrow> True))"

lemma log_schedule_run:
  "log_run n F s0 s \<Longrightarrow> log_schedule evs s = Some s' \<Longrightarrow> list_all (event_ok n F (lt_logger s)) evs \<Longrightarrow> log_run n F s0 s'"
proof (induction evs arbitrary: s)
  case (Cons x evs)
  obtain t ev where x: "x = (t, ev)" by (cases x)
  with Cons.prems obtain s1 where s1: "log_event_step t ev s = Some s1" "log_schedule evs s1 = Some s'"
    by (auto split: bind_splits)
  have c: "calm F (lt_logger s1) = calm F (lt_logger s)"
    using calm_cong [of "lt_logger s1" "lt_logger s" F] log_event_names [OF s1(1)] by simp
  have "event_ok n F (lt_logger s1) = event_ok n F (lt_logger s)" unfolding event_ok_def c ..
  moreover have "log_run n F s0 s1"
    using Cons.prems(1,3) s1(1) x by (auto intro!: log_more [of n F s0 s t ev] simp: event_ok_def)
  ultimately show ?case using Cons.IH [of s1] s1(2) Cons.prems(3) by simp
qed simp

definition writes :: "nat \<Rightarrow> string list \<Rightarrow> (nat \<times> log_event) list" where
  "writes t xs = concat (map (\<lambda>x. [(t, Ev_Push x), (t, Ev_Look)]) xs)"

definition overtaking :: "(nat \<times> log_event) list" where
  "overtaking = writes 0 (replicate 20 ''a'') @ [(0, Ev_Swap)] @ writes 1 (replicate 20 ''b'') @
     [(1, Ev_Swap), (1, Ev_Write noon), (0, Ev_Write noon)]"

text \<open>The order is not kept: a batch can overtake one that was taken from the queue before it.\<close>

lemma log_batches_overtake:
  "map_option (\<lambda>s. (lt_added s, log_lines (''log'' @ [CHR 0x5C] @ ''svr_1970-01-01.log'') (lt_logger s)))
     (log_schedule overtaking (lt_start (FileLogger ''svr'' Map.empty))) =
   Some (replicate 20 ''a'' @ replicate 20 ''b'', replicate 20 ''b'' @ replicate 20 ''a'')"
  by code_simp

theorem log_threads_lose_nothing_witness:
  "\<exists>s. log_schedule overtaking (lt_start (FileLogger ''svr'' Map.empty)) = Some s \<and>
     mset (log_lines (''log'' @ [CHR 0x5C] @ ''svr_1970-01-01.log'') (lt_logger s)) + mset (msgQueue (lt_logger s)) +
       (\<Sum>t<2. mset (in_flight (lt_pc s t))) = mset (replicate 20 ''a'' @ replicate 20 ''b'')"
proof -
  let ?lg = "FileLogger ''svr'' Map.empty" and ?F = "''log'' @ [CHR 0x5C] @ ''svr_1970-01-01.log''"
  obtain s where s: "log_schedule overtaking (lt_start ?lg) = Some s" "lt_added s = replicate 20 ''a'' @ replicate 20 ''b''"
    using log_batches_overtake by auto
  have F: "log_file_name noon ?lg = ?F" "log_text noon [] = ''12:00:00 ''" "log_lines ?F ?lg = []" by code_simp+
  have len: "length ?F < BUFFER_MAX" by (simp add: BUFFER_MAX_def)
  have "calm ?F ?lg (noon, Normal, [])" using F by (simp add: calm_def BUFFER_MAX_def) (simp add: noon_def)
  then have "list_all (event_ok 2 ?F ?lg) overtaking"
    by (auto simp: overtaking_def writes_def event_ok_def list_all_iff)
  then have "log_run 2 ?F (lt_start ?lg) s"
    using log_schedule_run [OF log_refl s(1)] by (simp add: lt_start_def)
  from log_threads_lose_nothing [OF this len] show ?thesis using s F(3) by auto
qed

end
