(* ===== verification/Safe_Lock.thy ===== *)
theory Safe_Lock
  imports PL_Prelude
begin

text \<open>
  \<^verbatim>\<open>_lib/safe_lock.h\<close>, the variant on \<open>shared_mutex\<close> that the programs are built with, and threads that open and
  close scopes with its guards.  A thread is the list of what it does with guards from now on; the objects of a
  scope are destroyed in the reverse order, so the open guards of a thread are a stack.  Shown here: the guards
  exclude each other, their destructors always find the mutex they own, and threads that take locks in an
  order of ranks always run to their end.
\<close>

subsection \<open>shared_mutex\<close>

text \<open>
  Threads are numbers.  \<open>None\<close> of the two locking functions: the caller waits; of the unlocking ones: the
  behaviour is undefined, as the caller does not own the mutex.
\<close>

record shared_mutex =
  owner :: "nat option"
  sharers :: "nat list"

definition mutex_free :: shared_mutex where
  "mutex_free = \<lparr>owner = None, sharers = []\<rparr>"

definition mutex_lock :: "nat \<Rightarrow> shared_mutex \<Rightarrow> shared_mutex option" where
  "mutex_lock t m = (if owner m = None \<and> sharers m = [] then Some (m\<lparr>owner := Some t\<rparr>) else None)"

definition mutex_lock_shared :: "nat \<Rightarrow> shared_mutex \<Rightarrow> shared_mutex option" where
  "mutex_lock_shared t m = (if owner m = None then Some (m\<lparr>sharers := t # sharers m\<rparr>) else None)"

definition mutex_unlock :: "nat \<Rightarrow> shared_mutex \<Rightarrow> shared_mutex option" where
  "mutex_unlock t m = (if owner m = Some t then Some (m\<lparr>owner := None\<rparr>) else None)"

definition mutex_unlock_shared :: "nat \<Rightarrow> shared_mutex \<Rightarrow> shared_mutex option" where
  "mutex_unlock_shared t m = (if t \<in> set (sharers m) then Some (m\<lparr>sharers := remove1 t (sharers m)\<rparr>) else None)"

subsection \<open>The guards\<close>

record 'l safe_lock =
  sl_lock :: 'l
  sl_readOnly :: bool

definition SafeLock :: "nat \<Rightarrow> 'l \<Rightarrow> bool \<Rightarrow> shared_mutex \<Rightarrow> ('l safe_lock \<times> shared_mutex) option" where
  "SafeLock t lock readOnly m =
     (let g = \<lparr>sl_lock = lock, sl_readOnly = readOnly\<rparr>
      in if readOnly then map_option (Pair g) (mutex_lock_shared t m) else map_option (Pair g) (mutex_lock t m))"

definition SafeLock_destroy :: "nat \<Rightarrow> 'l safe_lock \<Rightarrow> shared_mutex \<Rightarrow> shared_mutex option" where
  "SafeLock_destroy t g m = (if sl_readOnly g then mutex_unlock_shared t m else mutex_unlock t m)"

definition ReadLock :: "nat \<Rightarrow> shared_mutex \<Rightarrow> shared_mutex option" where
  "ReadLock t m = mutex_lock_shared t m"

definition ReadLock_destroy :: "nat \<Rightarrow> shared_mutex \<Rightarrow> shared_mutex option" where
  "ReadLock_destroy t m = mutex_unlock_shared t m"

definition WriteLock :: "nat \<Rightarrow> shared_mutex \<Rightarrow> shared_mutex option" where
  "WriteLock t m = mutex_lock t m"

definition WriteLock_destroy :: "nat \<Rightarrow> shared_mutex \<Rightarrow> shared_mutex option" where
  "WriteLock_destroy t m = mutex_unlock t m"

subsection \<open>Threads\<close>

datatype 'l action = Enter 'l bool | Leave

record 'l system =
  mutexes :: "'l \<Rightarrow> shared_mutex"
  stacks :: "nat \<Rightarrow> 'l safe_lock list"
  todo :: "nat \<Rightarrow> 'l action list"

definition system_start :: "(nat \<Rightarrow> 'l action list) \<Rightarrow> 'l system" where
  "system_start p = \<lparr>mutexes = (\<lambda>_. mutex_free), stacks = (\<lambda>_. []), todo = p\<rparr>"

definition act :: "nat \<Rightarrow> 'l system \<Rightarrow> 'l system option" where
  "act t s =
     (case todo s t of
        [] \<Rightarrow> None
      | Enter l ro # p \<Rightarrow>
          (case SafeLock t l ro (mutexes s l) of
             None \<Rightarrow> None
           | Some (g, m) \<Rightarrow> Some \<lparr>mutexes = (mutexes s)(l := m), stacks = (stacks s)(t := g # stacks s t), todo = (todo s)(t := p)\<rparr>)
      | Leave # p \<Rightarrow>
          (case stacks s t of
             [] \<Rightarrow> None
           | g # gs \<Rightarrow>
               (case SafeLock_destroy t g (mutexes s (sl_lock g)) of
                  None \<Rightarrow> None
                | Some m \<Rightarrow> Some \<lparr>mutexes = (mutexes s)(sl_lock g := m), stacks = (stacks s)(t := gs), todo = (todo s)(t := p)\<rparr>)))"

inductive run :: "'l system \<Rightarrow> 'l system \<Rightarrow> bool" where
  run_refl: "run s s"
| run_act: "run s s' \<Longrightarrow> act t s' = Some s'' \<Longrightarrow> run s s''"

definition finished :: "'l system \<Rightarrow> bool" where
  "finished s \<longleftrightarrow> (\<forall>t. todo s t = [])"

definition deadlock :: "'l system \<Rightarrow> bool" where
  "deadlock s \<longleftrightarrow> \<not> finished s \<and> (\<forall>t. act t s = None)"

lemma run_trans: "run s' s'' \<Longrightarrow> run s s' \<Longrightarrow> run s s''"
  by (induction rule: run.induct) (auto intro: run.intros)

text \<open>A schedule: the threads that act, one after the other.\<close>

fun acts :: "nat list \<Rightarrow> 'l system \<Rightarrow> 'l system option" where
  "acts [] s = Some s"
| "acts (t # ts) s = Option.bind (act t s) (acts ts)"

lemma acts_run: "acts ts s = Some s' \<Longrightarrow> run s s'"
proof (induction ts arbitrary: s)
  case (Cons t ts)
  then obtain s1 where "act t s = Some s1" "acts ts s1 = Some s'" by (auto split: bind_splits)
  then show ?case using Cons.IH run_trans run_act [OF run_refl] by blast
qed (simp add: run_refl)

lemma deadlock_forever: "run s s' \<Longrightarrow> deadlock s \<Longrightarrow> s' = s"
  by (induction rule: run.induct) (auto simp: deadlock_def)

text \<open>The two steps a thread can take.\<close>

lemma act_cases [consumes 1, case_names enter leave]:
  assumes "act t s = Some s'"
  obtains l ro p m where "todo s t = Enter l ro # p" "(if ro then mutex_lock_shared t (mutexes s l) else mutex_lock t (mutexes s l)) = Some m"
      "s' = \<lparr>mutexes = (mutexes s)(l := m), stacks = (stacks s)(t := \<lparr>sl_lock = l, sl_readOnly = ro\<rparr> # stacks s t), todo = (todo s)(t := p)\<rparr>"
    | g gs p m where "todo s t = Leave # p" "stacks s t = g # gs" "SafeLock_destroy t g (mutexes s (sl_lock g)) = Some m"
      "s' = \<lparr>mutexes = (mutexes s)(sl_lock g := m), stacks = (stacks s)(t := gs), todo = (todo s)(t := p)\<rparr>"
  using assms
  by (auto simp: act_def SafeLock_def Let_def split: list.splits action.splits option.splits if_splits)

subsection \<open>The mutexes say who has guards\<close>

definition lock_inv :: "'l system \<Rightarrow> bool" where
  "lock_inv s \<longleftrightarrow>
     (\<forall>l t. count_list (stacks s t) \<lparr>sl_lock = l, sl_readOnly = False\<rparr> = (if owner (mutexes s l) = Some t then 1 else 0)) \<and>
     (\<forall>l t. count_list (stacks s t) \<lparr>sl_lock = l, sl_readOnly = True\<rparr> = count_list (sharers (mutexes s l)) t) \<and>
     (\<forall>l. owner (mutexes s l) \<noteq> None \<longrightarrow> sharers (mutexes s l) = [])"

lemma lock_inv_start: "lock_inv (system_start p)"
  by (simp add: lock_inv_def system_start_def mutex_free_def)

lemma count_remove1: "count_list (remove1 x xs) y = (if x = y then count_list xs y - 1 else count_list xs y)"
  by (induction xs) (auto simp: count_list_0_iff)

lemma lock_inv_act:
  assumes "act t s = Some s'" and "lock_inv s"
  shows "lock_inv s'"
  using assms(1)
proof (cases rule: act_cases)
  case (enter l ro p m)
  with assms(2) show ?thesis
    by (cases ro) (auto simp: lock_inv_def mutex_lock_def mutex_lock_shared_def split: if_splits)
next
  case (leave g gs p m)
  obtain l ro where g: "g = \<lparr>sl_lock = l, sl_readOnly = ro\<rparr>" by (cases g)
  have W: "count_list (stacks s u) \<lparr>sl_lock = k, sl_readOnly = False\<rparr> = (if owner (mutexes s k) = Some u then 1 else 0)"
    and R: "count_list (stacks s u) \<lparr>sl_lock = k, sl_readOnly = True\<rparr> = count_list (sharers (mutexes s k)) u"
    and O: "owner (mutexes s k) \<noteq> None \<Longrightarrow> sharers (mutexes s k) = []" for u k
    using assms(2) by (simp_all add: lock_inv_def)
  have t: "stacks s t = \<lparr>sl_lock = l, sl_readOnly = ro\<rparr> # gs" using leave(2) g by simp
  note Wt = W [of t, unfolded t count_list.simps] and Rt = R [of t, unfolded t count_list.simps]
  show ?thesis
  proof (cases ro)
    case True
    then have m: "m = (mutexes s l)\<lparr>sharers := remove1 t (sharers (mutexes s l))\<rparr>"
      using leave(3) g by (simp add: SafeLock_destroy_def mutex_unlock_shared_def split: if_splits)
    have "count_list gs \<lparr>sl_lock = k, sl_readOnly = True\<rparr> = (if k = l then count_list (sharers (mutexes s k)) t - 1 else count_list (sharers (mutexes s k)) t)" for k
      using Rt [of k] True by auto
    then show ?thesis using leave(4) g m W R O Wt True by (auto simp: lock_inv_def count_remove1)
  next
    case False
    then have m: "m = (mutexes s l)\<lparr>owner := None\<rparr>" and o: "owner (mutexes s l) = Some t"
      using leave(3) g by (auto simp: SafeLock_destroy_def mutex_unlock_def split: if_splits)
    have "count_list gs \<lparr>sl_lock = k, sl_readOnly = False\<rparr> = (if k \<noteq> l \<and> owner (mutexes s k) = Some t then 1 else 0)" for k
      using Wt [of k] o False by (auto split: if_splits)
    then show ?thesis using leave(4) g m o W R O Rt False by (auto simp: lock_inv_def)
  qed
qed

lemma lock_inv_run: "run s s' \<Longrightarrow> lock_inv s \<Longrightarrow> lock_inv s'"
  by (induction rule: run.induct) (auto intro: lock_inv_act)

lemma lock_inv_held:
  assumes "lock_inv s" and "owner (mutexes s l) = Some u \<or> u \<in> set (sharers (mutexes s l))"
  shows "l \<in> sl_lock ` set (stacks s u)"
proof -
  have "count_list (stacks s u) \<lparr>sl_lock = l, sl_readOnly = False\<rparr> \<noteq> 0 \<or> count_list (stacks s u) \<lparr>sl_lock = l, sl_readOnly = True\<rparr> \<noteq> 0"
    using assms by (auto simp: lock_inv_def count_list_0_iff)
  then show ?thesis by (force simp: count_list_0_iff image_iff)
qed

lemma lock_inv_destroy: "lock_inv s \<Longrightarrow> stacks s t = g # gs \<Longrightarrow> SafeLock_destroy t g (mutexes s (sl_lock g)) \<noteq> None"
proof -
  assume i: "lock_inv s" and t: "stacks s t = g # gs"
  obtain l ro where g: "g = \<lparr>sl_lock = l, sl_readOnly = ro\<rparr>" by (cases g)
  have "count_list (stacks s t) g > 0" using t by simp
  then have "if ro then count_list (sharers (mutexes s l)) t > 0 else owner (mutexes s l) = Some t"
    using i g by (cases ro) (auto simp: lock_inv_def split: if_splits)
  then show ?thesis
    using g count_list_0_iff [of "sharers (mutexes s l)" t]
    by (auto simp: SafeLock_destroy_def mutex_unlock_def mutex_unlock_shared_def split: if_splits)
qed

lemma lock_inv_free: "lock_inv s \<Longrightarrow> (\<And>t. stacks s t = []) \<Longrightarrow> mutexes s l = mutex_free"
proof -
  assume i: "lock_inv s" and e: "\<And>t. stacks s t = []"
  have "owner (mutexes s l) \<noteq> Some t" and "t \<notin> set (sharers (mutexes s l))" for t
    using lock_inv_held [OF i, of l t] e by auto
  then have "owner (mutexes s l) = None" "sharers (mutexes s l) = []"
    by (metis option.exhaust, metis list.set_intros(1) neq_Nil_conv)
  then show ?thesis by (cases "mutexes s l") (simp add: mutex_free_def)
qed

subsection \<open>Locks taken in an order of ranks\<close>

text \<open>
  \<open>held_after r held p\<close> is the stack of locks after \<open>p\<close>, and \<open>None\<close> when \<open>p\<close> takes a lock whose rank is not above
  that of every lock held, or closes a scope that is not open.
\<close>

fun held_after :: "('l \<Rightarrow> nat) \<Rightarrow> 'l list \<Rightarrow> 'l action list \<Rightarrow> 'l list option" where
  "held_after r held [] = Some held"
| "held_after r held (Enter l ro # p) = (if list_all (\<lambda>h. r h < r l) held then held_after r (l # held) p else None)"
| "held_after r [] (Leave # p) = None"
| "held_after r (h # held) (Leave # p) = held_after r held p"

text \<open>A piece of code that leaves the locks as it found them and takes only locks of rank \<open>k\<close> and above.\<close>

definition scoped :: "('l \<Rightarrow> nat) \<Rightarrow> nat \<Rightarrow> 'l action list \<Rightarrow> bool" where
  "scoped r k p \<longleftrightarrow> (\<forall>held. list_all (\<lambda>h. r h < k) held \<longrightarrow> held_after r held p = Some held)"

definition guarded :: "'l \<Rightarrow> bool \<Rightarrow> 'l action list \<Rightarrow> 'l action list" where
  "guarded l ro body = Enter l ro # body @ [Leave]"

named_theorems scope_intro \<open>footprints that respect the lock order\<close>

lemma held_after_append: "held_after r held (p @ q) = Option.bind (held_after r held p) (\<lambda>h. held_after r h q)"
  by (induction r held p rule: held_after.induct) auto

lemma scoped_Nil [scope_intro]: "scoped r k []"
  by (simp add: scoped_def)

lemma scoped_append [scope_intro]: "scoped r k p \<Longrightarrow> scoped r k q \<Longrightarrow> scoped r k (p @ q)"
  by (simp add: scoped_def held_after_append)

lemma scoped_guarded [scope_intro]: "k \<le> r l \<Longrightarrow> scoped r (Suc (r l)) body \<Longrightarrow> scoped r k (guarded l ro body)"
proof -
  assume k: "k \<le> r l" and b: "scoped r (Suc (r l)) body"
  have "held_after r held (guarded l ro body) = Some held" if h: "\<forall>x\<in>set held. r x < k" for held
  proof -
    have "\<forall>x\<in>set held. r x < r l" using h k by auto
    moreover from this have "held_after r (l # held) body = Some (l # held)"
      using b by (simp add: scoped_def list_all_iff less_SucI)
    ultimately show ?thesis by (simp add: guarded_def held_after_append list_all_iff)
  qed
  then show ?thesis by (simp add: scoped_def list_all_iff)
qed

lemma scoped_if [scope_intro]: "(b \<Longrightarrow> scoped r k p) \<Longrightarrow> (\<not> b \<Longrightarrow> scoped r k q) \<Longrightarrow> scoped r k (if b then p else q)"
  by simp

lemma scoped_concat [scope_intro]: "(\<And>x. scoped r k (f x)) \<Longrightarrow> scoped r k (concat (map f xs))"
  by (induction xs) (auto intro: scope_intro)

lemma scoped_mono: "scoped r k p \<Longrightarrow> j \<le> k \<Longrightarrow> scoped r j p"
  unfolding scoped_def by (metis (no_types, lifting) list_all_iff order_less_le_trans)

locale lock_order =
  fixes rank :: "'l \<Rightarrow> nat" and progs :: "nat \<Rightarrow> 'l action list" and n :: nat
  assumes in_order: "scoped rank 0 (progs t)"
    and threads: "n \<le> t \<Longrightarrow> progs t = []"
begin

definition start :: "'l system" where
  "start = system_start progs"

lemma inv: "run start s \<Longrightarrow> lock_inv s"
  using lock_inv_run lock_inv_start by (auto simp: start_def)

lemma held_inv:
  "run s0 s \<Longrightarrow> s0 = start \<Longrightarrow> held_after rank (map sl_lock (stacks s t)) (todo s t) = Some []"
proof (induction rule: run.induct)
  case (run_refl s)
  then show ?case using in_order [of t] by (simp add: start_def system_start_def scoped_def)
next
  case (run_act s s' u s'')
  from run_act.hyps(2) run_act.IH [OF run_act.prems] show ?case
    by (cases rule: act_cases) (auto split: if_splits)
qed

lemma threads_inv: "run s0 s \<Longrightarrow> s0 = start \<Longrightarrow> n \<le> t \<Longrightarrow> todo s t = []"
proof (induction rule: run.induct)
  case (run_refl s)
  then show ?case using threads by (simp add: start_def system_start_def)
next
  case (run_act s s' u s'')
  then have "todo s' t = []" by simp
  with run_act.hyps(2) show ?case by (cases rule: act_cases) auto
qed

text \<open>A thread that cannot go on wants a lock which a thread with an even higher wish holds.\<close>

lemma blocked:
  assumes r: "run start s" and t: "todo s t \<noteq> []" "act t s = None"
  obtains l ro p u where "todo s t = Enter l ro # p" "l \<in> sl_lock ` set (stacks s u)"
proof (cases "todo s t")
  case (Cons a p)
  show ?thesis
  proof (cases a)
    case (Enter l ro)
    then have "(if ro then mutex_lock_shared t (mutexes s l) else mutex_lock t (mutexes s l)) = None"
      using t(2) Cons by (auto simp: act_def SafeLock_def Let_def split: if_splits option.splits)
    then obtain u where "owner (mutexes s l) = Some u \<or> u \<in> set (sharers (mutexes s l))"
      by (cases "sharers (mutexes s l)") (auto simp: mutex_lock_shared_def mutex_lock_def split: if_splits)
    then show ?thesis using lock_inv_held [OF inv [OF r]] that Cons Enter by blast
  next
    case Leave
    have "held_after rank (map sl_lock (stacks s t)) (Leave # p) = Some []" using held_inv [OF r refl, of t] Cons Leave by simp
    then obtain g gs where g: "stacks s t = g # gs" by (cases "stacks s t") auto
    then show ?thesis
      using t(2) Cons Leave lock_inv_destroy [OF inv [OF r] g] by (auto simp: act_def)
  qed
qed (use t in simp)

lemma progress:
  assumes r: "run start s" and "\<not> finished s"
  shows "\<exists>t s'. act t s = Some s'"
proof (rule ccontr)
  assume "\<nexists>t s'. act t s = Some s'"
  then have stuck: "act t s = None" for t by (cases "act t s") auto
  let ?U = "{t. todo s t \<noteq> []}"
  define want where "want t = (case todo s t of Enter l ro # p \<Rightarrow> rank l | _ \<Rightarrow> 0)" for t
  have fin: "finite ?U" using threads_inv [OF r refl] by (metis (mono_tags, lifting) finite_nat_set_iff_bounded mem_Collect_eq not_le)
  have ne: "?U \<noteq> {}" using assms(2) by (auto simp: finished_def)
  obtain t where t: "t \<in> ?U" "\<And>u. u \<in> ?U \<Longrightarrow> want u \<le> want t"
    using Max_in [of "want ` ?U"] Max_ge [of "want ` ?U"] fin ne by fastforce
  obtain l ro p u where l: "todo s t = Enter l ro # p" "l \<in> sl_lock ` set (stacks s u)"
    using blocked [OF r _ stuck] t(1) by blast
  have h: "held_after rank (map sl_lock (stacks s u)) (todo s u) = Some []" using held_inv [OF r refl] .
  then have u: "todo s u \<noteq> []" using l(2) by auto
  then obtain l' ro' p' where l': "todo s u = Enter l' ro' # p'" using blocked [OF r _ stuck] by blast
  then have "rank l < rank l'" using h l(2) by (auto simp: list_all_iff split: if_splits)
  then show False using t(2) [of u] u l l' by (simp add: want_def)
qed

lemma act_shrinks: "act t s = Some s' \<Longrightarrow> n > t \<Longrightarrow> (\<Sum>i<n. length (todo s' i)) < (\<Sum>i<n. length (todo s i))"
  by (cases rule: act_cases) (auto intro!: sum_strict_mono_ex1)

text \<open>Every run can be continued until all threads are through, and then every mutex is free.\<close>

lemma completes:
  assumes "run start s"
  shows "\<exists>s'. run s s' \<and> finished s' \<and> (\<forall>l. mutexes s' l = mutex_free)"
  using assms
proof (induction "\<Sum>i<n. length (todo s i)" arbitrary: s rule: less_induct)
  case less
  show ?case
  proof (cases "finished s")
    case True
    have "stacks s t = []" for t using held_inv [OF less.prems refl, of t] True by (simp add: finished_def)
    then have "mutexes s l = mutex_free" for l using lock_inv_free [OF inv [OF less.prems]] by simp
    with True show ?thesis by (auto intro: run_refl)
  next
    case False
    then obtain t s1 where a: "act t s = Some s1" using progress [OF less.prems] by blast
    then have "t < n" using threads_inv [OF less.prems refl, of t] by (cases "t < n") (auto simp: act_def)
    then obtain s' where "run s1 s'" "finished s'" "\<forall>l. mutexes s' l = mutex_free"
      using less.hyps [OF act_shrinks [OF a] run_act [OF less.prems a]] by blast
    then show ?thesis using run_trans run_act [OF run_refl a] by blast
  qed
qed

end

subsection \<open>Mutual exclusion\<close>

text \<open>
  C20: In every state that threads can reach with guards, whatever they do, a thread with an exclusive guard of a lock
  has no other guard of the same lock and no other thread has any; and the destructor of every open guard
  finds the mutex as its constructor left it.
\<close>

theorem guards_exclude:
  assumes "run (system_start p) s" and "\<lparr>sl_lock = l, sl_readOnly = False\<rparr> \<in> set (stacks s t)"
    and "g \<in> set (stacks s u)" and "sl_lock g = l"
  shows "u = t \<and> g = \<lparr>sl_lock = l, sl_readOnly = False\<rparr> \<and> count_list (stacks s t) g = 1 \<and>
    SafeLock_destroy t (hd (stacks s t)) (mutexes s (sl_lock (hd (stacks s t)))) \<noteq> None"
proof -
  have i: "lock_inv s" using lock_inv_run [OF assms(1) lock_inv_start] .
  let ?w = "\<lparr>sl_lock = l, sl_readOnly = False\<rparr>"
  have "count_list (stacks s t) ?w \<noteq> 0" using assms(2) by (simp add: count_list_0_iff)
  then have o: "owner (mutexes s l) = Some t" using i by (auto simp: lock_inv_def split: if_splits)
  moreover from this have "sharers (mutexes s l) = []" using i by (simp add: lock_inv_def)
  ultimately have o: "owner (mutexes s l) = Some t" "sharers (mutexes s l) = []" by simp_all
  have "count_list (stacks s u) g \<noteq> 0" using assms(3) by (simp add: count_list_0_iff)
  then have g: "g = ?w \<and> u = t"
    using i o assms(4) by (cases g; cases "sl_readOnly g") (auto simp: lock_inv_def split: if_splits)
  moreover have "stacks s t = hd (stacks s t) # tl (stacks s t)" using assms(2) by (cases "stacks s t") auto
  ultimately show ?thesis using i o lock_inv_destroy [OF i, of t] by (simp add: lock_inv_def)
qed

theorem guards_exclude_witness:
  "\<exists>s. acts [0, 1] (system_start (\<lambda>t. [Enter (t :: nat) False, Leave])) = Some s \<and>
     (\<forall>u g. g \<in> set (stacks s u) \<longrightarrow> sl_lock g = 0 \<longrightarrow> u = 0)"
proof -
  let ?s0 = "system_start (\<lambda>t. [Enter (t :: nat) False, Leave])"
  obtain s where s: "acts [0, 1] ?s0 = Some s" "\<lparr>sl_lock = 0, sl_readOnly = False\<rparr> \<in> set (stacks s 0)"
    by (simp add: act_def SafeLock_def mutex_lock_def mutex_free_def system_start_def)
  show ?thesis using s guards_exclude [OF acts_run [OF s(1)] s(2)] by blast
qed

end
