(* ===== verification/Server_Locks.thy ===== *)
theory Server_Locks
  imports Safe_Lock
begin

text \<open>
  Which locks the functions of the server take, nested how, on each of their paths: the guards of every
  \<open>SafeLock\<close> in \<^verbatim>\<open>svr/\<close>, \<^verbatim>\<open>_framework/\<close> and \<^verbatim>\<open>_lib/\<close> that the worker, process and update threads of the server
  open and close.  What a path depends on (a queue that is full, a zone that exists, the sessions in use) is an
  argument.  Shown here: with every handler but \<open>C2S_Auth\<close> the threads cannot block each other for good, and with
  \<open>C2S_Auth\<close> they can.
\<close>

subsection \<open>The locks\<close>

datatype lock_id =
    L_session nat
  | L_sessionMgr
  | L_zoneMgr
  | L_zone nat
  | L_connectorMgr
  | L_cmdQueue
  | L_sendQueue nat
  | L_recvBuffer nat
  | L_packetQueue nat
  | L_msg nat
  | L_file nat

text \<open>A path through a function that writes log lines: for every line, whether it fills the queue of the logger.\<close>

definition log_locks :: "nat \<Rightarrow> bool \<Rightarrow> lock_id action list" where
  "log_locks k full = guarded (L_msg k) False [] @
     (if full then guarded (L_msg k) False [] @ guarded (L_file k) False [] else [])"

definition g_Log_locks :: "bool list \<Rightarrow> lock_id action list" where
  "g_Log_locks fs = concat (map (log_locks 0) fs)"

definition Add_locks :: "lock_id action list" where
  "Add_locks = guarded L_cmdQueue False []"

definition SwapOpList_locks :: "lock_id action list" where
  "SwapOpList_locks = guarded L_cmdQueue False []"

subsection \<open>Connectors and the network\<close>

definition AddSendQueue_locks :: "nat \<Rightarrow> lock_id action list" where
  "AddSendQueue_locks c = guarded (L_sendQueue c) False []"

definition SendPrepare_locks :: "nat \<Rightarrow> bool \<Rightarrow> lock_id action list" where
  "SendPrepare_locks c takes = (if takes then guarded (L_sendQueue c) False [] else [])"

definition ConnectorMgr_locks :: "lock_id action list" where
  "ConnectorMgr_locks = guarded L_connectorMgr False []"

definition TryRelease_locks :: "bool \<Rightarrow> lock_id action list" where
  "TryRelease_locks free = (if free then ConnectorMgr_locks else [])"

definition Write_locks :: "nat \<Rightarrow> bool \<Rightarrow> bool \<Rightarrow> bool list \<Rightarrow> lock_id action list" where
  "Write_locks c accepted takes fs =
     (if accepted then AddSendQueue_locks c @ SendPrepare_locks c takes else []) @ g_Log_locks fs"

text \<open>\<open>head\<close>: whether the ring holds a head that the parser reads.\<close>

definition RecvComplete_locks :: "nat \<Rightarrow> bool \<Rightarrow> bool \<Rightarrow> bool \<Rightarrow> lock_id action list" where
  "RecvComplete_locks c room head whole =
     (if \<not> room then [] else
     guarded (L_recvBuffer c) False [] @ (if head then guarded (L_recvBuffer c) False [] else []) @
     (if whole then guarded (L_recvBuffer c) False [] @ guarded (L_recvBuffer c) False [] @ guarded (L_packetQueue 0) False [] else []))"

definition DoRecv_locks :: "nat \<Rightarrow> bool \<Rightarrow> bool \<Rightarrow> bool \<Rightarrow> bool list \<Rightarrow> bool list \<Rightarrow> lock_id action list" where
  "DoRecv_locks c room head whole fs fs' = g_Log_locks fs @ RecvComplete_locks c room head whole @ g_Log_locks fs'"

definition DoSend_locks :: "nat \<Rightarrow> bool \<Rightarrow> bool list \<Rightarrow> bool list \<Rightarrow> lock_id action list" where
  "DoSend_locks c takes fs fs' = g_Log_locks fs @ SendPrepare_locks c takes @ g_Log_locks fs'"

definition worker_disconnect_locks :: "bool \<Rightarrow> bool list \<Rightarrow> lock_id action list" where
  "worker_disconnect_locks free fs = g_Log_locks fs @ TryRelease_locks free"

subsection \<open>Zones\<close>

definition OnRegistCharacter_locks :: "nat \<Rightarrow> lock_id action list" where
  "OnRegistCharacter_locks z = guarded (L_zone z) False []"

definition OnUnregistCharacter_locks :: "nat \<Rightarrow> lock_id action list" where
  "OnUnregistCharacter_locks z = guarded (L_zone z) False []"

definition PacketBroadcast_locks :: "nat \<Rightarrow> nat \<Rightarrow> lock_id action list" where
  "PacketBroadcast_locks z members = guarded (L_zone z) False (concat (replicate members Add_locks))"

definition GetCharacterDbList_locks :: "nat \<Rightarrow> lock_id action list" where
  "GetCharacterDbList_locks z = guarded (L_zone z) False []"

definition ZoneMgr_EnterCharacter_locks :: "nat \<Rightarrow> lock_id action list" where
  "ZoneMgr_EnterCharacter_locks z = guarded L_zoneMgr False (OnRegistCharacter_locks z)"

definition ZoneMgr_LeaveCharacter_locks :: "nat option \<Rightarrow> lock_id action list" where
  "ZoneMgr_LeaveCharacter_locks z = guarded L_zoneMgr False (case z of None \<Rightarrow> [] | Some z \<Rightarrow> OnUnregistCharacter_locks z)"

definition GetZone_locks :: "lock_id action list" where
  "GetZone_locks = guarded L_zoneMgr False []"

subsection \<open>Sessions\<close>

definition UserSessionMgr_locks :: "lock_id action list" where
  "UserSessionMgr_locks = guarded L_sessionMgr False []"

definition Release_locks :: "nat \<Rightarrow> bool \<Rightarrow> bool \<Rightarrow> lock_id action list" where
  "Release_locks u inZone connected =
     (if inZone then guarded (L_session u) False Add_locks else []) @ TryRelease_locks connected"

text \<open>The update of one session: nothing to do or released, the heartbeat count exceeded, or a heartbeat sent.\<close>

datatype update_path = U_quiet | U_over "bool list" bool | U_send nat bool bool "bool list"

fun update_body :: "update_path \<Rightarrow> lock_id action list" where
  "update_body U_quiet = []"
| "update_body (U_over fs free) = g_Log_locks fs @ TryRelease_locks free"
| "update_body (U_send c accepted takes fs) = Write_locks c accepted takes fs"

definition DoUpdate_locks :: "nat \<Rightarrow> update_path \<Rightarrow> lock_id action list" where
  "DoUpdate_locks u p = guarded (L_session u) False (update_body p)"

definition UserSessionMgr_DoUpdate_locks :: "(nat \<times> update_path) list \<Rightarrow> (nat \<times> bool \<times> bool) list \<Rightarrow> lock_id action list" where
  "UserSessionMgr_DoUpdate_locks used released =
     guarded L_sessionMgr False (concat (map (\<lambda>(u, p). DoUpdate_locks u p) used)) @
     UserSessionMgr_locks @
     concat (map (\<lambda>(u, inZone, connected). Release_locks u inZone connected) released) @
     concat (map (\<lambda>_. UserSessionMgr_locks @ UserSessionMgr_locks) released)"

subsection \<open>Packet handlers\<close>

definition C2S_Auth_locks :: "nat \<Rightarrow> nat \<Rightarrow> bool \<Rightarrow> bool \<Rightarrow> bool list \<Rightarrow> lock_id action list" where
  "C2S_Auth_locks u c accepted takes fs =
     guarded (L_session u) False (UserSessionMgr_locks @ Write_locks c accepted takes fs)"

definition C2S_Enter_locks :: "nat \<Rightarrow> lock_id action list" where
  "C2S_Enter_locks u = guarded (L_session u) False Add_locks"

definition C2S_LEAVE_locks :: "nat \<Rightarrow> lock_id action list" where
  "C2S_LEAVE_locks u = guarded (L_session u) False Add_locks"

definition C2S_Move_locks :: "nat \<Rightarrow> lock_id action list" where
  "C2S_Move_locks u = guarded (L_session u) False Add_locks"

definition C2S_Heartbeat_locks :: "nat \<Rightarrow> lock_id action list" where
  "C2S_Heartbeat_locks u = guarded (L_session u) False []"

definition C2S_Interaction_locks :: "nat \<Rightarrow> lock_id action list" where
  "C2S_Interaction_locks u = guarded (L_session u) True Add_locks"

definition C2S_Echo_locks :: "nat \<Rightarrow> lock_id action list" where
  "C2S_Echo_locks u = guarded (L_session u) True Add_locks"

subsection \<open>Commands\<close>

text \<open>The arguments say which of the objects looked up are found; \<open>k\<close> counts what is sent on.\<close>

datatype command_path =
    SendBroadcastToAllUser_path "(nat \<times> nat) option"
  | SendPacketToUser_path "(nat \<times> bool \<times> bool \<times> bool list) option"
  | EnterCharacter_path "nat option"
  | LeaveCharacter_path "nat option"
  | SendCharacterList_path bool "(nat \<times> nat) option"

fun Operator_locks :: "command_path \<Rightarrow> lock_id action list" where
  "Operator_locks (SendBroadcastToAllUser_path z) =
     GetZone_locks @ (case z of None \<Rightarrow> [] | Some (z, k) \<Rightarrow> PacketBroadcast_locks z k)"
| "Operator_locks (SendPacketToUser_path w) =
     UserSessionMgr_locks @ (case w of None \<Rightarrow> [] | Some (c, accepted, takes, fs) \<Rightarrow> Write_locks c accepted takes fs)"
| "Operator_locks (EnterCharacter_path z) =
     UserSessionMgr_locks @ (case z of None \<Rightarrow> [] | Some z \<Rightarrow> ZoneMgr_EnterCharacter_locks z @ Add_locks @ Add_locks)"
| "Operator_locks (LeaveCharacter_path z) =
     UserSessionMgr_locks @ ZoneMgr_LeaveCharacter_locks z @ Add_locks"
| "Operator_locks (SendCharacterList_path known z) =
     UserSessionMgr_locks @
     (if known then GetZone_locks @ (case z of None \<Rightarrow> [] | Some (z, k) \<Rightarrow> GetCharacterDbList_locks z @ concat (replicate k Add_locks)) else [])"

definition Tick_locks :: "command_path list \<Rightarrow> lock_id action list" where
  "Tick_locks cs = SwapOpList_locks @ concat (map Operator_locks cs)"

subsection \<open>One round of each thread\<close>

text \<open>
  \<open>WorkerThread\<close>: a line for a failed completion, a connection that is closed, or one of the three operations; a
  completed accept prepares the next one, for which a connector is taken.
\<close>

datatype worker_path =
    W_failed "bool list"
  | W_closed bool "bool list"
  | W_accept "bool list" bool "bool list"
  | W_send nat bool "bool list" "bool list"
  | W_recv nat bool bool bool "bool list" "bool list"

fun WorkerThread_locks :: "worker_path \<Rightarrow> lock_id action list" where
  "WorkerThread_locks (W_failed fs) = g_Log_locks fs"
| "WorkerThread_locks (W_closed free fs) = worker_disconnect_locks free fs"
| "WorkerThread_locks (W_accept fs failed fs') =
     g_Log_locks fs @ (if failed then ConnectorMgr_locks else []) @ ConnectorMgr_locks @ g_Log_locks fs'"
| "WorkerThread_locks (W_send c takes fs fs') = DoSend_locks c takes fs fs'"
| "WorkerThread_locks (W_recv c room head whole fs fs') = DoRecv_locks c room head whole fs fs'"

text \<open>\<open>ProcessThread\<close> around what the handler of the packet does.\<close>

definition ProcessThread_locks :: "bool list \<Rightarrow> bool \<Rightarrow> lock_id action list \<Rightarrow> lock_id action list" where
  "ProcessThread_locks fs newSession body =
     guarded (L_packetQueue 0) False [] @ g_Log_locks fs @ (if newSession then UserSessionMgr_locks else []) @ body"

datatype handler_path = H_refused | H_Enter | H_LEAVE | H_Move | H_Heartbeat | H_Interaction | H_Echo

fun handler_locks :: "nat \<Rightarrow> handler_path \<Rightarrow> lock_id action list" where
  "handler_locks u H_refused = []"
| "handler_locks u H_Enter = C2S_Enter_locks u"
| "handler_locks u H_LEAVE = C2S_LEAVE_locks u"
| "handler_locks u H_Move = C2S_Move_locks u"
| "handler_locks u H_Heartbeat = C2S_Heartbeat_locks u"
| "handler_locks u H_Interaction = C2S_Interaction_locks u"
| "handler_locks u H_Echo = C2S_Echo_locks u"

definition UpdateThread_locks ::
  "((nat \<times> update_path) list \<times> (nat \<times> bool \<times> bool) list) option \<Rightarrow> (bool \<times> bool) option \<Rightarrow> command_path list \<Rightarrow> lock_id action list" where
  "UpdateThread_locks upd report cs =
     (case upd of None \<Rightarrow> [] | Some (used, released) \<Rightarrow> UserSessionMgr_DoUpdate_locks used released) @
     (case report of None \<Rightarrow> [] | Some (f, f') \<Rightarrow> ConnectorMgr_locks @ log_locks 1 f @ UserSessionMgr_locks @ log_locks 1 f') @
     Tick_locks cs"

datatype server_round =
    R_worker worker_path
  | R_process "bool list" bool nat handler_path
  | R_update "((nat \<times> update_path) list \<times> (nat \<times> bool \<times> bool) list) option" "(bool \<times> bool) option" "command_path list"

fun round_locks :: "server_round \<Rightarrow> lock_id action list" where
  "round_locks (R_worker w) = WorkerThread_locks w"
| "round_locks (R_process fs newSession u h) = ProcessThread_locks fs newSession (handler_locks u h)"
| "round_locks (R_update upd report cs) = UpdateThread_locks upd report cs"

text \<open>One list of rounds per thread.\<close>

definition server_progs :: "server_round list list \<Rightarrow> nat \<Rightarrow> lock_id action list" where
  "server_progs rounds t = (if t < length rounds then concat (map round_locks (rounds ! t)) else [])"

subsection \<open>The order\<close>

fun lock_rank :: "lock_id \<Rightarrow> nat" where
  "lock_rank L_sessionMgr = 0"
| "lock_rank (L_session _) = 1"
| "lock_rank L_zoneMgr = 2"
| "lock_rank (L_zone _) = 3"
| "lock_rank L_connectorMgr = 4"
| "lock_rank L_cmdQueue = 4"
| "lock_rank (L_sendQueue _) = 4"
| "lock_rank (L_recvBuffer _) = 4"
| "lock_rank (L_packetQueue _) = 4"
| "lock_rank (L_msg _) = 5"
| "lock_rank (L_file _) = 5"

lemma scoped_replicate [scope_intro]: "scoped r k p \<Longrightarrow> scoped r k (concat (replicate m p))"
  by (induction m) (auto intro: scope_intro)

lemma scoped_option [scope_intro]: "scoped r k p \<Longrightarrow> (\<And>x. scoped r k (f x)) \<Longrightarrow> scoped r k (case_option p f o')"
  by (cases o') simp_all

lemma scoped_prod [scope_intro]: "(\<And>x y. scoped r k (f x y)) \<Longrightarrow> scoped r k (case_prod f p)"
  by (cases p) simp

lemmas leaf_locks = log_locks_def g_Log_locks_def Add_locks_def SwapOpList_locks_def AddSendQueue_locks_def
  SendPrepare_locks_def ConnectorMgr_locks_def TryRelease_locks_def Write_locks_def

lemmas zone_locks = OnRegistCharacter_locks_def OnUnregistCharacter_locks_def PacketBroadcast_locks_def
  GetCharacterDbList_locks_def ZoneMgr_EnterCharacter_locks_def ZoneMgr_LeaveCharacter_locks_def GetZone_locks_def

lemmas handler_defs = C2S_Enter_locks_def C2S_LEAVE_locks_def C2S_Move_locks_def C2S_Heartbeat_locks_def
  C2S_Interaction_locks_def C2S_Echo_locks_def

text \<open>What takes locks of rank 4 and above only, so that it may run under a session or a zone.\<close>

lemma leaf_scoped [scope_intro]:
  "k \<le> 4 \<Longrightarrow> scoped lock_rank k Add_locks"
  "k \<le> 4 \<Longrightarrow> scoped lock_rank k SwapOpList_locks"
  "k \<le> 4 \<Longrightarrow> scoped lock_rank k (g_Log_locks fs)"
  "k \<le> 4 \<Longrightarrow> scoped lock_rank k (log_locks i f)"
  "k \<le> 4 \<Longrightarrow> scoped lock_rank k ConnectorMgr_locks"
  "k \<le> 4 \<Longrightarrow> scoped lock_rank k (TryRelease_locks free)"
  "k \<le> 4 \<Longrightarrow> scoped lock_rank k (SendPrepare_locks c takes)"
  "k \<le> 4 \<Longrightarrow> scoped lock_rank k (Write_locks c accepted takes fs)"
  unfolding leaf_locks by (intro scope_intro; simp)+

lemma update_scoped [scope_intro]: "k \<le> 1 \<Longrightarrow> scoped lock_rank k (DoUpdate_locks u p)"
  by (cases p) (auto simp: DoUpdate_locks_def intro!: scope_intro)

lemma mgr_scoped [scope_intro]:
  "scoped lock_rank 0 UserSessionMgr_locks"
  "scoped lock_rank 0 (Release_locks u inZone connected)"
  "scoped lock_rank 0 (UserSessionMgr_DoUpdate_locks used released)"
  unfolding UserSessionMgr_locks_def Release_locks_def UserSessionMgr_DoUpdate_locks_def by (intro scope_intro; simp)+

lemma operator_scoped [scope_intro]: "scoped lock_rank 0 (Operator_locks c)"
  by (cases c) (auto simp: zone_locks intro!: scope_intro)

lemma worker_scoped [scope_intro]: "scoped lock_rank 0 (WorkerThread_locks w)"
  by (cases w) (auto simp: worker_disconnect_locks_def DoSend_locks_def DoRecv_locks_def RecvComplete_locks_def intro!: scope_intro)

lemma handler_scoped [scope_intro]: "scoped lock_rank 0 (handler_locks u h)"
  by (cases h) (auto simp: handler_defs intro!: scope_intro)

lemma thread_scoped [scope_intro]:
  "scoped lock_rank 0 body \<Longrightarrow> scoped lock_rank 0 (ProcessThread_locks fs newSession body)"
  "scoped lock_rank 0 (UpdateThread_locks upd report cs)"
  unfolding ProcessThread_locks_def UpdateThread_locks_def Tick_locks_def by (auto intro!: scope_intro)

lemma round_scoped [scope_intro]: "scoped lock_rank 0 (round_locks rd)"
  by (cases rd) (auto intro!: scope_intro)

interpretation sv: lock_order lock_rank "server_progs rounds" "length rounds" for rounds
  by unfold_locales (auto simp: server_progs_def intro!: scope_intro)

subsection \<open>Properties\<close>

text \<open>
  C18: No deadlock without \<open>C2S_Auth\<close>: any number of worker, process and update threads, each running any rounds on any
  of their paths, interleaved in any way, can always go on until all of them are through, and then every lock
  is free.
\<close>

theorem server_locks_ordered:
  assumes "run (system_start (server_progs rounds)) s"
  shows "\<not> deadlock s \<and> (\<exists>s'. run s s' \<and> finished s' \<and> (\<forall>l. mutexes s' l = mutex_free))"
  using assms sv.progress [of rounds s] sv.completes [of rounds s]
  by (auto simp: sv.start_def deadlock_def)

theorem server_locks_ordered_witness:
  "\<exists>s. acts [0, 1, 0] (system_start (server_progs [[R_process [] False 7 H_Move], [R_update (Some ([(7, U_quiet)], [])) None []]])) = Some s \<and>
     \<not> deadlock s"
proof -
  let ?p = "system_start (server_progs [[R_process [] False 7 H_Move], [R_update (Some ([(7, U_quiet)], [])) None []]])"
  obtain s where s: "acts [0, 1, 0] ?p = Some s"
    by (simp add: act_def SafeLock_def SafeLock_destroy_def mutex_lock_def mutex_unlock_def mutex_free_def system_start_def server_progs_def
      ProcessThread_locks_def UpdateThread_locks_def UserSessionMgr_DoUpdate_locks_def guarded_def)
  show ?thesis using s server_locks_ordered [OF acts_run [OF s]] by blast
qed

text \<open>
  C19: \<open>C2S_Auth\<close> takes the manager's lock under the session's, \<open>UserSessionMgr::DoUpdate\<close> the session's under the
  manager's: the process thread in the handler and the update thread in an update of the same session reach a
  state in which both wait for each other and neither can ever go on, whatever they would do next.
\<close>

theorem auth_update_deadlock:
  "\<exists>s. run (system_start (\<lambda>t. if t = 0 then ProcessThread_locks [] False (C2S_Auth_locks u c True True []) @ rest
                            else if t = 1 then UpdateThread_locks (Some ((u, path) # used, released)) report cs else [])) s \<and>
     deadlock s \<and> sl_lock ` set (stacks s 0) = {L_session u} \<and> sl_lock ` set (stacks s 1) = {L_sessionMgr} \<and>
     {s'. run s s'} = {s}"
proof -
  let ?p = "\<lambda>t :: nat. if t = 0 then ProcessThread_locks [] False (C2S_Auth_locks u c True True []) @ rest
    else if t = 1 then UpdateThread_locks (Some ((u, path) # used, released)) report cs else []"
  obtain a where a: "?p 0 = [Enter (L_packetQueue 0) False, Leave, Enter (L_session u) False, Enter L_sessionMgr False] @ a"
    by (simp add: ProcessThread_locks_def C2S_Auth_locks_def UserSessionMgr_locks_def guarded_def g_Log_locks_def)
  obtain b where b: "?p 1 = [Enter L_sessionMgr False, Enter (L_session u) False] @ b"
    by (simp add: UpdateThread_locks_def UserSessionMgr_DoUpdate_locks_def DoUpdate_locks_def guarded_def)
  obtain s where s: "acts [0, 0, 0, 1] (system_start ?p) = Some s" and st: "stacks s 0 = [\<lparr>sl_lock = L_session u, sl_readOnly = False\<rparr>]"
    "stacks s 1 = [\<lparr>sl_lock = L_sessionMgr, sl_readOnly = False\<rparr>]" and m: "owner (mutexes s L_sessionMgr) = Some 1" "owner (mutexes s (L_session u)) = Some 0"
    and todo: "todo s 0 = Enter L_sessionMgr False # a" "todo s 1 = Enter (L_session u) False # b" "\<And>t. 1 < t \<Longrightarrow> todo s t = []"
    using a b by (simp add: act_def SafeLock_def SafeLock_destroy_def mutex_lock_def mutex_unlock_def mutex_free_def system_start_def)
  have "act t s = None" for t
    using todo m by (cases "t = 0"; cases "t = 1") (simp_all add: act_def SafeLock_def mutex_lock_def)
  then have "deadlock s" using todo(1) by (auto simp: deadlock_def finished_def intro!: exI [of _ 0])
  then show ?thesis using acts_run [OF s] st by (intro exI [of _ s]) (auto dest: deadlock_forever intro: run_refl)
qed

end
