(* ===== verification/Database.thy ===== *)
theory Database
  imports PL_Prelude
begin

text \<open>
  \<^verbatim>\<open>_lib/MySQL.h\<close> and \<^verbatim>\<open>MySQL.cpp\<close>: a connection kept alive through the C++ connector (\<open>MySqlCppConn\<close>), the
  scope object around one transaction (\<open>DbConnection\<close>) and a connection through the C interface (\<open>MySqlApiConn\<close>).
  The database libraries are a parameter: a driver answers each call from its own state and may throw.  What
  the classes allocate and delete, and the calls whose order matters, are recorded in the state.
\<close>

subsection \<open>The driver\<close>

datatype 'a outcome = Ret 'a | Throw

record MySqlDbInfo =
  server :: string
  username :: string
  password :: string
  database :: string

definition MySqlDbInfo_init :: MySqlDbInfo where
  "MySqlDbInfo_init = \<lparr>server = '''', username = ''user_pl'', password = ''pass_pl'', database = ''world''\<rparr>"

record 'w driver =
  d_connect :: "MySqlDbInfo \<Rightarrow> 'w \<Rightarrow> nat outcome \<times> 'w"
  d_setSchema :: "nat \<Rightarrow> string \<Rightarrow> 'w \<Rightarrow> unit outcome \<times> 'w"
  d_isValid :: "nat \<Rightarrow> 'w \<Rightarrow> bool outcome \<times> 'w"
  d_reconnect :: "nat \<Rightarrow> 'w \<Rightarrow> bool outcome \<times> 'w"
  d_close :: "nat \<Rightarrow> 'w \<Rightarrow> unit outcome \<times> 'w"

subsection \<open>MySqlCppConn\<close>

text \<open>\<open>alive\<close> lists the connection objects that exist.\<close>

record cpp_conn =
  dbInfo :: MySqlDbInfo
  conn :: "nat option"
  alive :: "nat list"

definition MySqlCppConn :: cpp_conn where
  "MySqlCppConn = \<lparr>dbInfo = MySqlDbInfo_init, conn = None, alive = []\<rparr>"

definition SetDbInfo :: "MySqlDbInfo \<Rightarrow> cpp_conn \<Rightarrow> cpp_conn" where
  "SetDbInfo info s = s\<lparr>dbInfo := info\<rparr>"

text \<open>\<open>close\<close> comes before \<open>delete\<close>: when it throws, the object and the pointer stay.\<close>

definition MySql_Disconnect :: "'w driver \<Rightarrow> cpp_conn \<Rightarrow> 'w \<Rightarrow> unit outcome \<times> cpp_conn \<times> 'w" where
  "MySql_Disconnect d s w =
     (case conn s of
        None \<Rightarrow> (Ret (), s, w)
      | Some h \<Rightarrow>
          (case d_close d h w of
             (Throw, w) \<Rightarrow> (Throw, s, w)
           | (Ret _, w) \<Rightarrow> (Ret (), s\<lparr>conn := None, alive := remove1 h (alive s)\<rparr>, w)))"

text \<open>The loop of \<open>TryReconnect\<close>; \<open>Ret True\<close>: left with the connection.\<close>

fun reconnect_loop :: "'w driver \<Rightarrow> nat \<Rightarrow> cpp_conn \<Rightarrow> 'w \<Rightarrow> bool outcome \<times> 'w" where
  "reconnect_loop d 0 s w = (Ret False, w)"
| "reconnect_loop d (Suc n) s w =
     (case conn s of
        None \<Rightarrow> reconnect_loop d n s w
      | Some h \<Rightarrow>
          (case d_isValid d h w of
             (Throw, w) \<Rightarrow> (Throw, w)
           | (Ret True, w) \<Rightarrow> reconnect_loop d n s w
           | (Ret False, w) \<Rightarrow>
               (case d_reconnect d h w of
                  (Throw, w) \<Rightarrow> (Throw, w)
                | (Ret True, w) \<Rightarrow> (Ret True, w)
                | (Ret False, w) \<Rightarrow> reconnect_loop d n s w)))"

definition TryReconnect :: "'w driver \<Rightarrow> cpp_conn \<Rightarrow> 'w \<Rightarrow> nat option outcome \<times> cpp_conn \<times> 'w" where
  "TryReconnect d s w =
     (case reconnect_loop d 5 s w of
        (Throw, w) \<Rightarrow> (Throw, s, w)
      | (Ret True, w) \<Rightarrow> (Ret (conn s), s, w)
      | (Ret False, w) \<Rightarrow>
          (case MySql_Disconnect d s w of
             (Throw, s, w) \<Rightarrow> (Throw, s, w)
           | (Ret _, s, w) \<Rightarrow> (Ret None, s, w)))"

text \<open>\<open>Connect\<close> catches what the driver throws and returns the pointer as it is then.\<close>

definition MySql_Connect :: "'w driver \<Rightarrow> cpp_conn \<Rightarrow> 'w \<Rightarrow> nat option \<times> cpp_conn \<times> 'w" where
  "MySql_Connect d s w =
     (let (s, w) =
        (case conn s of
           None \<Rightarrow>
             (case d_connect d (dbInfo s) w of
                (Throw, w) \<Rightarrow> (s, w)
              | (Ret h, w) \<Rightarrow> (s\<lparr>conn := Some h, alive := h # alive s\<rparr>, snd (d_setSchema d h (database (dbInfo s)) w)))
         | Some h \<Rightarrow>
             (case d_isValid d h w of
                (Ret False, w) \<Rightarrow>
                  (case d_reconnect d h w of
                     (Ret False, w) \<Rightarrow>
                       (case TryReconnect d s w of
                          (Throw, s, w) \<Rightarrow> (s, w)
                        | (Ret p, s, w) \<Rightarrow> (s\<lparr>conn := p\<rparr>, w))
                   | (_, w) \<Rightarrow> (s, w))
              | (_, w) \<Rightarrow> (s, w)))
      in (conn s, s, w))"

definition GetDbConnection :: "'w driver \<Rightarrow> cpp_conn \<Rightarrow> 'w \<Rightarrow> nat option \<times> cpp_conn \<times> 'w" where
  "GetDbConnection d s w = MySql_Connect d s w"

subsection \<open>The pointer owns the only connection\<close>

definition owns :: "cpp_conn \<Rightarrow> bool" where
  "owns s \<longleftrightarrow> alive s = (case conn s of None \<Rightarrow> [] | Some h \<Rightarrow> [h])"

lemma owns_Disconnect: "owns s \<Longrightarrow> MySql_Disconnect d s w = (r, s', w') \<Longrightarrow> owns s' \<and> dbInfo s' = dbInfo s \<and> (r \<noteq> Throw \<longrightarrow> conn s' = None)"
  by (auto simp: owns_def MySql_Disconnect_def split: option.splits prod.splits outcome.splits)

lemma owns_TryReconnect:
  assumes "owns s" and "TryReconnect d s w = (r, s', w')"
  shows "owns s' \<and> (\<forall>p. r = Ret p \<longrightarrow> p = conn s')"
  using assms owns_Disconnect
  by (fastforce simp: TryReconnect_def split: prod.splits outcome.splits bool.splits)

lemma owns_Connect:
  assumes o: "owns s" and c: "MySql_Connect d s w = (p, s', w')"
  shows "owns s' \<and> p = conn s'"
proof -
  have "owns (s1\<lparr>conn := p\<rparr>)" if "TryReconnect d s w1 = (Ret p, s1, w2)" for s1 p w1 w2
    using owns_TryReconnect [OF o that] by (metis cpp_conn.surjective cpp_conn.update_convs(2) outcome.inject)
  note T = this and T' = owns_TryReconnect [OF o, THEN conjunct1]
  show ?thesis
  proof (cases "conn s")
    case None
    then show ?thesis using o c by (auto simp: MySql_Connect_def owns_def split: prod.splits outcome.splits)
  next
    case (Some h)
    then show ?thesis using o c by (auto simp: MySql_Connect_def Let_def dest: T T' split: prod.splits outcome.splits bool.splits)
  qed
qed

text \<open>Any use of the object by its program.\<close>

datatype cpp_call = Call_SetDbInfo MySqlDbInfo | Call_Connect | Call_GetDbConnection | Call_TryReconnect | Call_Disconnect

fun cpp_step :: "'w driver \<Rightarrow> cpp_call \<Rightarrow> cpp_conn \<times> 'w \<Rightarrow> cpp_conn \<times> 'w" where
  "cpp_step d (Call_SetDbInfo info) (s, w) = (SetDbInfo info s, w)"
| "cpp_step d Call_Connect (s, w) = snd (MySql_Connect d s w)"
| "cpp_step d Call_GetDbConnection (s, w) = snd (GetDbConnection d s w)"
| "cpp_step d Call_TryReconnect (s, w) = snd (TryReconnect d s w)"
| "cpp_step d Call_Disconnect (s, w) = snd (MySql_Disconnect d s w)"

lemma owns_step: "owns s \<Longrightarrow> owns (fst (cpp_step d c (s, w)))"
proof (cases c)
  case (Call_SetDbInfo info)
  then show "owns s \<Longrightarrow> ?thesis" by (simp add: SetDbInfo_def owns_def split: option.splits)
next
  case Call_Connect
  then show "owns s \<Longrightarrow> ?thesis" by (cases "MySql_Connect d s w") (auto dest: owns_Connect)
next
  case Call_GetDbConnection
  then show "owns s \<Longrightarrow> ?thesis" by (cases "MySql_Connect d s w") (auto simp: GetDbConnection_def dest: owns_Connect)
next
  case Call_TryReconnect
  then show "owns s \<Longrightarrow> ?thesis" by (cases "TryReconnect d s w") (auto dest: owns_TryReconnect)
next
  case Call_Disconnect
  then show "owns s \<Longrightarrow> ?thesis" by (cases "MySql_Disconnect d s w") (auto dest: owns_Disconnect)
qed

lemma owns_steps: "owns (fst sw) \<Longrightarrow> owns (fst (fold (cpp_step d) cs sw))"
proof (induction cs arbitrary: sw)
  case (Cons c cs)
  then show ?case using owns_step [of "fst sw" d c "snd sw"] by simp
qed simp

subsection \<open>DbConnection\<close>

text \<open>
  The answer of the library to a call that may throw is an argument.  \<open>dc_objects\<close> lists the statements and result
  sets that exist, \<open>dc_calls\<close> what was asked of the connection and of prepared statements.
\<close>

datatype db_value =
    V_BigInt string | V_Blob string | V_Boolean bool | V_DateTime string | V_Double string | V_Int "32 word" | V_UInt "32 word"
  | V_Int64 "64 word" | V_UInt64 "64 word" | V_Null "32 word" | V_String string

datatype db_event = Ev_AutoCommit bool | Ev_Commit | Ev_Rollback | Ev_Bind nat int db_value | Ev_Execute nat

record db_connection =
  dc_conn :: nat
  dc_auto :: bool
  dc_commit :: bool
  dc_statement :: "nat option"
  preparedStmtIndex :: int
  dc_preparedStatement :: "nat option"
  dc_resultset :: "nat option"
  dc_objects :: "nat list"
  dc_calls :: "db_event list"

definition DbConnection :: "nat option \<Rightarrow> bool \<Rightarrow> db_connection option" where
  "DbConnection c autoCommit =
     (case c of
        None \<Rightarrow> None
      | Some h \<Rightarrow> Some \<lparr>dc_conn = h, dc_auto = autoCommit, dc_commit = False, dc_statement = None, preparedStmtIndex = 1,
          dc_preparedStatement = None, dc_resultset = None, dc_objects = [], dc_calls = [Ev_AutoCommit autoCommit]\<rparr>)"

definition delete_object :: "nat option \<Rightarrow> db_connection \<Rightarrow> db_connection" where
  "delete_object p s = (case p of None \<Rightarrow> s | Some x \<Rightarrow> s\<lparr>dc_objects := remove1 x (dc_objects s)\<rparr>)"

definition DbConnection_destroy :: "db_connection \<Rightarrow> db_connection" where
  "DbConnection_destroy s =
     (let s = delete_object (dc_resultset s) s;
          s = delete_object (dc_statement s) s;
          s = delete_object (dc_preparedStatement s) s
      in if \<not> dc_auto s then s\<lparr>dc_calls := dc_calls s @ [if dc_commit s then Ev_Commit else Ev_Rollback]\<rparr> else s)"

definition SetCommit :: "bool \<Rightarrow> db_connection \<Rightarrow> db_connection" where
  "SetCommit c s = s\<lparr>dc_commit := c\<rparr>"

definition GetStatement :: "nat outcome \<Rightarrow> db_connection \<Rightarrow> unit outcome \<times> db_connection" where
  "GetStatement answer s =
     (case answer of
        Throw \<Rightarrow> (Throw, s)
      | Ret x \<Rightarrow> (Ret (), s\<lparr>dc_statement := Some x, dc_objects := dc_objects s @ [x]\<rparr>))"

definition GetStatement_query :: "string \<Rightarrow> nat outcome \<Rightarrow> db_connection \<Rightarrow> unit outcome \<times> db_connection" where
  "GetStatement_query query answer s =
     (case answer of
        Throw \<Rightarrow> (Throw, s)
      | Ret x \<Rightarrow> (Ret (), s\<lparr>dc_preparedStatement := Some x, dc_objects := dc_objects s @ [x]\<rparr>))"

definition execute_on :: "nat \<Rightarrow> nat outcome \<Rightarrow> db_connection \<Rightarrow> unit outcome \<times> db_connection" where
  "execute_on stmt answer s =
     (case answer of
        Throw \<Rightarrow> (Throw, s)
      | Ret x \<Rightarrow> (Ret (), s\<lparr>dc_resultset := Some x, dc_objects := dc_objects s @ [x], dc_calls := dc_calls s @ [Ev_Execute stmt]\<rparr>))"

definition ExecuteQuery_query :: "string \<Rightarrow> nat outcome \<Rightarrow> nat outcome \<Rightarrow> db_connection \<Rightarrow> unit outcome \<times> db_connection" where
  "ExecuteQuery_query query created answer s =
     (case (if dc_statement s = None then GetStatement created s else (Ret (), s)) of
        (Throw, s) \<Rightarrow> (Throw, s)
      | (Ret _, s) \<Rightarrow> (case dc_statement s of None \<Rightarrow> (Ret (), s) | Some x \<Rightarrow> execute_on x answer s))"

definition ExecuteQuery :: "nat outcome \<Rightarrow> db_connection \<Rightarrow> unit outcome \<times> db_connection" where
  "ExecuteQuery answer s =
     (case dc_preparedStatement s of None \<Rightarrow> (Ret (), s) | Some x \<Rightarrow> execute_on x answer s)"

text \<open>
  All the setters: the value goes to the next index of the prepared statement; without one the result is \<open>None\<close>.  The
  index is counted up before the call, so also when the library throws.
\<close>

definition set_value :: "db_value \<Rightarrow> db_connection \<Rightarrow> db_connection option" where
  "set_value v s =
     (case dc_preparedStatement s of
        None \<Rightarrow> None
      | Some x \<Rightarrow> Some (s\<lparr>preparedStmtIndex := preparedStmtIndex s + 1, dc_calls := dc_calls s @ [Ev_Bind x (preparedStmtIndex s) v]\<rparr>))"

datatype dc_call =
    D_SetCommit bool | D_GetStatement "nat outcome" | D_GetStatement_query string "nat outcome"
  | D_ExecuteQuery_query string "nat outcome" "nat outcome" | D_ExecuteQuery "nat outcome" | D_set db_value "unit outcome"

text \<open>A scope: it ends when a call throws; then and at its end the destructor runs.\<close>

fun dc_step :: "dc_call \<Rightarrow> db_connection \<Rightarrow> (unit outcome \<times> db_connection) option" where
  "dc_step (D_SetCommit b) s = Some (Ret (), SetCommit b s)"
| "dc_step (D_GetStatement a) s = Some (GetStatement a s)"
| "dc_step (D_GetStatement_query q a) s = Some (GetStatement_query q a s)"
| "dc_step (D_ExecuteQuery_query q c a) s = Some (ExecuteQuery_query q c a s)"
| "dc_step (D_ExecuteQuery a) s = Some (ExecuteQuery a s)"
| "dc_step (D_set v a) s = map_option (Pair a) (set_value v s)"

fun dc_scope :: "dc_call list \<Rightarrow> db_connection \<Rightarrow> db_connection option" where
  "dc_scope [] s = Some (DbConnection_destroy s)"
| "dc_scope (c # cs) s =
     (case dc_step c s of
        None \<Rightarrow> None
      | Some (Throw, s) \<Rightarrow> Some (DbConnection_destroy s)
      | Some (Ret _, s) \<Rightarrow> dc_scope cs s)"

text \<open>What a scope keeps: the mode of the connection, the flag of the last \<open>SetCommit\<close>, and the numbering of values.\<close>

fun is_bind :: "db_event \<Rightarrow> bool" where
  "is_bind (Ev_Bind x i v) = True"
| "is_bind _ = False"

fun bind_index :: "db_event \<Rightarrow> int" where
  "bind_index (Ev_Bind x i v) = i"
| "bind_index _ = 0"

definition ends :: "db_event \<Rightarrow> bool" where
  "ends ev \<longleftrightarrow> ev = Ev_Commit \<or> ev = Ev_Rollback"

definition dc_inv :: "bool \<Rightarrow> db_connection \<Rightarrow> bool" where
  "dc_inv auto s \<longleftrightarrow> dc_auto s = auto \<and> filter ends (dc_calls s) = [] \<and>
     map bind_index (filter is_bind (dc_calls s)) = [1..preparedStmtIndex s - 1] \<and> 1 \<le> preparedStmtIndex s"

lemma dc_inv_init: "DbConnection (Some h) auto = Some s \<Longrightarrow> dc_inv auto s \<and> dc_commit s = False"
  by (auto simp: DbConnection_def dc_inv_def ends_def)

lemma upto_snoc: "1 \<le> i \<Longrightarrow> [1..i - 1] @ [i] = [1..i :: int]"
  using upto_rec2 [of 1 i] by simp

lemma dc_inv_step:
  assumes "dc_inv auto s" and "dc_step c s = Some (r, s')"
  shows "dc_inv auto s' \<and> dc_commit s' = (case c of D_SetCommit b \<Rightarrow> b | _ \<Rightarrow> dc_commit s)"
  using assms
  by (cases c)
    (auto simp: dc_inv_def SetCommit_def GetStatement_def GetStatement_query_def ExecuteQuery_query_def ExecuteQuery_def
      execute_on_def set_value_def ends_def upto_snoc split: outcome.splits option.splits if_splits)

fun last_commit :: "bool \<Rightarrow> dc_call list \<Rightarrow> bool" where
  "last_commit b [] = b"
| "last_commit b (D_SetCommit b' # cs) = last_commit b' cs"
| "last_commit b (c # cs) = last_commit b cs"

text \<open>The calls of a scope that ran, up to the one that throws.\<close>

fun calls_made :: "dc_call list \<Rightarrow> db_connection \<Rightarrow> dc_call list" where
  "calls_made [] s = []"
| "calls_made (c # cs) s =
     (case dc_step c s of None \<Rightarrow> [] | Some (Throw, _) \<Rightarrow> [c] | Some (Ret _, s) \<Rightarrow> c # calls_made cs s)"

lemma last_commit_Cons: "last_commit b (c # cs) = last_commit (case c of D_SetCommit b' \<Rightarrow> b' | _ \<Rightarrow> b) cs"
  by (cases c) simp_all

lemma delete_object_simps [simp]:
  "dc_auto (delete_object p s) = dc_auto s" "dc_commit (delete_object p s) = dc_commit s" "dc_calls (delete_object p s) = dc_calls s"
  "dc_statement (delete_object p s) = dc_statement s" "dc_preparedStatement (delete_object p s) = dc_preparedStatement s"
  by (simp_all add: delete_object_def split: option.splits)

lemma destroy_calls:
  "dc_calls (DbConnection_destroy s) =
     dc_calls s @ (if dc_auto s then [] else [if dc_commit s then Ev_Commit else Ev_Rollback])"
  by (simp add: DbConnection_destroy_def Let_def)

lemma destroy_dc_inv:
  assumes "dc_inv auto s"
  shows "filter ends (dc_calls (DbConnection_destroy s)) = (if auto then [] else [if dc_commit s then Ev_Commit else Ev_Rollback]) \<and>
    (\<exists>n. map bind_index (filter is_bind (dc_calls (DbConnection_destroy s))) = [1..n])"
  using assms by (auto simp: destroy_calls dc_inv_def ends_def)

lemma dc_scope_outcome:
  assumes "dc_inv auto s" and "dc_scope cs s = Some s'"
  shows "filter ends (dc_calls s') =
      (if auto then [] else [if last_commit (dc_commit s) (calls_made cs s) then Ev_Commit else Ev_Rollback]) \<and>
    (\<exists>n. map bind_index (filter is_bind (dc_calls s')) = [1..n])"
  using assms
proof (induction cs arbitrary: s)
  case Nil
  then show ?case using destroy_dc_inv [OF Nil(1)] by auto
next
  case (Cons c cs)
  then obtain r s1 where st: "dc_step c s = Some (r, s1)" by (auto split: option.splits)
  note i = dc_inv_step [OF Cons.prems(1) st]
  show ?case
  proof (cases r)
    case Throw
    then show ?thesis using Cons.prems st i destroy_dc_inv [of auto s1] by (auto simp: last_commit_Cons)
  next
    case (Ret x)
    then show ?thesis using Cons.IH [of s1] Cons.prems(2) st i by (auto simp: last_commit_Cons)
  qed
qed

subsection \<open>MySqlApiConn\<close>

text \<open>
  \<open>mysql_real_connect\<close> returns the structure it was given, here the local variable of \<open>Connect\<close>.  A pointer is the
  number of the call whose variable it points to, \<open>api_frame\<close> the call that is running; using a pointer into
  another call is undefined (\<open>None\<close>).  The answers of the library are arguments: whether the connection is made
  and the database selected, and what \<open>mysql_ping\<close> returns (zero on success).
\<close>

record api_conn =
  api_dbInfo :: MySqlDbInfo
  api_ptr :: "nat option"
  api_frame :: "nat option"
  api_calls :: nat

definition MySqlApiConn :: api_conn where
  "MySqlApiConn = \<lparr>api_dbInfo = MySqlDbInfo_init, api_ptr = None, api_frame = None, api_calls = 0\<rparr>"

definition api_use :: "nat \<Rightarrow> api_conn \<Rightarrow> unit option" where
  "api_use p s = (if api_frame s = Some p then Some () else None)"

definition Api_SetDbInfo :: "MySqlDbInfo \<Rightarrow> api_conn \<Rightarrow> api_conn" where
  "Api_SetDbInfo info s = s\<lparr>api_dbInfo := info\<rparr>"

definition Api_Connect :: "bool \<times> bool \<Rightarrow> api_conn \<Rightarrow> (nat option \<times> api_conn) option" where
  "Api_Connect answer s =
     (let (connected, selected) = answer; me = api_calls s;
          s = s\<lparr>api_frame := Some me, api_calls := me + 1\<rparr>
      in do {
        s \<leftarrow> (if \<not> connected then Some s
             else if selected then Some (s\<lparr>api_ptr := Some me\<rparr>)
             else do { _ \<leftarrow> api_use me s; Some s });
        Some (api_ptr s, s\<lparr>api_frame := None\<rparr>) })"

definition Api_Disconnect :: "api_conn \<Rightarrow> api_conn option" where
  "Api_Disconnect s = (case api_ptr s of None \<Rightarrow> Some s | Some p \<Rightarrow> do { _ \<leftarrow> api_use p s; Some (s\<lparr>api_ptr := None\<rparr>) })"

fun api_retry :: "((bool \<times> bool) \<times> int) list \<Rightarrow> api_conn \<Rightarrow> (nat option \<times> api_conn) option" where
  "api_retry [] s = do { s \<leftarrow> Api_Disconnect s; Some (None, s) }"
| "api_retry ((answer, ping) # as) s = do {
     (p, s) \<leftarrow> Api_Connect answer s;
     let s = s\<lparr>api_ptr := p\<rparr>;
     (case p of
        None \<Rightarrow> api_retry as s
      | Some q \<Rightarrow> do { _ \<leftarrow> api_use q s; if ping \<noteq> 0 then Some (p, s) else api_retry as s }) }"

text \<open>\<open>answers\<close> gives the answers of the five rounds.\<close>

definition Api_TryReconnect :: "((bool \<times> bool) \<times> int) list \<Rightarrow> api_conn \<Rightarrow> (nat option \<times> api_conn) option" where
  "Api_TryReconnect answers s = do {
     s \<leftarrow> (case api_ptr s of None \<Rightarrow> Some s | Some p \<Rightarrow> do { _ \<leftarrow> api_use p s; Some (s\<lparr>api_ptr := None\<rparr>) });
     api_retry (take 5 answers) s }"

definition Api_GetDbConnection :: "bool \<times> bool \<Rightarrow> int \<Rightarrow> ((bool \<times> bool) \<times> int) list \<Rightarrow> api_conn \<Rightarrow> (nat option \<times> api_conn) option" where
  "Api_GetDbConnection answer ping answers s =
     (case api_ptr s of
        Some p \<Rightarrow> do {
          _ \<leftarrow> api_use p s;
          if ping \<noteq> 0 then do { (q, s) \<leftarrow> Api_TryReconnect answers s; Some (q, s\<lparr>api_ptr := q\<rparr>) } else Some (api_ptr s, s) }
      | None \<Rightarrow> do { (q, s) \<leftarrow> Api_Connect answer s; Some (q, s\<lparr>api_ptr := q\<rparr>) })"

subsection \<open>Properties\<close>

text \<open>
  C29: The connection of \<open>MySqlCppConn\<close>: whatever the driver answers and throws, and in whatever order the methods are
  called, exactly the connection object the pointer names exists: none leaks, none is deleted twice, and the
  pointer is never left at a deleted object.
\<close>

theorem cpp_conn_owns_one:
  "(case fold (cpp_step d) calls (MySqlCppConn, w) of (s, w') \<Rightarrow> alive s = (case conn s of None \<Rightarrow> [] | Some h \<Rightarrow> [h]))"
  using owns_steps [of "(MySqlCppConn, w)" d calls] by (auto simp: owns_def MySqlCppConn_def)

text \<open>
  A connection that recovers by itself is thrown away: when the first reconnect of \<open>Connect\<close> fails and the
  connection is valid again by the time \<open>TryReconnect\<close> looks, \<open>Connect\<close> closes it and returns null.
\<close>

theorem recovered_connection_dropped:
  assumes "owns s" and "conn s = Some h" and "d_isValid d h w = (Ret False, w1)" and "d_reconnect d h w1 = (Ret False, w2)"
    and valid: "d_isValid d h w2 = (Ret True, w2)" and "d_close d h w2 = (Ret (), w3)"
  shows "MySql_Connect d s w = (None, s\<lparr>conn := None, alive := []\<rparr>, w3)"
proof -
  have "reconnect_loop d n s w2 = (Ret False, w2)" for n using assms(2) valid by (induction n) simp_all
  then show ?thesis
    using assms by (simp add: MySql_Connect_def TryReconnect_def MySql_Disconnect_def owns_def Let_def)
qed

theorem recovered_connection_dropped_witness:
  "MySql_Connect \<lparr>d_connect = \<lambda>_ n. (Throw, n), d_setSchema = \<lambda>_ _ n. (Throw, n), d_isValid = \<lambda>_ n. (Ret (0 < n), n),
      d_reconnect = \<lambda>_ n. (Ret False, n + 1), d_close = \<lambda>_ n. (Ret (), n)\<rparr>
    \<lparr>dbInfo = MySqlDbInfo_init, conn = Some 7, alive = [7]\<rparr> (0 :: nat) =
   (None, \<lparr>dbInfo = MySqlDbInfo_init, conn = None, alive = []\<rparr>, 1)"
  by (subst recovered_connection_dropped [where h = 7 and ?w1.0 = 0 and ?w2.0 = 1 and ?w3.0 = 1]) (simp_all add: owns_def)

text \<open>
  C28: One transaction: a scope that is opened without automatic commit ends with exactly one commit, when the last
  \<open>SetCommit\<close> before its end or before the exception that leaves it said so, and with exactly one rollback otherwise; with
  automatic commit it issues neither.  The values bound in the scope are numbered from 1 without a gap over the
  whole scope, also across a second prepared statement, whose first value is thus not number 1.
\<close>

theorem transaction_outcome:
  assumes "DbConnection (Some h) auto = Some s" and "dc_scope calls s = Some s'"
  shows "filter ends (dc_calls s') =
      (if auto then [] else [if last_commit False (calls_made calls s) then Ev_Commit else Ev_Rollback]) \<and>
    (\<exists>n. map bind_index (filter is_bind (dc_calls s')) = [1..n])"
  using dc_scope_outcome [OF _ assms(2), of auto] dc_inv_init [OF assms(1)] by simp

theorem transaction_outcome_witness:
  "\<exists>s s'. DbConnection (Some 3) False = Some s \<and>
     dc_scope [D_GetStatement_query ''a'' (Ret 1), D_set (V_Int 5) (Ret ()), D_SetCommit True, D_GetStatement_query ''b'' (Ret 2),
       D_set (V_Int 6) (Ret ()), D_ExecuteQuery (Ret 4)] s = Some s' \<and>
     filter ends (dc_calls s') = [Ev_Commit] \<and> Ev_Bind 2 2 (V_Int 6) \<in> set (dc_calls s')"
proof -
  let ?cs = "[D_GetStatement_query ''a'' (Ret 1), D_set (V_Int 5) (Ret ()), D_SetCommit True, D_GetStatement_query ''b'' (Ret 2),
       D_set (V_Int 6) (Ret ()), D_ExecuteQuery (Ret 4)]"
  obtain s where s: "DbConnection (Some 3) False = Some s" by (simp add: DbConnection_def)
  obtain s' where s': "dc_scope ?cs s = Some s'" "Ev_Bind 2 2 (V_Int 6) \<in> set (dc_calls s')"
    and made: "calls_made ?cs s = ?cs"
    using s by (auto simp: DbConnection_def GetStatement_query_def set_value_def SetCommit_def ExecuteQuery_def execute_on_def destroy_calls)
  from transaction_outcome [OF s s'(1)] made have "filter ends (dc_calls s') = [Ev_Commit]" by simp
  then show ?thesis using s s' by blast
qed

text \<open>
  \<open>MySqlApiConn\<close>: a successful \<open>Connect\<close> stores a pointer to its own local variable, so every later use of the
  object (\<open>GetDbConnection\<close>, \<open>TryReconnect\<close>, \<open>Disconnect\<close> and with it the destructor) is undefined.
\<close>

theorem api_pointer_dangles:
  "\<exists>p s'. Api_Connect (True, True) s = Some (Some p, s') \<and> Api_Disconnect s' = None \<and> Api_TryReconnect answers s' = None \<and>
     Api_GetDbConnection answer ping answers s' = None"
  by (simp add: Api_Connect_def Api_Disconnect_def Api_TryReconnect_def Api_GetDbConnection_def api_use_def Let_def)

end
