(* ===== verification/Database_Samples.thy ===== *)
theory Database_Samples
  imports Database
begin

text \<open>
  The sample programs at the end of \<^verbatim>\<open>_lib/MySQL.cpp\<close>: \<open>_querySample\<close> and the three \<open>_test\<close> functions, composed
  from the classes of \<^verbatim>\<open>Database\<close>.  \<open>None\<close> is the use of a null connection, which no handler catches.  The
  answers of the library to the statements are arguments; the rows printed by the first two samples are left out.
\<close>

text \<open>One block of \<open>_querySample\<close>: what the driver throws ends the scope and is reported.\<close>

definition sample_scope :: "'w driver \<Rightarrow> dc_call list \<Rightarrow> cpp_conn \<times> 'w \<Rightarrow> (db_connection \<times> cpp_conn \<times> 'w) option" where
  "sample_scope d calls = (\<lambda>(s, w).
     case GetDbConnection d s w of (p, s, w) \<Rightarrow>
       do { dc \<leftarrow> DbConnection p True; dc \<leftarrow> dc_scope calls dc; Some (dc, s, w) })"

record sample_answers =
  a_statement :: "nat outcome"
  a_count :: "nat outcome"
  a_prepared :: "nat outcome"
  a_value :: "unit outcome"
  a_cities :: "nat outcome"

definition count_calls :: "sample_answers \<Rightarrow> dc_call list" where
  "count_calls a = [D_ExecuteQuery_query ''SELECT count(*) FROM city'' (a_statement a) (a_count a)]"

definition city_calls :: "sample_answers \<Rightarrow> dc_call list" where
  "city_calls a = [D_GetStatement_query ''SELECT name, Population FROM city WHERE CountryCode = ?'' (a_prepared a),
     D_set (V_String ''kor'') (a_value a), D_ExecuteQuery (a_cities a)]"

definition querySample ::
  "'w driver \<Rightarrow> sample_answers \<Rightarrow> cpp_conn \<times> 'w \<Rightarrow> (db_connection \<times> db_connection \<times> cpp_conn \<times> 'w) option" where
  "querySample d a sw = do {
     (dc1, sw) \<leftarrow> sample_scope d (count_calls a) sw;
     (dc2, sw) \<leftarrow> sample_scope d (city_calls a) sw;
     Some (dc1, dc2, sw) }"

definition Cpp_test ::
  "'w driver \<Rightarrow> sample_answers \<Rightarrow> cpp_conn \<times> 'w \<Rightarrow> (db_connection \<times> db_connection \<times> cpp_conn \<times> 'w) option" where
  "Cpp_test d a = (\<lambda>(s, w).
     let s = SetDbInfo \<lparr>server = ''tcp://192.168.35.227:3306'', username = ''user_pl'', password = ''pass_pl'', database = ''world''\<rparr> s
     in querySample d a (snd (MySql_Connect d s w)))"

text \<open>The sample of the C interface: the lines it prints and whether the connection is closed.\<close>

definition Api_test :: "bool \<Rightarrow> string option \<Rightarrow> bool \<Rightarrow> string list option \<Rightarrow> string list \<times> bool" where
  "Api_test init_ok connect_error selected rows =
     (let out = (if init_ok then [] else [''mysql_init fail''])
      in case connect_error of
           Some err \<Rightarrow> (out @ [''mysql_real_connect fail: '' @ err], False)
         | None \<Rightarrow>
             (out @ [''mysql connect success''] @
              (if selected
               then [''query: SELECT count(*) FROM city''] @ (case rows of Some rs \<Rightarrow> rs | None \<Rightarrow> []) @ [''query result end'']
               else []), True))"

subsection \<open>Properties\<close>

lemma scope_connected:
  assumes "sample_scope d cs (s, w) = Some (dc', y)"
  shows "\<exists>h dc. DbConnection (Some h) True = Some dc \<and> dc_scope cs dc = Some dc'"
proof -
  obtain p s1 w1 where g: "GetDbConnection d s w = (p, s1, w1)" using prod_cases3 by blast
  obtain dc where dc: "DbConnection p True = Some dc" "dc_scope cs dc = Some dc'"
    using assms g by (auto simp: sample_scope_def Option.bind_eq_Some_conv)
  then obtain h where "p = Some h" by (cases p) (auto simp: DbConnection_def)
  then show ?thesis using dc by blast
qed

lemma offline_connect:
  assumes "\<forall>i w. fst (d_connect d i w) = Throw" and "conn s = None"
  shows "\<exists>w'. MySql_Connect d s w = (None, s, w')"
proof -
  obtain w1 where "d_connect d (dbInfo s) w = (Throw, w1)" using assms(1) by (metis prod.collapse)
  then show ?thesis using assms(2) by (simp add: MySql_Connect_def)
qed

lemma count_scope_frees:
  assumes "DbConnection (Some h) True = Some dc" and "dc_scope (count_calls a) dc = Some dc'"
  shows "dc_objects dc' = []"
  using assms
  by (auto simp: DbConnection_def count_calls_def ExecuteQuery_query_def GetStatement_def execute_on_def
      DbConnection_destroy_def delete_object_def Let_def split: outcome.splits if_splits)

lemma city_scope_frees:
  assumes "DbConnection (Some h) True = Some dc" and "dc_scope (city_calls a) dc = Some dc'"
  shows "dc_objects dc' = []"
  using assms
  by (auto simp: DbConnection_def city_calls_def GetStatement_query_def ExecuteQuery_def execute_on_def set_value_def
      DbConnection_destroy_def delete_object_def Let_def split: outcome.splits if_splits)

text \<open>
  The samples and the server being away.  With a connection, both scopes of \<open>_querySample\<close> delete every
  statement and result set they made, whatever the library answers or throws; when the first connection
  attempt fails and so does the next, the sample uses the null connection, outside of what its handlers catch.
\<close>

theorem sample_frees_or_crashes:
  "(querySample d a sw = Some (dc1, dc2, sw') \<longrightarrow> dc_objects dc1 = [] \<and> dc_objects dc2 = []) \<and>
   ((\<forall>i w. fst (d_connect d i w) = Throw) \<longrightarrow> Cpp_test d a (MySqlCppConn, w0) = None)"
proof (intro conjI impI)
  assume q: "querySample d a sw = Some (dc1, dc2, sw')"
  then obtain sw1 where q1: "sample_scope d (count_calls a) sw = Some (dc1, sw1)"
    and q2: "sample_scope d (city_calls a) sw1 = Some (dc2, sw')"
    by (auto simp: querySample_def Option.bind_eq_Some_conv)
  show "dc_objects dc1 = []" using scope_connected [of d _ "fst sw" "snd sw"] q1 count_scope_frees by simp blast
  show "dc_objects dc2 = []" using scope_connected [of d _ "fst sw1" "snd sw1"] q2 city_scope_frees by simp blast
next
  assume off: "\<forall>i w. fst (d_connect d i w) = Throw"
  let ?s = "SetDbInfo \<lparr>server = ''tcp://192.168.35.227:3306'', username = ''user_pl'', password = ''pass_pl'', database = ''world''\<rparr> MySqlCppConn"
  have c: "conn ?s = None" by (simp add: SetDbInfo_def MySqlCppConn_def)
  obtain w1 w2 where w1: "MySql_Connect d ?s w0 = (None, ?s, w1)" and w2: "MySql_Connect d ?s w1 = (None, ?s, w2)"
    using offline_connect [OF off c] by blast
  have "sample_scope d (count_calls a) (?s, w1) = None"
    using w2 by (simp add: sample_scope_def GetDbConnection_def DbConnection_def)
  then show "Cpp_test d a (MySqlCppConn, w0) = None"
    using w1 by (simp add: Cpp_test_def querySample_def Let_def)
qed

end
