(* ===== verification/Mains.thy ===== *)
theory Mains
  imports Net_Control
begin

text \<open>
  The functions \<open>main\<close> of \<^verbatim>\<open>svr/main.cpp\<close> and \<^verbatim>\<open>cli/main.cpp\<close>, from the arguments to the exit code.  The files and the
  parser of the JSON library are parameters, and so is what is typed: for the server what each \<open>cin >> cmd\<close> stores,
  for the client whether its command thread is ever told to leave.  When the input of the server ends, \<open>cmd\<close>
  keeps its content and the loop goes on.
\<close>

definition main_svr ::
  "(string \<Rightarrow> string option) \<Rightarrow> (string \<Rightarrow> json) \<Rightarrow> string list \<Rightarrow> init_env \<Rightarrow> string list \<Rightarrow> json \<Rightarrow> network \<Rightarrow> int outcome option" where
  "main_svr files parse argv e cmds doc0 nt =
     (let configPath = config_path argv ''config_svr.json'';
          (loaded, doc) = LoadConfig parse (files configPath) doc0
      in if \<not> loaded then Some (Ends 1)
         else do {
           (ok, serverConfig) \<leftarrow> ServerConfig_SetConfig doc;
           if \<not> ok then Some (Ends 1)
           else do {
             (ok, ap) \<leftarrow> App_Init_svr e doc (App nt);
             if \<not> ok then Some (Ends 1)
             else Some (let ap = ProcessThread_begin (snd (App_Start_svr ap))
                        in if ''/exit'' \<in> set cmds then bind_outcome (App_Stop_svr ap) (\<lambda>_. Ends 0) else Never_ends) } })"

definition main_cli ::
  "(string \<Rightarrow> string option) \<Rightarrow> (string \<Rightarrow> json) \<Rightarrow> string list \<Rightarrow> init_env \<Rightarrow> bool \<Rightarrow> json \<Rightarrow> client_config \<Rightarrow> network \<Rightarrow> int outcome option" where
  "main_cli files parse argv e leaves doc0 cfg nt =
     (let configPath = config_path argv ''config_cli.json'';
          (loaded, doc) = LoadConfig parse (files configPath) doc0
      in if \<not> loaded then Some (Ends 1)
         else do {
           (ok, clientConfig) \<leftarrow> ClientConfig_SetConfig cfg doc;
           if \<not> ok then Some (Ends 1)
           else do {
             (ok, ap) \<leftarrow> App_Init_cli e doc (App nt);
             Some (bind_outcome
               (if ok then App_Start_cli (\<lambda>ap. if leaves then App_Stop_cli (ProcessThread_begin ap) else Never_ends) ap else Ends ap)
               (\<lambda>ap. bind_outcome (App_Stop_cli ap) (\<lambda>_. Ends 0))) } })"

lemma bind_outcome_Ends: "bind_outcome x f = Ends y \<longleftrightarrow> (\<exists>z. x = Ends z \<and> f z = Ends y)"
  by (cases x) simp_all

text \<open>
  C33: How the programs end.  The server never returns 0: without its configuration or when the network cannot be
  initialized it returns 1, without \<^verbatim>\<open>/exit\<close> it runs for ever, and \<^verbatim>\<open>/exit\<close> makes it end with an exception.
  The client returns 0 only when its network could not be initialized; told to leave it throws.
\<close>

theorem main_exit_codes:
  assumes "threads nt = []"
  shows "main_svr files parse argv e cmds doc0 nt =
      (case files (config_path argv ''config_svr.json'') of
         None \<Rightarrow> Some (Ends 1)
       | Some content \<Rightarrow>
           if \<not> is_object (parse content) then Some (Ends 1)
           else (case App_Init_svr e (parse content) (App nt) of
                   None \<Rightarrow> None
                 | Some (ok, ap) \<Rightarrow> Some (if \<not> ok then Ends 1 else if ''/exit'' \<in> set cmds then Throws else Never_ends))) \<and>
    (main_cli files parse argv e leaves doc0 cfg nt = Some (Ends 0) \<longrightarrow>
      (\<exists>content ap. files (config_path argv ''config_cli.json'') = Some content \<and> App_Init_cli e (parse content) (App nt) = Some (False, ap)))"
proof
  have stop: "App_Stop_svr (ProcessThread_begin (snd (App_Start_svr ap))) = Throws"
    if "App_Init_svr e doc (App nt) = Some (True, ap)" for doc ap
    using shutdown_throws [OF that _ assms] that by (simp add: App_Init_same)
  have cfg: "\<exists>sc. ServerConfig_SetConfig doc = Some (True, sc)" if "is_object doc" for doc
    using that by (auto elim!: is_object_obtain simp: ServerConfig_SetConfig_def config_defs)
  show "main_svr files parse argv e cmds doc0 nt =
      (case files (config_path argv ''config_svr.json'') of
         None \<Rightarrow> Some (Ends 1)
       | Some content \<Rightarrow>
           if \<not> is_object (parse content) then Some (Ends 1)
           else (case App_Init_svr e (parse content) (App nt) of
                   None \<Rightarrow> None
                 | Some (ok, ap) \<Rightarrow> Some (if \<not> ok then Ends 1 else if ''/exit'' \<in> set cmds then Throws else Never_ends)))"
  proof (cases "files (config_path argv ''config_svr.json'')")
    case (Some content)
    show ?thesis
    proof (cases "is_object (parse content)")
      case True
      then obtain sc where "ServerConfig_SetConfig (parse content) = Some (True, sc)" using cfg by blast
      then show ?thesis
        using Some True stop
        by (auto simp: main_svr_def LoadConfig_def Let_def is_object_def split: json.splits option.splits prod.splits bind_splits)
    qed (use Some in \<open>simp add: main_svr_def LoadConfig_def Let_def is_object_def split: json.splits\<close>)
  qed (simp add: main_svr_def LoadConfig_def)
next
  have start: "App_Start_cli (\<lambda>ap. if leaves then App_Stop_cli (ProcessThread_begin ap) else Never_ends) ap \<noteq> Ends ap' \<or> App_Stop_cli ap' = Throws"
    if "App_Init_cli e doc (App nt) = Some (True, ap)" for doc ap ap'
    using shutdown_throws [OF _ that assms, of ap] that
    by (cases leaves) (auto simp: App_Init_same App_Start_cli_def)
  show "main_cli files parse argv e leaves doc0 cfg nt = Some (Ends 0) \<longrightarrow>
      (\<exists>content ap. files (config_path argv ''config_cli.json'') = Some content \<and> App_Init_cli e (parse content) (App nt) = Some (False, ap))"
  proof
    assume m: "main_cli files parse argv e leaves doc0 cfg nt = Some (Ends 0)"
    then obtain content where c: "files (config_path argv ''config_cli.json'') = Some content"
      by (cases "files (config_path argv ''config_cli.json'')") (auto simp: main_cli_def LoadConfig_def)
    obtain ok ap where i: "App_Init_cli e (parse content) (App nt) = Some (ok, ap)"
      and r: "bind_outcome (if ok then App_Start_cli (\<lambda>ap. if leaves then App_Stop_cli (ProcessThread_begin ap) else Never_ends) ap else Ends ap)
               (\<lambda>ap. bind_outcome (App_Stop_cli ap) (\<lambda>_. Ends 0)) = (Ends 0 :: int outcome)"
      using m c by (auto simp: main_cli_def LoadConfig_def Let_def split: prod.splits bind_splits if_splits)
    have "\<not> ok"
    proof
      assume ok
      then obtain ap' where "App_Start_cli (\<lambda>ap. if leaves then App_Stop_cli (ProcessThread_begin ap) else Never_ends) ap = Ends ap'"
        "App_Stop_cli ap' \<noteq> Throws"
        using r by (auto simp: bind_outcome_Ends)
      then show False using start i \<open>ok\<close> by auto
    qed
    then show "\<exists>content ap. files (config_path argv ''config_cli.json'') = Some content \<and> App_Init_cli e (parse content) (App nt) = Some (False, ap)"
      using c i by auto
  qed
qed

definition demo_init :: init_env where
  "demo_init = \<lparr>ie_startup = True, ie_port = True,
     ie_listen = \<lparr>le_socket = 1, le_port_ok = True, le_bind_ok = True, le_listen_ok = True, le_ioctl_ok = True\<rparr>,
     ie_accepts = (\<lambda>_. \<lparr>env_junk = (\<lambda>_. 0), env_fresh = id, env_socket = 2, env_port_ok = True,
       env_wsa = WSA_OK, env_accept = WSA_OK\<rparr>)\<rparr>"

theorem main_exit_codes_witness:
  "main_svr (\<lambda>_. Some []) (\<lambda>_. J_Object []) [''svr''] demo_init [''/exit''] (J_Object []) (demo_net 7) = Some Throws \<and>
   main_svr (\<lambda>_. None) (\<lambda>_. J_Object []) [''svr''] demo_init [''/exit''] (J_Object []) (demo_net 7) = Some (Ends 1)"
proof -
  have two: "replicate 2 True = [True, True]" by (simp add: numeral_eq_Suc)
  have t: "threads (demo_net 7) = []" by (simp add: demo_net_def)
  have "\<exists>cfg nt1. Network_Initialize demo_init (J_Object []) NetworkConfig (demo_net 7) = Some (True, cfg, nt1)"
    by (simp add: demo_init_def Network_Initialize_def start_accepting_def NetworkConfig_SetConfig_def config_defs
        GetServerInfo_def NetworkConfig_def as_bool_def demo_net_def two)
  then obtain ap where "App_Init_svr demo_init (J_Object []) (App (demo_net 7)) = Some (True, ap)"
    by (auto simp: App_Init_svr_def App_def)
  then show ?thesis using main_exit_codes [OF t] by (simp add: is_object_def)
qed

end
