(* ===== verification/Net_Names.thy ===== *)
theory Net_Names
  imports Network Protocol_CS
begin

text \<open>
  Names and addresses of connections, from \<^verbatim>\<open>_framework/connector.cpp\<close> and \<^verbatim>\<open>network.cpp\<close>: the wide-character
  \<open>SetDomain\<close> and \<open>Connect\<close>, the text of a peer's address, name lookup; and the server's \<open>CheckHeartbeat\<close> of
  \<^verbatim>\<open>svr/connector_impl.cpp\<close>.  Wide strings are lists of 16-bit words.  The connector's wide copy of its name
  is returned beside it.  The C runtime converts in its default locale, where a wide character above 255 has
  no multibyte form.  \<open>None\<close> is the call of the invalid-parameter handler.
\<close>

type_synonym wide = "u16 list"

definition MAX_LEN_IP4_STRING :: nat where
  "MAX_LEN_IP4_STRING = 16"

definition widen :: "string \<Rightarrow> wide" where
  "widen s = map (\<lambda>c. of_nat (of_char c)) s"

text \<open>\<open>wcstombs_s\<close> with \<open>_TRUNCATE\<close>: a character without a multibyte form empties the destination.\<close>

definition wcstombs_s :: "nat \<Rightarrow> wide \<Rightarrow> string" where
  "wcstombs_s n ws =
     (let us = take (n - 1) ws
      in if list_all (\<lambda>w. unat w < 256) us then map (\<lambda>w. char_of (unat w)) us else [])"

definition mbstowcs_s :: "nat \<Rightarrow> string \<Rightarrow> nat \<Rightarrow> wide option" where
  "mbstowcs_s n s cnt = (if min (length s) cnt < n then Some (widen (take cnt s)) else None)"

definition SetDomain :: "connector \<Rightarrow> wide \<Rightarrow> u16 \<Rightarrow> (connector \<times> wide) option" where
  "SetDomain c pwcsDomain port =
     (if length pwcsDomain < MAX_LEN_DOMAIN_STRING
      then Some (c\<lparr>szDomain := wcstombs_s MAX_LEN_DOMAIN_STRING pwcsDomain, wPort := port\<rparr>, pwcsDomain)
      else None)"

subsection \<open>The address of the peer\<close>

text \<open>\<open>inet_ntop\<close> for the four bytes of an IPv4 address: decimal numbers with points between them.\<close>

fun inet_ntop4 :: "bytes \<Rightarrow> string" where
  "inet_ntop4 [] = []"
| "inet_ntop4 [b] = digits (unat b)"
| "inet_ntop4 (b # bs) = digits (unat b) @ ''.'' @ inet_ntop4 bs"

text \<open>\<open>peer\<close>: the address \<open>getpeername\<close> leaves in \<open>SockAddr\<close>.  A text that does not fit is not stored.\<close>

definition GetSocket2IP :: "bytes \<Rightarrow> string option" where
  "GetSocket2IP peer = (let s = inet_ntop4 peer in if length s < MAX_LEN_IP4_STRING then Some s else None)"

definition ConvertSocket2IP :: "connector \<Rightarrow> bytes \<Rightarrow> (connector \<times> wide) option" where
  "ConvertSocket2IP c peer = do {
     let c = (if length (inet_ntop4 peer) < MAX_LEN_DOMAIN_STRING + 1 then c\<lparr>szDomain := inet_ntop4 peer\<rparr> else c);
     w \<leftarrow> mbstowcs_s MAX_LEN_IP4_STRING (szDomain c) MAX_LEN_IP4_STRING;
     Some (c, w) }"

subsection \<open>Looking up names\<close>

text \<open>
  What \<open>getaddrinfo\<close> finds first: an IPv4 address, an IPv6 address (with the text \<open>inet_ntop\<close> has for it), or
  an address of another family, for which \<open>inet_ntop\<close> stores nothing.
\<close>

datatype host_address = AF_INET bytes | AF_INET6 string | AF_other

definition lookup_host :: "(string \<Rightarrow> host_address option) \<Rightarrow> string \<Rightarrow> (bool \<times> string) option" where
  "lookup_host getaddrinfo hostname =
     (if length hostname < MAX_LEN_DOMAIN_STRING
      then Some (case getaddrinfo hostname of
          None \<Rightarrow> (False, [])
        | Some (AF_INET bs) \<Rightarrow> (True, inet_ntop4 bs)
        | Some (AF_INET6 t) \<Rightarrow> (True, t)
        | Some AF_other \<Rightarrow> (True, []))
      else None)"

record resolver =
  getaddrinfo :: "string \<Rightarrow> host_address option"
  InetPton :: "wide \<Rightarrow> bytes option"

definition iswalpha :: "u16 \<Rightarrow> bool" where
  "iswalpha w \<longleftrightarrow> 65 \<le> unat w \<and> unat w \<le> 90 \<or> 97 \<le> unat w \<and> unat w \<le> 122"

text \<open>
  The address \<open>Connect(WCHAR)\<close> connects to.  The structure is cleared first, so it stays 0.0.0.0 when the
  name is not found, which is only logged, or when the text is not an IPv4 address.
\<close>

definition connect_address :: "resolver \<Rightarrow> connector \<Rightarrow> wide \<Rightarrow> bytes option" where
  "connect_address rs c pwcsDomain =
     (let addr0 = replicate 4 0;
          first = (case pwcsDomain of [] \<Rightarrow> 0 | w # ws \<Rightarrow> w)
      in if iswalpha first then do {
           (found, ip) \<leftarrow> lookup_host (getaddrinfo rs) (szDomain c);
           Some (if found then (case InetPton rs (widen ip) of Some bs \<Rightarrow> bs | None \<Rightarrow> addr0) else addr0) }
         else Some (case InetPton rs pwcsDomain of Some bs \<Rightarrow> bs | None \<Rightarrow> addr0))"

text \<open>The answer has the address beside what \<open>DoConnect\<close> answers.\<close>

definition Connect_wide ::
  "resolver \<Rightarrow> (nat \<Rightarrow> byte) \<Rightarrow> (nat \<Rightarrow> addr) \<Rightarrow> SOCKET \<Rightarrow> bool \<Rightarrow> bool \<Rightarrow> wsa \<Rightarrow> network \<Rightarrow> wide \<Rightarrow> u16 \<Rightarrow>
   (addr option \<times> bytes \<times> network) option" where
  "Connect_wide rs junk fresh s connected port_ok w nt pwcsDomain port =
     (case GetFreeConnector junk fresh nt of
        (None, nt) \<Rightarrow> Some (None, [], nt)
      | (Some a, nt) \<Rightarrow> do {
          (c, wcs) \<leftarrow> SetDomain (connectors nt a) pwcsDomain port;
          let nt = upd_connector nt a c;
          ip \<leftarrow> connect_address rs c pwcsDomain;
          (r, nt) \<leftarrow> DoConnect s connected port_ok w nt a;
          Some (r, ip, nt) })"

subsection \<open>Sending from the connector\<close>

definition AddSendData :: "(nat \<Rightarrow> byte) \<Rightarrow> wsa \<Rightarrow> network \<Rightarrow> addr \<Rightarrow> bytes \<Rightarrow> u32 \<Rightarrow> (eResultCode \<times> network) option" where
  "AddSendData junk w nt a data n = Write junk w nt (Some a) (Some data) n"

text \<open>
  The server's \<open>CheckHeartbeat\<close> sends the packet object itself: the pointer to its virtual functions, the type
  and the padding behind it.
\<close>

definition heartbeat_object :: "bytes \<Rightarrow> bytes \<Rightarrow> bytes" where
  "heartbeat_object vptr padding = vptr @ le_bytes 4 (c2s_code C2S_heartbeat) @ padding"

definition CheckHeartbeat_svr ::
  "(nat \<Rightarrow> byte) \<Rightarrow> wsa \<Rightarrow> network \<Rightarrow> addr \<Rightarrow> bytes \<Rightarrow> int \<Rightarrow> (bool \<times> network) option" where
  "CheckHeartbeat_svr junk w nt a object biCurrTime =
     (let c = connectors nt a;
          c = (if 0 = cn_HeartbeatTimer c then c\<lparr>cn_HeartbeatTimer := biCurrTime + MILLISEC_A_SEC * 30\<rparr> else c)
      in if GetActive c \<and> cn_HeartbeatTimer c < biCurrTime
         then do {
           (r, nt) \<leftarrow> AddSendData junk w (upd_connector nt a (c\<lparr>cn_HeartbeatTimer := biCurrTime + MILLISEC_A_SEC * 30\<rparr>))
             a object (of_nat (length object));
           Some (True, nt) }
         else Some (False, upd_connector nt a c))"

subsection \<open>Properties\<close>

lemma length_byte_digits: "length (digits (unat (b :: byte))) \<le> 3"
  using digits_bounds(1) [of "unat b" 2] unsigned_less [of b, where ?'a = nat] by simp

lemma length_inet_ntop4: "length bs = 4 \<Longrightarrow> length (inet_ntop4 bs) \<le> 15"
proof -
  assume "length bs = 4"
  then obtain a b c d where "bs = [a, b, c, d]" by (auto simp: length_Suc_conv numeral_eq_Suc)
  then show ?thesis
    using length_byte_digits [of a] length_byte_digits [of b] length_byte_digits [of c] length_byte_digits [of d] by simp
qed

lemma unat_of_char: "unat (of_nat (of_char c) :: u16) = of_char c"
proof -
  have "(of_char c :: nat) < 256" by (metis of_char_mod_256 mod_less_divisor zero_less_numeral)
  then have "(of_char c :: nat) mod 65536 = of_char c" by (intro mod_less) linarith
  then show ?thesis by (simp add: unat_of_nat)
qed

lemma narrow_widen: "map (\<lambda>w. char_of (unat (w :: u16))) (widen s) = s" "list_all (\<lambda>w. unat (w :: u16) < 256) (widen s)"
proof -
  note u = unat_of_char
  show "map (\<lambda>w. char_of (unat (w :: u16))) (widen s) = s" by (simp add: widen_def u comp_def)
  show "list_all (\<lambda>w. unat (w :: u16) < 256) (widen s)" by (auto simp: widen_def u list_all_iff)
qed

lemma SetDomain_widen:
  "SetDomain c (widen s) port =
     (if length s < MAX_LEN_DOMAIN_STRING then Some (SetDomainA c s port, widen s) else None)"
proof -
  have l: "length (widen s) = length s" by (simp add: widen_def)
  have "wcstombs_s MAX_LEN_DOMAIN_STRING (widen s) = s" if "length s < MAX_LEN_DOMAIN_STRING"
    using that narrow_widen by (simp add: wcstombs_s_def Let_def l)
  then show ?thesis by (simp add: SetDomain_def SetDomainA_def l)
qed

lemma send_live_timer [simp]: "send_live (c\<lparr>cn_HeartbeatTimer := t\<rparr>) \<longleftrightarrow> send_live c"
  by (cases "SendRequest_pBuffer c") (simp_all add: send_live_def send_ok_def GetActive_def)

text \<open>
  The text of a peer's address always fits: the buffer of 16 characters that \<open>GetSocket2IP\<close> is given and the
  16 wide characters \<open>ConvertSocket2IP\<close> allows are enough for every IPv4 address, so neither ends the process,
  and the narrow and the wide name of the connector are the same text.
\<close>

theorem peer_text_fits:
  assumes "length peer = 4"
  shows "GetSocket2IP peer = Some (inet_ntop4 peer) \<and>
    ConvertSocket2IP c peer = Some (c\<lparr>szDomain := inet_ntop4 peer\<rparr>, widen (inet_ntop4 peer)) \<and>
    length (inet_ntop4 peer) \<le> 15"
proof -
  have "length (inet_ntop4 peer) \<le> 15" by (rule length_inet_ntop4 [OF assms])
  then show ?thesis
    by (simp add: GetSocket2IP_def ConvertSocket2IP_def mbstowcs_s_def MAX_LEN_IP4_STRING_def MAX_LEN_DOMAIN_STRING_def)
qed

theorem peer_text_fits_witness:
  "GetSocket2IP [192, 168, 35, 227] = Some ''192.168.35.227''"
proof -
  have "inet_ntop4 [192, 168, 35, 227] = ''192.168.35.227''" by code_simp
  then show ?thesis using peer_text_fits [of "[192, 168, 35, 227]"] by simp
qed

text \<open>
  The two ways to name a connector agree: for a name shorter than the buffer, \<open>SetDomain\<close> with the wide
  text leaves the connector as \<open>SetDomainA\<close> with the narrow one does.  A longer name is cut by \<open>SetDomainA\<close>
  and ends the process in \<open>SetDomain\<close>.
\<close>

theorem wide_and_narrow_names:
  "SetDomain c (widen s) port =
     (if length s < MAX_LEN_DOMAIN_STRING then Some (SetDomainA c s port, widen s) else None)"
  by (rule SetDomain_widen)

text \<open>
  A name that cannot be found does not stop the wide \<open>Connect\<close>: it goes on to connect to 0.0.0.0, where the
  narrow one gives up.
\<close>

theorem wide_connect_ignores_lookup:
  assumes "s \<noteq> []" and "is_alpha (hd s)" and "length s < MAX_LEN_DOMAIN_STRING" and "getaddrinfo rs s = None"
    and "GetFreeConnector junk fresh nt = (Some a, nt1)"
    and "DoConnect sk connected port_ok w (upd_connector nt1 a (SetDomainA (connectors nt1 a) s port)) a = Some (r, nt2)"
  shows "Connect_wide rs junk fresh sk connected port_ok w nt (widen s) port = Some (r, [0, 0, 0, 0], nt2) \<and>
    (\<exists>nt3. Connect junk fresh False sk connected port_ok w nt s port = Some (None, nt3))"
proof -
  have d: "SetDomain (connectors nt1 a) (widen s) port = Some (SetDomainA (connectors nt1 a) s port, widen s)"
    using assms(3) SetDomain_widen by simp
  obtain ch cs where s: "s = ch # cs" using assms(1) by (cases s) auto
  have al: "iswalpha (of_nat (of_char ch))" using assms(2) s by (simp add: iswalpha_def is_alpha_def unat_of_char Let_def)
  have n: "szDomain (SetDomainA (connectors nt1 a) s port) = s"
    using assms(3) by (simp add: SetDomainA_def)
  have ip: "connect_address rs (SetDomainA (connectors nt1 a) s port) (widen s) = Some [0, 0, 0, 0]"
    using al assms(3,4) n s by (simp add: connect_address_def lookup_host_def widen_def numeral_eq_Suc)
  show ?thesis
    using assms(1,2,5,6) d ip by (simp add: Connect_wide_def Connect_def Let_def)
qed

theorem wide_connect_ignores_lookup_witness:
  "\<exists>nt2 nt3. Connect_wide \<lparr>getaddrinfo = (\<lambda>_. None), InetPton = (\<lambda>_. None)\<rparr> (\<lambda>_. 0) (\<lambda>i. i) INVALID_SOCKET True True WSA_OK
      (demo_net 7) (widen ''host'') 80 = Some (None, [0, 0, 0, 0], nt2) \<and>
    Connect (\<lambda>_. 0) (\<lambda>i. i) False INVALID_SOCKET True True WSA_OK (demo_net 7) ''host'' 80 = Some (None, nt3)"
proof -
  obtain nt1 where g: "GetFreeConnector (\<lambda>_. 0) (\<lambda>i. i) (demo_net 7) = (Some 0, nt1)"
    by (simp add: GetFreeConnector_def PoolMgr_GetFreeObject_def demo_net_def ObjectPoolMgrBase_def upt_conv_Cons Let_def)
  let ?nt = "upd_connector nt1 0 (SetDomainA (connectors nt1 0) ''host'' 80)"
  obtain nt2 where d: "DoConnect INVALID_SOCKET True True WSA_OK ?nt 0 = Some (None, nt2)"
    by (simp add: DoConnect_def Let_def)
  have h: "''host'' \<noteq> []" "is_alpha (hd ''host'')" "length ''host'' < MAX_LEN_DOMAIN_STRING"
    by (simp_all add: is_alpha_def MAX_LEN_DOMAIN_STRING_def)
  show ?thesis
    using wide_connect_ignores_lookup [OF h _ g d, of "\<lparr>getaddrinfo = (\<lambda>_. None), InetPton = (\<lambda>_. None)\<rparr>"] by auto
qed

text \<open>
  The server's connector heartbeat is not a frame: the bytes of the packet object go out as they are, and a
  peer with nothing pending that receives them finds the low half of the object's pointer where the check
  value of a frame should be, so it drops the connection.
\<close>

theorem object_heartbeat_refused:
  assumes "send_live (connectors nt a)" and "cn_HeartbeatTimer (connectors nt a) \<noteq> 0"
    and "cn_HeartbeatTimer (connectors nt a) < t" and "w \<noteq> WSA_FAILED"
    and "length vptr = 8" and "length padding = 4" and "le_word (take 4 vptr) \<noteq> (0 :: u32)"
  shows "\<exists>nt'. CheckHeartbeat_svr junk w nt a (heartbeat_object vptr padding) t = Some (True, nt') \<and>
    outstanding (connectors nt' a) = outstanding (connectors nt a) @ heartbeat_object vptr padding \<and>
    recv_spec [] (heartbeat_object vptr padding) = (False, None, heartbeat_object vptr padding)"
proof -
  let ?o = "heartbeat_object vptr padding" and ?c = "(connectors nt a)\<lparr>cn_HeartbeatTimer := t + MILLISEC_A_SEC * 30\<rparr>"
  have len: "length ?o = 16" using assms(5,6) by (simp add: heartbeat_object_def)
  have live: "send_live (connectors (upd_connector nt a ?c) a)"
    using assms(1) by simp
  obtain nt' where nt': "Write junk w (upd_connector nt a ?c) (Some a) (Some ?o) 16 = Some (succ, nt')"
    "outstanding (connectors nt' a) = outstanding ?c @ take 16 ?o"
    using Write_live [OF live, of 16 ?o w junk] len assms(4) by auto
  have "outstanding ?c = outstanding (connectors nt a)" by (simp add: outstanding_def in_flight_def)
  then have o: "outstanding (connectors nt' a) = outstanding (connectors nt a) @ ?o" using nt'(2) len by simp
  have run: "CheckHeartbeat_svr junk w nt a ?o t = Some (True, nt')"
    using assms(1,2,3) nt'(1) len by (simp add: CheckHeartbeat_svr_def AddSendData_def send_live_def)
  have "ui32CheckHead (head_of ?o) = le_word (take 4 vptr)"
    using assms(5) by (simp add: head_of_def heartbeat_object_def)
  then have "parse_stream ?o = invalid_packet"
    using len assms(7) by (simp add: parse_stream_def PACKET_CHECK_HEAD_KEY_def)
  then have "recv_spec [] ?o = (False, None, ?o)" using len by (simp add: recv_spec_def Let_def)
  then show ?thesis using o run by blast
qed

theorem object_heartbeat_refused_witness:
  "\<exists>nt nt'. CheckHeartbeat_svr (\<lambda>_. 0) WSA_OK nt 0 (heartbeat_object [1, 0, 0, 0, 0, 0, 0, 0] [0, 0, 0, 0]) 2 =
      Some (True, nt') \<and> recv_spec [] (heartbeat_object [1, 0, 0, 0, 0, 0, 0, 0] [0, 0, 0, 0]) =
    (False, None, heartbeat_object [1, 0, 0, 0, 0, 0, 0, 0] [0, 0, 0, 0])"
proof -
  let ?nt = "upd_connector (demo_net 7) 0 ((connectors (demo_net 7) 0)\<lparr>cn_HeartbeatTimer := 1\<rparr>)"
  have "(7 :: SOCKET) \<noteq> INVALID_SOCKET" by (simp add: INVALID_SOCKET_def)
  then have "send_live (connectors ?nt 0)"
    using demo_net_ok(1) [of 7 0] by simp
  from object_heartbeat_refused [OF this, of 2 WSA_OK "[1, 0, 0, 0, 0, 0, 0, 0]" "[0, 0, 0, 0]" "\<lambda>_. 0"]
  obtain nt' where "CheckHeartbeat_svr (\<lambda>_. 0) WSA_OK ?nt 0 (heartbeat_object [1, 0, 0, 0, 0, 0, 0, 0] [0, 0, 0, 0]) 2 =
      Some (True, nt')" "recv_spec [] (heartbeat_object [1, 0, 0, 0, 0, 0, 0, 0] [0, 0, 0, 0]) =
    (False, None, heartbeat_object [1, 0, 0, 0, 0, 0, 0, 0] [0, 0, 0, 0])" by auto
  then show ?thesis by blast
qed

end
