(* ===== verification/Ini_Files.thy ===== *)
theory Ini_Files
  imports PL_Prelude
begin

text \<open>
  \<^verbatim>\<open>_framework/default_config.*\<close>, values in an initialization file, and \<^verbatim>\<open>_lib/util_file.cpp\<close>, directory listings and
  check sums.  The functions of the system that read the file (\<open>GetPrivateProfileIntW\<close>,
  \<open>GetPrivateProfileStringW\<close>), the directory and the MD5 functions are parameters.
\<close>

subsection \<open>IniFile\<close>

record ini_file =
  wstrConfigFileName :: string

definition IniFile :: "string \<Rightarrow> ini_file" where
  "IniFile program = \<lparr>wstrConfigFileName = ''./config/'' @ program @ ''.ini''\<rparr>"

definition SetConfigFile :: "string \<Rightarrow> ini_file \<Rightarrow> ini_file" where
  "SetConfigFile n f = f\<lparr>wstrConfigFileName := n\<rparr>"

text \<open>
  What the system finds: \<open>p_int\<close> answers the number or the default, \<open>p_text\<close> the text of a key, if the file has
  it; a text is cut to the size of the buffer without its terminator.
\<close>

record profile =
  p_int :: "string \<Rightarrow> string \<Rightarrow> string \<Rightarrow> 32 word \<Rightarrow> 32 word"
  p_text :: "string \<Rightarrow> string \<Rightarrow> string \<Rightarrow> string option"

definition profile_string :: "profile \<Rightarrow> string \<Rightarrow> string \<Rightarrow> nat \<Rightarrow> string \<Rightarrow> string" where
  "profile_string p appName keyName len file =
     take (len - 1) (case p_text p file appName keyName of None \<Rightarrow> '''' | Some s \<Rightarrow> s)"

text \<open>\<open>_wtoi64\<close>: blanks, a sign, digits; values out of range become the nearest in range.\<close>

definition digit_value :: "char \<Rightarrow> int" where
  "digit_value c = int (of_char c) - 48"

definition is_digit :: "char \<Rightarrow> bool" where
  "is_digit c \<longleftrightarrow> 48 \<le> (of_char c :: nat) \<and> (of_char c :: nat) \<le> 57"

definition digits_value :: "string \<Rightarrow> int" where
  "digits_value s = foldl (\<lambda>a c. a * 10 + digit_value c) 0 (takeWhile is_digit s)"

definition wtoi64 :: "string \<Rightarrow> int" where
  "wtoi64 s =
     (let s = dropWhile (\<lambda>c. c \<in> {CHR '' '', CHR 0x09, CHR 0x0A, CHR 0x0B, CHR 0x0C, CHR 0x0D}) s;
          v = (case s of
                 [] \<Rightarrow> 0
               | c # cs \<Rightarrow> if c = CHR ''-'' then - digits_value cs else if c = CHR ''+'' then digits_value cs else digits_value s)
      in max (- (2 ^ 63)) (min v (2 ^ 63 - 1)))"

definition GetValue_INT :: "profile \<Rightarrow> string \<Rightarrow> string \<Rightarrow> 32 word \<Rightarrow> ini_file \<Rightarrow> 32 word" where
  "GetValue_INT p appName keyName nDefaultValue f = p_int p (wstrConfigFileName f) appName keyName nDefaultValue"

definition GetValue_WORD :: "profile \<Rightarrow> string \<Rightarrow> string \<Rightarrow> 16 word \<Rightarrow> ini_file \<Rightarrow> 16 word" where
  "GetValue_WORD p appName keyName wDefaultValue f =
     (let tempValue = p_int p (wstrConfigFileName f) appName keyName (ucast wDefaultValue)
      in if 65535 < sint tempValue then wDefaultValue else ucast tempValue)"

definition GetValue_INT64 :: "profile \<Rightarrow> string \<Rightarrow> string \<Rightarrow> int \<Rightarrow> ini_file \<Rightarrow> int" where
  "GetValue_INT64 p appName keyName biDefaultValue f =
     (let wcsTempString = profile_string p appName keyName 25 (wstrConfigFileName f)
      in if 20 < length wcsTempString then biDefaultValue else wtoi64 wcsTempString)"

definition GetValue_string :: "profile \<Rightarrow> string \<Rightarrow> string \<Rightarrow> nat \<Rightarrow> ini_file \<Rightarrow> string" where
  "GetValue_string p appName keyName dwResultLen f = profile_string p appName keyName dwResultLen (wstrConfigFileName f)"

subsection \<open>Files\<close>

text \<open>\<open>Inl\<close>: the message of the exception of the file system.\<close>

definition GetFileList :: "(string \<Rightarrow> string + string list) \<Rightarrow> string \<Rightarrow> string list \<Rightarrow> int \<times> string list" where
  "GetFileList directory strDirectoryPath fileList =
     (case directory strDirectoryPath of
        Inl what \<Rightarrow> (- 1, fileList @ [what])
      | Inr entries \<Rightarrow> (int (length (fileList @ entries)), fileList @ entries))"

record 'm md5 =
  md5_init :: 'm
  md5_append :: "'m \<Rightarrow> bytes \<Rightarrow> 'm"
  md5_finish :: "'m \<Rightarrow> bytes"

text \<open>
  \<open>fread_s\<close> with an element of 1024 bytes answers the number of whole elements, 1 or 0, which is then taken for
  the number of bytes.
\<close>

function md5_loop :: "'m md5 \<Rightarrow> bytes \<Rightarrow> 'm \<Rightarrow> 'm" where
  "md5_loop h content m =
     (if length content < 1024 then m else md5_loop h (drop 1024 content) (md5_append h m (take 1 content)))"
  by pat_completeness auto

termination
  by (relation "measure (\<lambda>(h, content, m). length content)") auto

declare md5_loop.simps [simp del]

text \<open>Two digits and the terminator do not fit into the room for 2 characters given to \<open>swprintf_s\<close>.\<close>

definition hex_digit :: "nat \<Rightarrow> char" where
  "hex_digit n = (if n < 10 then char_of (48 + n) else char_of (87 + n))"

definition print_hex2 :: "nat \<Rightarrow> byte \<Rightarrow> string option" where
  "print_hex2 room b = (if 2 < room then Some [hex_digit (unat b div 16), hex_digit (unat b mod 16)] else None)"

definition MakeMD5 :: "'m md5 \<Rightarrow> (string \<Rightarrow> int + bytes) \<Rightarrow> string \<Rightarrow> (int \<times> string) option" where
  "MakeMD5 h open_file wstrFilePath =
     (case open_file wstrFilePath of
        Inl error \<Rightarrow> Some (error, [])
      | Inr content \<Rightarrow> do {
          let cDigest = md5_finish h (md5_loop h content (md5_init h));
          texts \<leftarrow> those (map (print_hex2 2) (take 16 cDigest));
          Some (0, concat texts) })"

definition CheckMD5 :: "'m md5 \<Rightarrow> (string \<Rightarrow> int + bytes) \<Rightarrow> string \<Rightarrow> string \<Rightarrow> bool option" where
  "CheckMD5 h open_file wstrFilePath wstrChecksum = do {
     (error, made) \<leftarrow> MakeMD5 h open_file wstrFilePath;
     Some (if error \<noteq> 0 then False else made = wstrChecksum) }"

subsection \<open>Numbers\<close>

lemma digit_char: "n < 10 \<Longrightarrow> is_digit (char_of (48 + n)) \<and> digit_value (char_of (48 + n)) = int n"
  by (simp add: is_digit_def digit_value_def)

lemma digits_are_digits: "list_all is_digit (digits n)"
proof (induction n rule: digits.induct)
  case (1 n)
  then show ?case using digit_char [of n] digit_char [of "n mod 10"] by (subst digits.simps) auto
qed

lemma digits_value_digits: "digits_value (digits n) = int n"
proof (induction n rule: digits.induct)
  case (1 n)
  have all: "takeWhile is_digit (digits m) = digits m" for m
    using digits_are_digits [of m] by (simp add: list_all_iff takeWhile_eq_all_conv)
  show ?case
  proof (cases "n < 10")
    case True
    then show ?thesis using digit_char [of n] by (subst digits.simps) (simp add: digits_value_def)
  next
    case False
    have "foldl (\<lambda>a c. a * 10 + digit_value c) 0 (digits n) =
        foldl (\<lambda>a c. a * 10 + digit_value c) 0 (digits (n div 10)) * 10 + int (n mod 10)"
      using False digit_char [of "n mod 10"] by (subst digits.simps) simp
    also have "foldl (\<lambda>a c. a * 10 + digit_value c) 0 (digits (n div 10)) = int (n div 10)"
      using 1 False all by (simp add: digits_value_def)
    also have "int (n div 10) * 10 + int (n mod 10) = int n" by (metis div_mult_mod_eq of_nat_add of_nat_mult of_nat_numeral)
    finally show ?thesis by (simp only: digits_value_def all)
  qed
qed

lemma digits_hd: "\<exists>c cs. digits n = c # cs \<and> is_digit c"
  using digits_are_digits [of n] digits_not_empty [of n] by (cases "digits n") auto

lemma digit_no_sign: "is_digit c \<Longrightarrow> c \<notin> {CHR '' '', CHR 0x09, CHR 0x0A, CHR 0x0B, CHR 0x0C, CHR 0x0D, CHR ''-'', CHR ''+''}"
  by (auto simp: is_digit_def)

lemma wtoi64_show_int:
  assumes "- (2 ^ 63) \<le> i" and "i < 2 ^ 63"
  shows "wtoi64 (show_int i) = i"
proof -
  obtain c cs where c: "digits (nat i) = c # cs" "is_digit c" using digits_hd by blast
  have "dropWhile (\<lambda>c. c \<in> {CHR '' '', CHR 0x09, CHR 0x0A, CHR 0x0B, CHR 0x0C, CHR 0x0D}) (show_int i) = show_int i"
    using c digit_no_sign by (auto simp: show_int_def)
  then show ?thesis
    using assms c digit_no_sign [OF c(2)] digits_value_digits [of "nat i"] digits_value_digits [of "nat (- i)"]
    by (auto simp: wtoi64_def show_int_def Let_def)
qed

lemma length_show_int: "- (2 ^ 63) \<le> i \<Longrightarrow> i < 2 ^ 63 \<Longrightarrow> length (show_int i) \<le> 20"
  using digits_bounds(1) [of "nat i" 18] digits_bounds(1) [of "nat (- i)" 18] by (auto simp: show_int_def nat_less_iff)

subsection \<open>Properties\<close>

text \<open>
  A 64-bit value written in decimal is read back, the smallest and the largest included; a key that is missing is
  read as 0 and not as the default of the caller, which is used only for texts of more than 20 characters.
\<close>

theorem ini_int64_roundtrip:
  assumes "- (2 ^ 63) \<le> i" and "i < 2 ^ 63" and "p_text p (wstrConfigFileName f) appName keyName = Some (show_int i)"
    and "p_text p (wstrConfigFileName f) appName missing = None"
  shows "GetValue_INT64 p appName keyName d f = i \<and> GetValue_INT64 p appName missing d f = 0"
  using assms wtoi64_show_int [OF assms(1,2)] length_show_int [OF assms(1,2)]
  by (simp add: GetValue_INT64_def profile_string_def wtoi64_def Let_def)

theorem ini_int64_roundtrip_witness:
  "GetValue_INT64 \<lparr>p_int = \<lambda>_ _ _ d. d, p_text = \<lambda>_ _ k. if k = ''id'' then Some (show_int (- (2 ^ 63))) else None\<rparr> ''a'' ''id'' 5
     (IniFile ''svr'') = - (2 ^ 63) \<and>
   GetValue_INT64 \<lparr>p_int = \<lambda>_ _ _ d. d, p_text = \<lambda>_ _ k. if k = ''id'' then Some (show_int (- (2 ^ 63))) else None\<rparr> ''a'' ''port'' 5
     (IniFile ''svr'') = 0"
  by (rule ini_int64_roundtrip) simp_all

text \<open>
  \<open>CheckMD5\<close> never accepts a file: for one that cannot be opened it answers false, for one that can the process
  ends in \<open>MakeMD5\<close>; and what is hashed is the first byte of each whole block of 1024.
\<close>

lemma md5_loop_bytes:
  "length content < 1024 \<Longrightarrow> md5_loop h content m = m"
  "1024 \<le> length content \<Longrightarrow> md5_loop h content m = md5_loop h (drop 1024 content) (md5_append h m (take 1 content))"
  by (simp_all add: md5_loop.simps [of h content m])

theorem checkmd5_never_true:
  assumes "\<And>m. length (md5_finish h m) = 16" and "\<And>path err. open_file path = Inl err \<Longrightarrow> err \<noteq> 0"
  shows "CheckMD5 h open_file path checksum = (case open_file path of Inl err \<Rightarrow> Some False | Inr content \<Rightarrow> None)"
proof (cases "open_file path")
  case (Inr content)
  let ?d = "md5_finish h (md5_loop h content (md5_init h))"
  obtain b bs where "take 16 ?d = b # bs" using assms(1) [of "md5_loop h content (md5_init h)"] by (cases ?d) auto
  then show ?thesis using Inr by (simp add: CheckMD5_def MakeMD5_def Let_def print_hex2_def)
qed (use assms(2) in \<open>simp add: CheckMD5_def MakeMD5_def\<close>)

theorem checkmd5_never_true_witness:
  "CheckMD5 \<lparr>md5_init = (), md5_append = \<lambda>_ _. (), md5_finish = \<lambda>_. replicate 16 0\<rparr> (\<lambda>_. Inr []) ''f'' ''x'' = None"
  by (subst checkmd5_never_true) simp_all

end
