(* ===== verification/Monitoring.thy ===== *)
theory Monitoring
  imports Server_Props File_Log Ini_Files
begin

text \<open>
  What the programs report about themselves: the state lines of connectors and pools
  (\<^verbatim>\<open>_framework/connector_impl.cpp\<close>, \<^verbatim>\<open>_lib/object_pool_mgr.h\<close>), the rounds of the update threads with their
  monitoring (\<^verbatim>\<open>svr/process.cpp\<close>, \<^verbatim>\<open>_framework/network_impl.cpp\<close>), the clock and the stop watch of
  \<^verbatim>\<open>_lib/util_time.cpp\<close>, and the dump file of \<^verbatim>\<open>_lib/exception_report.cpp\<close>.  The narrow and the wide variant of a
  report have the same text.  \<open>%d\<close> takes the low 32 bits of its argument.
\<close>

subsection \<open>State lines\<close>

definition print_d :: "'a::len word \<Rightarrow> string" where
  "print_d w = show_int (sint (ucast w :: u32))"

definition show_size :: "'a list \<Rightarrow> string" where
  "show_size xs = digits (unat (of_nat (length xs) :: u64))"

definition Connector_GetReport :: "connector \<Rightarrow> string option" where
  "Connector_GetReport c = do {
     state \<leftarrow> (if GetActive c then FormatW (''['' @ print_d (cn_uid c) @ ''] connected: '' @ print_d (socket c) @ '','')
               else FormatW (''['' @ print_d (cn_uid c) @ ''] disconnected: ''));
     sq \<leftarrow> FormatW (''sq:'' @ print_d (of_nat (length (SendQueue c)) :: u64) @ '','');
     rb \<leftarrow> FormatW (''rb:('' @ print_d (GetDataSize (RecvDataBuffer c)) @ ''/'' @ print_d (nBufferSize (RecvDataBuffer c)) @ ''),'');
     Some (state @ sq @ rb) }"

definition Connector_GetReportA :: "connector \<Rightarrow> string option" where
  "Connector_GetReportA c = do {
     state \<leftarrow> (if GetActive c then FormatA (''['' @ print_d (cn_uid c) @ ''] connected: '' @ print_d (socket c) @ '','')
               else FormatA (''['' @ print_d (cn_uid c) @ ''] disconnected: ''));
     sq \<leftarrow> FormatA (''sq:'' @ print_d (of_nat (length (SendQueue c)) :: u64) @ '','');
     rb \<leftarrow> FormatA (''rb:('' @ print_d (GetDataSize (RecvDataBuffer c)) @ ''/'' @ print_d (nBufferSize (RecvDataBuffer c)) @ ''),'');
     Some (state @ sq @ rb) }"

definition ObjectPool_GetReport :: "object_pool \<Rightarrow> string" where
  "ObjectPool_GetReport p = ''pool:'' @ show_size (op_poolList p) @ '', free:'' @ show_size (op_freeList p)"

definition ObjectMgr_GetReport :: "object_mgr \<Rightarrow> string" where
  "ObjectMgr_GetReport m = ObjectPool_GetReport (objectPool m) @ '', used:'' @ show_size (om_usedList m)"

definition PoolMgr_GetReport :: "pool_mgr \<Rightarrow> string" where
  "PoolMgr_GetReport m = ''pool:'' @ show_size (pm_poolList m) @ '', used:'' @ show_size (pm_usedList m) @
     '', free:'' @ show_size (pm_freeList m)"

text \<open>The server's \<open>Connector::DoUpdate\<close> with the line it logs.\<close>

definition DoUpdate_svr_logged :: "log_env \<Rightarrow> connector \<Rightarrow> int \<Rightarrow> file_logger \<Rightarrow> (bool \<times> connector \<times> file_logger) option" where
  "DoUpdate_svr_logged le c biCurrTime lg =
     (case DoUpdate_svr c biCurrTime of
        (True, c) \<Rightarrow> do { r \<leftarrow> Connector_GetReport c; lg \<leftarrow> PerformanceLog le r lg; Some (True, c, lg) }
      | (False, c) \<Rightarrow> Some (False, c, lg))"

subsection \<open>Rounds with monitoring\<close>

text \<open>\<open>Network::DoUpdate\<close> of the framework; \<open>next\<close> is \<open>_biUpdateTime\<close>.\<close>

definition Network_DoUpdate :: "log_env \<Rightarrow> int \<Rightarrow> int \<Rightarrow> network \<Rightarrow> int \<times> file_logger \<Rightarrow> (eResultCode \<times> int \<times> file_logger) option" where
  "Network_DoUpdate le biCurrTime timeNow nt = (\<lambda>(next, lg).
     if next < biCurrTime then do {
       lg \<leftarrow> PerformanceLog le (''ConnectorState: '' @ PoolMgr_GetReport (connectorMgr nt)) lg;
       Some (succ, timeNow + MILLISEC_A_MIN, lg) }
     else Some (succ, next, lg))"

text \<open>The server's own version has its body commented out.\<close>

definition Network_DoUpdate_svr :: "int \<Rightarrow> eResultCode" where
  "Network_DoUpdate_svr biCurrTime = succ"

definition MonitorReport :: "log_env \<Rightarrow> server \<Rightarrow> file_logger \<Rightarrow> file_logger option" where
  "MonitorReport le st lg = do {
     lg \<leftarrow> PerformanceLog le (''ConnectorState: '' @ PoolMgr_GetReport (connectorMgr (net st))) lg;
     PerformanceLog le (''UserSessionState: '' @ ObjectMgr_GetReport (sm_objects st)) lg }"

text \<open>
  The whole round of the server's \<open>UpdateThread\<close>: sessions, monitoring, commands; \<open>next\<close> and \<open>mon\<close> are
  its two local timers.
\<close>

definition UpdateThread_monitored ::
  "log_env \<Rightarrow> svr_env \<Rightarrow> int \<Rightarrow> int \<Rightarrow> int \<times> int \<times> server \<times> file_logger \<Rightarrow> (int \<times> int \<times> server \<times> file_logger) option" where
  "UpdateThread_monitored le e biCurrTime timeNow = (\<lambda>(next, mon, st, lg). do {
     (next, st) \<leftarrow> (if next < biCurrTime then do {
                st \<leftarrow> UserSessionMgr_DoUpdate e biCurrTime timeNow st;
                Some (biCurrTime + MILLISEC_A_SEC, st) }
              else Some (next, st));
     (mon, lg) \<leftarrow> (if mon < biCurrTime then do {
                lg \<leftarrow> MonitorReport le st lg;
                Some (biCurrTime + MILLISEC_A_SEC * 30, lg) }
              else Some (mon, lg));
     st \<leftarrow> server_Tick e st;
     Some (next, mon, st, lg) })"

subsection \<open>Clock and stop watch\<close>

definition GetTimeSec :: "int \<Rightarrow> int" where
  "GetTimeSec ftime = sint (of_int ftime :: 32 word)"

definition GetTimeMilliSec :: "int \<Rightarrow> int \<Rightarrow> int" where
  "GetTimeMilliSec ftime millitm = sint (of_int (ftime * 1000 + millitm) :: 64 word)"

definition tm_text :: "tm \<Rightarrow> string" where
  "tm_text m = show_int (tm_year m + 1900) @ ''-'' @ show_int (tm_mon m + 1) @ ''-'' @ show_int (tm_mday m) @ '' '' @
     zero_pad 2 (tm_hour m) @ '':'' @ zero_pad 2 (tm_min m) @ '':'' @ zero_pad 2 (tm_sec m)"

definition CTimeSet_print :: "time_set \<Rightarrow> string list" where
  "CTimeSet_print t = [''gmt: '' @ show_int (tGMT t), ''gmt: '' @ tm_text (tmGMT t),
     ''local: '' @ show_int (tLocalT t), ''local: '' @ tm_text (tmLocalT t)]"

record performance_checker =
  pc_start :: int
  pc_function :: string
  pc_line :: int
  pc_buffer :: bool

definition CPerformanceChecker :: "int \<Rightarrow> string \<Rightarrow> int \<Rightarrow> bool \<Rightarrow> performance_checker" where
  "CPerformanceChecker now f line buffered = \<lparr>pc_start = now, pc_function = f, pc_line = line, pc_buffer = buffered\<rparr>"

text \<open>The destructor writes into the caller's string or on the screen.\<close>

definition CPerformanceChecker_destroy :: "int \<Rightarrow> performance_checker \<Rightarrow> string \<Rightarrow> string list \<Rightarrow> string \<times> string list" where
  "CPerformanceChecker_destroy now pc buffer out =
     (let text = ''func:'' @ pc_function pc @ '' [line:'' @ show_int (pc_line pc) @ '']: process time: '' @ show_int (now - pc_start pc)
      in if pc_buffer pc then (text, out) else (buffer, out @ [text]))"

subsection \<open>The dump of a crash\<close>

datatype dump_event =
  SetUnhandledExceptionFilter
| CreateFile string bool
| MiniDumpWriteDump string bool
| CloseHandle string

definition ExceptionHandlerBegin :: "dump_event list" where
  "ExceptionHandlerBegin = [SetUnhandledExceptionFilter]"

definition dump_file_name :: "string \<Rightarrow> time_set \<Rightarrow> string" where
  "dump_file_name fileName t = fileName @ ''_'' @ zero_pad 4 (GetYear True t) @ ''-'' @ zero_pad 2 (GetMonth True t) @ ''-'' @
     zero_pad 2 (GetDay True t) @ ''_'' @ zero_pad 2 (GetHour True t) @ ''-'' @ zero_pad 2 (GetMin True t) @ ''-'' @
     zero_pad 2 (GetSec True t) @ ''.dmp''"

definition EXCEPTION_EXECUTE_HANDLER :: int where
  "EXCEPTION_EXECUTE_HANDLER = 1"

text \<open>\<open>created\<close> and \<open>ok\<close>: whether \<open>CreateFile\<close> and \<open>MiniDumpWriteDump\<close> succeed.\<close>

definition makeDump :: "string \<Rightarrow> time_set \<Rightarrow> bool \<Rightarrow> bool \<Rightarrow> int \<times> dump_event list" where
  "makeDump fileName currTime created ok =
     (let n = dump_file_name fileName currTime
      in (EXCEPTION_EXECUTE_HANDLER,
          CreateFile n created # (if created then [MiniDumpWriteDump n ok, CloseHandle n] else [])))"

definition makeFullDump :: "string \<Rightarrow> time_set \<Rightarrow> bool \<Rightarrow> bool \<Rightarrow> int \<times> dump_event list" where
  "makeFullDump fileName currTime created ok = makeDump fileName currTime created ok"

subsection \<open>Lengths\<close>

lemma length_print_d: "length (print_d w) \<le> 20"
proof -
  have "- (2 ^ 63) \<le> sint (ucast w :: u32)" "sint (ucast w :: u32) < 2 ^ 63"
    using sint_greater_eq [of "ucast w :: u32"] sint_less [of "ucast w :: u32"] by auto
  then show ?thesis unfolding print_d_def by (rule length_show_int)
qed

lemma length_show_size: "length (show_size xs) \<le> 20"
  using digits_bounds(1) [of "unat (of_nat (length xs) :: u64)" 19] unsigned_less [of "of_nat (length xs) :: u64", where ?'a = nat]
  by (simp add: show_size_def)

text \<open>A log that takes short lines: its file can be opened and its name is not too long.\<close>

definition log_works :: "log_env \<Rightarrow> file_logger \<Rightarrow> bool" where
  "log_works le lg \<longleftrightarrow> clock_ok (le_time le) \<and> le_open le \<and> length (log_file_name le lg) < BUFFER_MAX"

lemma log_works_cong:
  "log_works le (lg\<lparr>msgQueue := q\<rparr>) = log_works le lg" "log_works le (lg\<lparr>files := f\<rparr>) = log_works le lg"
  "log_works le (ConsoleWrite l s lg) = log_works le lg"
  by (simp_all add: log_works_def log_file_name_def ConsoleWrite_def)

lemma FileWrite_works: "log_works le lg \<Longrightarrow> \<exists>lg'. FileWrite le ls lg = Some lg' \<and> log_works le lg'"
  by (auto simp: FileWrite_def FormatW_def log_works_cong Let_def) (simp_all add: log_works_def)

lemma AddMessage_works:
  assumes "log_works le lg"
  shows "\<exists>lg'. AddMessage le text lg = Some lg' \<and> log_works le lg'"
proof -
  have w: "log_works le (lg\<lparr>msgQueue := q, msgQueue := []\<rparr>)" "log_works le (lg\<lparr>msgQueue := q\<rparr>)" for q
    using assms by (simp_all add: log_works_cong)
  show ?thesis
    using FileWrite_works [OF assms, of "[text]"] FileWrite_works [OF w(1), of "msgQueue lg @ [text]" "msgQueue lg @ [text]"]
      w(2) [of "msgQueue lg @ [text]"]
    by (simp add: AddMessage_def Flush_def)
qed

lemma PerformanceLog_works:
  assumes "log_works le lg" and "length str < 10000"
  shows "\<exists>lg'. PerformanceLog le str lg = Some lg' \<and> log_works le lg'"
proof -
  have "clock_ok (le_time le)" using assms(1) by (simp add: log_works_def)
  then have f: "FormatA (''[performance] '' @ str) = Some (''[performance] '' @ str)"
    "FormatW (log_text le (''[performance] '' @ str)) = Some (log_text le (''[performance] '' @ str))"
    using assms(2) by (simp_all add: FormatA_def FormatW_def BUFFER_MAX_def length_log_text)
  obtain lg1 where "AddMessage le (log_text le (''[performance] '' @ str)) lg = Some lg1" "log_works le lg1"
    using AddMessage_works [OF assms(1)] by blast
  then show ?thesis using f by (simp add: PerformanceLog_def Log_Write_def log_works_cong)
qed


lemma MonitorReport_works:
  assumes "log_works le lg"
  shows "\<exists>lg'. MonitorReport le st lg = Some lg' \<and> log_works le lg'"
proof -
  have l: "length (''ConnectorState: '' @ PoolMgr_GetReport (connectorMgr (net st))) < 10000"
    "length (''UserSessionState: '' @ ObjectMgr_GetReport (sm_objects st)) < 10000"
    using length_show_size [of "pm_poolList (connectorMgr (net st))"] length_show_size [of "pm_usedList (connectorMgr (net st))"]
      length_show_size [of "pm_freeList (connectorMgr (net st))"] length_show_size [of "op_poolList (objectPool (sm_objects st))"]
      length_show_size [of "op_freeList (objectPool (sm_objects st))"] length_show_size [of "om_usedList (sm_objects st)"]
    by (simp_all add: PoolMgr_GetReport_def ObjectMgr_GetReport_def ObjectPool_GetReport_def)
  obtain lg1 where lg1: "PerformanceLog le (''ConnectorState: '' @ PoolMgr_GetReport (connectorMgr (net st))) lg = Some lg1"
    "log_works le lg1"
    using PerformanceLog_works [OF assms l(1)] by blast
  obtain lg2 where "PerformanceLog le (''UserSessionState: '' @ ObjectMgr_GetReport (sm_objects st)) lg1 = Some lg2" "log_works le lg2"
    using PerformanceLog_works [OF lg1(2) l(2)] by blast
  then show ?thesis unfolding MonitorReport_def lg1(1) by simp
qed

text \<open>Every part of a connector's state line fits the buffer of the formatting functions.\<close>

lemma Connector_GetReport_total:
  "\<exists>s. Connector_GetReport c = Some s \<and> Connector_GetReportA c = Some s \<and> length s \<le> 150"
proof -
  let ?h = "if GetActive c then ''['' @ print_d (cn_uid c) @ ''] connected: '' @ print_d (socket c) @ '',''
    else ''['' @ print_d (cn_uid c) @ ''] disconnected: ''"
  let ?q = "''sq:'' @ print_d (of_nat (length (SendQueue c)) :: u64) @ '',''"
  let ?b = "''rb:('' @ print_d (GetDataSize (RecvDataBuffer c)) @ ''/'' @ print_d (nBufferSize (RecvDataBuffer c)) @ ''),''"
  have l: "length ?h \<le> 60" "length ?q \<le> 30" "length ?b \<le> 50"
    using length_print_d [of "cn_uid c"] length_print_d [of "socket c"] length_print_d [of "of_nat (length (SendQueue c)) :: u64"]
      length_print_d [of "GetDataSize (RecvDataBuffer c)"] length_print_d [of "nBufferSize (RecvDataBuffer c)"]
    by simp_all
  have fmt: "FormatW s = Some s" "FormatA s = Some s" if "length s \<le> 60" for s
    using that by (simp_all add: FormatW_def FormatA_def BUFFER_MAX_def)
  have sum: "length (u @ v @ w) \<le> 150" if "length u \<le> 60" "length v \<le> 30" "length w \<le> 50" for u v w :: string
    using that by simp
  have b: "length ?q \<le> 60" "length ?b \<le> 60" using l by linarith+
  have h: "(if GetActive c then FormatW (''['' @ print_d (cn_uid c) @ ''] connected: '' @ print_d (socket c) @ '','')
      else FormatW (''['' @ print_d (cn_uid c) @ ''] disconnected: '')) = Some ?h"
    "(if GetActive c then FormatA (''['' @ print_d (cn_uid c) @ ''] connected: '' @ print_d (socket c) @ '','')
      else FormatA (''['' @ print_d (cn_uid c) @ ''] disconnected: '')) = Some ?h"
    using fmt l(1) by (auto split: if_splits)
  show ?thesis
    unfolding Connector_GetReport_def Connector_GetReportA_def h fmt(1) [OF b(1)] fmt(1) [OF b(2)]
      fmt(2) [OF b(1)] fmt(2) [OF b(2)] bind.bind_lunit
    by (intro exI [of _ "?h @ ?q @ ?b"] conjI refl sum l)
qed

lemma zero_pad_inj:
  assumes "zero_pad w i = zero_pad w j" and "0 \<le> i" and "0 \<le> j"
  shows "i = j"
proof -
  have v: "digits_value (zero_pad w k) = k" if "0 \<le> k" for k
  proof -
    have all: "takeWhile is_digit (replicate m CHR ''0'' @ digits n) = replicate m CHR ''0'' @ digits n" for m n
      using digits_are_digits [of n] by (auto simp: list_all_iff takeWhile_eq_all_conv is_digit_def)
    have bare: "takeWhile is_digit (digits n) = digits n" for n using all [of 0 n] by (metis append_Nil replicate_0)
    have z: "foldl (\<lambda>a c. a * 10 + digit_value c) 0 (replicate m CHR ''0'') = 0" for m
      by (induction m) (simp_all add: digit_value_def)
    have "digits_value (replicate m CHR ''0'' @ digits n) = digits_value (digits n)" for m n
      unfolding digits_value_def all bare foldl_append z ..
    then show ?thesis using that by (simp add: zero_pad_def show_int_def Let_def digits_value_digits)
  qed
  show ?thesis using v [OF assms(2)] v [OF assms(3)] unfolding assms(1) by (rule trans [OF sym])
qed

lemma length_zero_pad_4: "0 \<le> i \<Longrightarrow> i < 10000 \<Longrightarrow> length (zero_pad 4 i) = 4"
proof -
  assume i: "0 \<le> i" "i < 10000"
  then have "length (digits (nat i)) \<le> 4" using digits_bounds(1) [of "nat i" 3] by (simp add: nat_less_iff)
  with i show ?thesis by (simp add: zero_pad_def show_int_def Let_def)
qed

text \<open>The six fields of a date as the names of files use them.\<close>

definition date_ok :: "time_set \<Rightarrow> bool" where
  "date_ok t \<longleftrightarrow> GetYear True t \<in> {0..<10000} \<and> GetMonth True t \<in> {1..12} \<and> GetDay True t \<in> {1..31} \<and> clock_ok t"

subsection \<open>Properties\<close>

text \<open>
  Monitoring does not touch the server.  As long as the log file can be opened, the round of the update
  thread with its reports ends whenever the round without them does, with the same sessions, zones,
  commands and network, and with a log that still works: no report is too long for the log.
\<close>

theorem monitoring_is_transparent:
  assumes "log_works le lg"
  shows "map_option (\<lambda>(nx, mon, st, lg). (nx, st)) (UpdateThread_monitored le e t now (nx, mon, st, lg)) =
      UpdateThread_round e t now (nx, st) \<and>
    (\<forall>nx' mon' st' lg'. UpdateThread_monitored le e t now (nx, mon, st, lg) = Some (nx', mon', st', lg') \<longrightarrow> log_works le lg')"
proof -
  have m: "\<exists>mon' lg'. (if mon < t then do { lg \<leftarrow> MonitorReport le st1 lg; Some (t + MILLISEC_A_SEC * 30, lg) }
      else Some (mon, lg)) = Some (mon', lg') \<and> log_works le lg'" for st1
    using MonitorReport_works [OF assms, of st1] assms by auto
  let ?u = "if nx < t then do { st \<leftarrow> UserSessionMgr_DoUpdate e t now st; Some (t + MILLISEC_A_SEC, st) } else Some (nx, st)"
  show ?thesis
  proof (cases ?u)
    case None
    then show ?thesis by (simp add: UpdateThread_monitored_def UpdateThread_round_def)
  next
    case (Some u)
    obtain nx1 st1 where u: "u = (nx1, st1)" by fastforce
    obtain mon' lg' where ml: "(if mon < t then do { lg \<leftarrow> MonitorReport le st1 lg; Some (t + MILLISEC_A_SEC * 30, lg) }
      else Some (mon, lg)) = Some (mon', lg')" "log_works le lg'"
      using m by blast
    show ?thesis
      unfolding UpdateThread_monitored_def UpdateThread_round_def case_prod_conv Some u bind.bind_lunit ml(1)
      by (cases "server_Tick e st1") (use ml(2) in auto)
  qed
qed

theorem monitoring_is_transparent_witness:
  "\<exists>lg. log_works \<lparr>le_time = CTimeSet_fresh, le_writable = (\<lambda>_. True), le_open = True, le_error = 0\<rparr> lg \<and>
    map_option (\<lambda>(nx, mon, st, lg). (nx, st))
      (UpdateThread_monitored \<lparr>le_time = CTimeSet_fresh, le_writable = (\<lambda>_. True), le_open = True, le_error = 0\<rparr>
        demo_env 1 1 (5, 0, demo_svr, lg)) = Some (5, demo_svr)"
proof -
  let ?le = "\<lparr>le_time = CTimeSet_fresh, le_writable = (\<lambda>_. True), le_open = True, le_error = 0\<rparr>"
  let ?lg = "FileLogger ''svr'' (\<lambda>_. None)"
  have "length (log_file_name ?le ?lg) < BUFFER_MAX"
    by (simp add: log_file_name_def FileLogger_def CTimeSet_fresh_def GetYear_def GetMonth_def GetDay_def
        zero_pad_def show_int_def digits.simps BUFFER_MAX_def Let_def)
  then have w: "log_works ?le ?lg"
    by (simp add: log_works_def clock_ok_def CTimeSet_fresh_def GetHour_def GetMin_def GetSec_def Let_def)
  have "UpdateThread_round demo_env 1 1 (5, demo_svr) = Some (5, demo_svr)"
    by (simp add: UpdateThread_round_def server_Tick_eq demo_sessions) (simp add: demo_svr_def)
  then show ?thesis
    using w monitoring_is_transparent [OF w, of demo_env 1 1 5 0 demo_svr] by (intro exI [of _ ?lg]) simp
qed

text \<open>
  Crashes at different seconds leave different dump files, and crashes in the same second the same one; a
  dump file that was created is closed, and the handler answers that the process ends.
\<close>

theorem dump_files_by_second:
  assumes "date_ok t1" and "date_ok t2"
  shows "(dump_file_name n t1 = dump_file_name n t2 \<longleftrightarrow>
      (GetYear True t1, GetMonth True t1, GetDay True t1, GetHour True t1, GetMin True t1, GetSec True t1) =
      (GetYear True t2, GetMonth True t2, GetDay True t2, GetHour True t2, GetMin True t2, GetSec True t2)) \<and>
    makeFullDump n t1 created ok = (EXCEPTION_EXECUTE_HANDLER, CreateFile (dump_file_name n t1) created #
      (if created then [MiniDumpWriteDump (dump_file_name n t1) ok, CloseHandle (dump_file_name n t1)] else []))"
proof -
  have l: "length (zero_pad 4 (GetYear True t)) = 4" "length (zero_pad 2 (GetMonth True t)) = 2" "length (zero_pad 2 (GetDay True t)) = 2"
    "length (zero_pad 2 (GetHour True t)) = 2" "length (zero_pad 2 (GetMin True t)) = 2" "length (zero_pad 2 (GetSec True t)) = 2"
    if "date_ok t" for t
    using that length_zero_pad_4 by (auto simp: date_ok_def clock_ok_def)
  have "(GetYear True t1, GetMonth True t1, GetDay True t1, GetHour True t1, GetMin True t1, GetSec True t1) =
      (GetYear True t2, GetMonth True t2, GetDay True t2, GetHour True t2, GetMin True t2, GetSec True t2)"
    if "dump_file_name n t1 = dump_file_name n t2"
  proof -
    have "zero_pad 4 (GetYear True t1) = zero_pad 4 (GetYear True t2)" "zero_pad 2 (GetMonth True t1) = zero_pad 2 (GetMonth True t2)"
      "zero_pad 2 (GetDay True t1) = zero_pad 2 (GetDay True t2)" "zero_pad 2 (GetHour True t1) = zero_pad 2 (GetHour True t2)"
      "zero_pad 2 (GetMin True t1) = zero_pad 2 (GetMin True t2)" "zero_pad 2 (GetSec True t1) = zero_pad 2 (GetSec True t2)"
      using that l [OF assms(1)] l [OF assms(2)] by (simp_all add: dump_file_name_def)
    then show ?thesis using assms zero_pad_inj by (auto simp: date_ok_def clock_ok_def)
  qed
  then show ?thesis by (auto simp: dump_file_name_def makeFullDump_def makeDump_def Let_def)
qed

theorem dump_files_by_second_witness:
  "dump_file_name ''svr'' (CTimeSet_fresh\<lparr>tmLocalT := (tmLocalT CTimeSet_fresh)\<lparr>tm_mday := 1\<rparr>\<rparr>) \<noteq>
   dump_file_name ''svr'' (CTimeSet_fresh\<lparr>tmLocalT := (tmLocalT CTimeSet_fresh)\<lparr>tm_mday := 1, tm_sec := 1\<rparr>\<rparr>)"
proof -
  let ?t1 = "CTimeSet_fresh\<lparr>tmLocalT := (tmLocalT CTimeSet_fresh)\<lparr>tm_mday := 1\<rparr>\<rparr>"
  let ?t2 = "CTimeSet_fresh\<lparr>tmLocalT := (tmLocalT CTimeSet_fresh)\<lparr>tm_mday := 1, tm_sec := 1\<rparr>\<rparr>"
  have d: "date_ok ?t1" "date_ok ?t2"
    by (simp_all add: date_ok_def clock_ok_def CTimeSet_fresh_def GetYear_def GetMonth_def GetDay_def GetHour_def
        GetMin_def GetSec_def Let_def)
  have "GetSec True ?t1 \<noteq> GetSec True ?t2" by (simp add: GetSec_def CTimeSet_fresh_def Let_def)
  then show ?thesis using dump_files_by_second [OF d, of "''svr''"] by auto
qed

end
