(* ===== verification/Quic_Sample.thy ===== *)
theory Quic_Sample
  imports PL_Prelude "HOL-Library.Multiset"
begin

text \<open>
  \<^verbatim>\<open>svr_quic/main.cpp\<close> and \<^verbatim>\<open>cli_quic/main.cpp\<close>: the callbacks that the QUIC library calls, the sending functions
  and the main functions.  Console output is left out.  The library is a parameter: what its functions and
  \<open>malloc\<close> answer are arguments (\<open>quic_env\<close>), and which events it may deliver is the predicate \<open>possible\<close>: a send
  that was accepted is completed once with its own context; an object that is open is shut down once; and an
  object that the program closes before it was shut down is shut down during that call, with the flag
  \<open>AppCloseInProgress\<close>.  Handles that are open, that have been shut down and whose closing is in progress, and
  blocks that are allocated are in the state; freeing a block that is not allocated and closing a handle that
  is not open is undefined (\<open>None\<close>).
\<close>

datatype quic_call =
    StreamSend nat nat | StreamShutdown nat | StreamClose nat | StreamOpen nat | StreamStart nat
  | ConnectionSendResumptionTicket nat | ConnectionClose nat | ConnectionShutdown nat
  | SetCallbackHandler nat | ConnectionSetConfiguration nat

record quic =
  q_alloc :: "nat list"
  q_sending :: "nat list"
  q_streams :: "nat list"
  q_conns :: "nat list"
  q_streams_down :: "nat list"
  q_conns_down :: "nat list"
  q_streams_closing :: "nat list"
  q_conns_closing :: "nat list"
  q_calls :: "quic_call list"

record quic_env =
  qe_malloc :: "nat option"
  qe_send :: bool
  qe_stream :: "nat option"
  qe_start :: bool
  qe_configured :: bool

definition quic_called :: "quic_call \<Rightarrow> quic \<Rightarrow> quic" where
  "quic_called c st = st\<lparr>q_calls := q_calls st @ [c]\<rparr>"

definition quic_free :: "nat \<Rightarrow> quic \<Rightarrow> quic option" where
  "quic_free p st = (if p \<in> set (q_alloc st) then Some (st\<lparr>q_alloc := remove1 p (q_alloc st)\<rparr>) else None)"

definition stream_close :: "nat \<Rightarrow> quic \<Rightarrow> quic option" where
  "stream_close h st =
     (if h \<notin> set (q_streams st) then None
      else
        let st = quic_called (StreamClose h) (st\<lparr>q_streams := remove1 h (q_streams st)\<rparr>)
        in Some (if h \<in> set (q_streams_down st) then st\<lparr>q_streams_down := remove1 h (q_streams_down st)\<rparr>
                 else st\<lparr>q_streams_closing := h # q_streams_closing st\<rparr>))"

definition connection_close :: "nat \<Rightarrow> quic \<Rightarrow> quic option" where
  "connection_close h st =
     (if h \<notin> set (q_conns st) then None
      else
        let st = quic_called (ConnectionClose h) (st\<lparr>q_conns := remove1 h (q_conns st)\<rparr>)
        in Some (if h \<in> set (q_conns_down st) then st\<lparr>q_conns_down := remove1 h (q_conns_down st)\<rparr>
                 else st\<lparr>q_conns_closing := h # q_conns_closing st\<rparr>))"

text \<open>\<open>StreamSend\<close>, which keeps the context of a send it accepts; the second component tells whether it does.\<close>

definition stream_send :: "quic_env \<Rightarrow> nat \<Rightarrow> nat \<Rightarrow> quic \<Rightarrow> bool \<times> quic" where
  "stream_send e h p st =
     (let st = quic_called (StreamSend h p) st in (qe_send e, if qe_send e then st\<lparr>q_sending := p # q_sending st\<rparr> else st))"

datatype stream_event =
    SEND_COMPLETE nat | RECEIVE | PEER_SEND_SHUTDOWN | PEER_SEND_ABORTED | STREAM_SHUTDOWN_COMPLETE bool | STREAM_OTHER

datatype connection_event =
    CONNECTED | SHUTDOWN_INITIATED_BY_TRANSPORT | SHUTDOWN_INITIATED_BY_PEER | CONNECTION_SHUTDOWN_COMPLETE bool
  | PEER_STREAM_STARTED nat | RESUMED | RESUMPTION_TICKET_RECEIVED | IDEAL_PROCESSOR_CHANGED | CONNECTION_OTHER

datatype quic_event = Stream_Event nat stream_event | Connection_Event nat connection_event | NEW_CONNECTION nat | LISTENER_OTHER

subsection \<open>The server\<close>

definition Send_svr :: "quic_env \<Rightarrow> nat \<Rightarrow> quic \<Rightarrow> quic option" where
  "Send_svr e stream st =
     (case qe_malloc e of
        None \<Rightarrow> Some (quic_called (StreamShutdown stream) st)
      | Some sendBufferRaw \<Rightarrow>
          (let st = st\<lparr>q_alloc := sendBufferRaw # q_alloc st\<rparr>;
               (ok, st) = stream_send e stream sendBufferRaw st
           in if \<not> ok then do { st \<leftarrow> quic_free sendBufferRaw st; Some (quic_called (StreamShutdown stream) st) } else Some st))"

fun StreamCallback_svr :: "quic_env \<Rightarrow> nat \<Rightarrow> stream_event \<Rightarrow> quic \<Rightarrow> quic option" where
  "StreamCallback_svr e stream (SEND_COMPLETE p) st = quic_free p st"
| "StreamCallback_svr e stream RECEIVE st = Some st"
| "StreamCallback_svr e stream PEER_SEND_SHUTDOWN st = Send_svr e stream st"
| "StreamCallback_svr e stream PEER_SEND_ABORTED st = Some (quic_called (StreamShutdown stream) st)"
| "StreamCallback_svr e stream (STREAM_SHUTDOWN_COMPLETE closing) st = stream_close stream st"
| "StreamCallback_svr e stream STREAM_OTHER st = Some st"

fun ConnectionCallback_svr :: "nat \<Rightarrow> connection_event \<Rightarrow> quic \<Rightarrow> quic option" where
  "ConnectionCallback_svr connection CONNECTED st = Some (quic_called (ConnectionSendResumptionTicket connection) st)"
| "ConnectionCallback_svr connection SHUTDOWN_INITIATED_BY_TRANSPORT st = Some st"
| "ConnectionCallback_svr connection SHUTDOWN_INITIATED_BY_PEER st = Some st"
| "ConnectionCallback_svr connection (CONNECTION_SHUTDOWN_COMPLETE closing) st = connection_close connection st"
| "ConnectionCallback_svr connection (PEER_STREAM_STARTED stream) st = Some (quic_called (SetCallbackHandler stream) st)"
| "ConnectionCallback_svr connection RESUMED st = Some st"
| "ConnectionCallback_svr connection RESUMPTION_TICKET_RECEIVED st = Some st"
| "ConnectionCallback_svr connection IDEAL_PROCESSOR_CHANGED st = Some st"
| "ConnectionCallback_svr connection CONNECTION_OTHER st = Some st"

text \<open>The status is true for success.\<close>

fun ListenerCallback :: "quic_env \<Rightarrow> quic_event \<Rightarrow> quic \<Rightarrow> bool \<times> quic" where
  "ListenerCallback e (NEW_CONNECTION c) st =
     (qe_configured e, quic_called (ConnectionSetConfiguration c) (quic_called (SetCallbackHandler c) st))"
| "ListenerCallback e _ st = (False, st)"

subsection \<open>The client\<close>

definition Send_cli :: "quic_env \<Rightarrow> nat \<Rightarrow> quic \<Rightarrow> quic option" where
  "Send_cli e connection st =
     (case qe_stream e of
        None \<Rightarrow> Some (quic_called (ConnectionShutdown connection) st)
      | Some stream \<Rightarrow>
          (let st = quic_called (StreamOpen stream) (st\<lparr>q_streams := stream # q_streams st\<rparr>);
               st = quic_called (StreamStart stream) st
           in if \<not> qe_start e then do { st \<leftarrow> stream_close stream st; Some (quic_called (ConnectionShutdown connection) st) }
              else (case qe_malloc e of
                      None \<Rightarrow> Some (quic_called (ConnectionShutdown connection) st)
                    | Some sendBufferRaw \<Rightarrow>
                        (let st = st\<lparr>q_alloc := sendBufferRaw # q_alloc st\<rparr>;
                             (ok, st) = stream_send e stream sendBufferRaw st
                         in if \<not> ok then do { st \<leftarrow> quic_free sendBufferRaw st; Some (quic_called (ConnectionShutdown connection) st) }
                            else Some st))))"

fun StreamCallback_cli :: "nat \<Rightarrow> stream_event \<Rightarrow> quic \<Rightarrow> quic option" where
  "StreamCallback_cli stream (SEND_COMPLETE p) st = quic_free p st"
| "StreamCallback_cli stream RECEIVE st = Some st"
| "StreamCallback_cli stream PEER_SEND_ABORTED st = Some st"
| "StreamCallback_cli stream PEER_SEND_SHUTDOWN st = Some st"
| "StreamCallback_cli stream (STREAM_SHUTDOWN_COMPLETE closing) st = (if \<not> closing then stream_close stream st else Some st)"
| "StreamCallback_cli stream STREAM_OTHER st = Some st"

fun ConnectionCallback_cli :: "quic_env \<Rightarrow> nat \<Rightarrow> connection_event \<Rightarrow> quic \<Rightarrow> quic option" where
  "ConnectionCallback_cli e connection CONNECTED st = Send_cli e connection st"
| "ConnectionCallback_cli e connection SHUTDOWN_INITIATED_BY_TRANSPORT st = Some st"
| "ConnectionCallback_cli e connection SHUTDOWN_INITIATED_BY_PEER st = Some st"
| "ConnectionCallback_cli e connection (CONNECTION_SHUTDOWN_COMPLETE closing) st =
     (if \<not> closing then connection_close connection st else Some st)"
| "ConnectionCallback_cli e connection RESUMPTION_TICKET_RECEIVED st = Some st"
| "ConnectionCallback_cli e connection IDEAL_PROCESSOR_CHANGED st = Some st"
| "ConnectionCallback_cli e connection (PEER_STREAM_STARTED stream) st = Some st"
| "ConnectionCallback_cli e connection RESUMED st = Some st"
| "ConnectionCallback_cli e connection CONNECTION_OTHER st = Some st"

text \<open>
  The main functions: calls that each may fail; the first failure ends the program with -1 and leaves open what was
  opened before.  The end of the client closes the connection once the second key is pressed.
\<close>

datatype quic_object = Q_MsQuic | Q_Registration | Q_Configuration | Q_Listener | Q_Connection

fun quic_start :: "(quic_object option \<times> bool) list \<Rightarrow> quic_object list \<Rightarrow> bool \<times> quic_object list" where
  "quic_start [] opened = (True, opened)"
| "quic_start ((obj, ok) # steps) opened =
     (if \<not> ok then (False, opened) else quic_start steps (case obj of None \<Rightarrow> opened | Some x \<Rightarrow> x # opened))"

text \<open>The exit code and what is left open; \<open>answers\<close> holds the outcome of the six calls.\<close>

definition main_quic_svr :: "bool list \<Rightarrow> int \<times> quic_object list" where
  "main_quic_svr answers =
     (case quic_start (zip [Some Q_MsQuic, Some Q_Registration, Some Q_Configuration, None, Some Q_Listener, None] answers) [] of
        (False, opened) \<Rightarrow> (- 1, opened)
      | (True, opened) \<Rightarrow> (0, filter (\<lambda>x. x \<notin> {Q_Listener, Q_Configuration, Q_Registration, Q_MsQuic}) opened))"

definition main_quic_cli :: "bool list \<Rightarrow> int \<times> quic_object list" where
  "main_quic_cli answers =
     (case quic_start (zip [Some Q_MsQuic, Some Q_Registration, Some Q_Configuration, None, Some Q_Connection, None] answers) [] of
        (False, opened) \<Rightarrow> (- 1, opened)
      | (True, opened) \<Rightarrow> (0, filter (\<lambda>x. x \<notin> {Q_Connection, Q_Configuration, Q_Registration, Q_MsQuic}) opened))"

definition main_quic_cli_end :: "nat option \<Rightarrow> quic \<Rightarrow> quic option" where
  "main_quic_cli_end c st = (case c of None \<Rightarrow> Some st | Some h \<Rightarrow> connection_close h st)"

subsection \<open>What the library delivers\<close>

text \<open>
  An event and what the library itself does with it before the callback: a completed send is no longer pending, a
  new stream or connection is open, an object is shut down or its closing is over.
\<close>

fun possible :: "quic_event \<Rightarrow> quic \<Rightarrow> bool" where
  "possible (Stream_Event h (SEND_COMPLETE p)) st = (p \<in> set (q_sending st))"
| "possible (Stream_Event h (STREAM_SHUTDOWN_COMPLETE True)) st = (h \<in> set (q_streams_closing st))"
| "possible (Stream_Event h ev) st = (h \<in> set (q_streams st) \<and> h \<notin> set (q_streams_down st))"
| "possible (Connection_Event c (PEER_STREAM_STARTED h)) st =
     (c \<in> set (q_conns st) \<and> c \<notin> set (q_conns_down st) \<and> h \<notin> set (q_streams st))"
| "possible (Connection_Event c (CONNECTION_SHUTDOWN_COMPLETE True)) st = (c \<in> set (q_conns_closing st))"
| "possible (Connection_Event c ev) st = (c \<in> set (q_conns st) \<and> c \<notin> set (q_conns_down st))"
| "possible (NEW_CONNECTION c) st = (c \<notin> set (q_conns st))"
| "possible LISTENER_OTHER st = True"

fun arrive :: "quic_event \<Rightarrow> quic \<Rightarrow> quic" where
  "arrive (Stream_Event h (SEND_COMPLETE p)) st = st\<lparr>q_sending := remove1 p (q_sending st)\<rparr>"
| "arrive (Stream_Event h (STREAM_SHUTDOWN_COMPLETE closing)) st =
     (if closing then st\<lparr>q_streams_closing := remove1 h (q_streams_closing st)\<rparr> else st\<lparr>q_streams_down := h # q_streams_down st\<rparr>)"
| "arrive (Connection_Event c (PEER_STREAM_STARTED h)) st = st\<lparr>q_streams := h # q_streams st\<rparr>"
| "arrive (Connection_Event c (CONNECTION_SHUTDOWN_COMPLETE closing)) st =
     (if closing then st\<lparr>q_conns_closing := remove1 c (q_conns_closing st)\<rparr> else st\<lparr>q_conns_down := c # q_conns_down st\<rparr>)"
| "arrive (NEW_CONNECTION c) st = st\<lparr>q_conns := c # q_conns st\<rparr>"
| "arrive _ st = st"

text \<open>The callback of a program for an event; the client has no listener.\<close>

datatype quic_program = Svr_quic | Cli_quic

fun callback :: "quic_program \<Rightarrow> quic_env \<Rightarrow> quic_event \<Rightarrow> quic \<Rightarrow> quic option" where
  "callback Svr_quic e (Stream_Event h ev) st = StreamCallback_svr e h ev st"
| "callback Svr_quic e (Connection_Event c ev) st = ConnectionCallback_svr c ev st"
| "callback Svr_quic e ev st = Some (snd (ListenerCallback e ev st))"
| "callback Cli_quic e (Stream_Event h ev) st = StreamCallback_cli h ev st"
| "callback Cli_quic e (Connection_Event c ev) st = ConnectionCallback_cli e c ev st"
| "callback Cli_quic e ev st = Some st"

text \<open>A run: events, and the end of the client's \<open>main\<close>, which closes an open connection.\<close>

inductive quic_run :: "quic_program \<Rightarrow> quic \<Rightarrow> quic \<Rightarrow> bool" for prog where
  quic_refl: "quic_run prog st st"
| quic_event: "quic_run prog st st' \<Longrightarrow> possible ev st' \<Longrightarrow> callback prog e ev (arrive ev st') = Some st'' \<Longrightarrow> quic_run prog st st''"
| quic_main: "quic_run prog st st' \<Longrightarrow> prog = Cli_quic \<Longrightarrow> main_quic_cli_end (Some c) st' = Some st'' \<Longrightarrow> quic_run prog st st''"

text \<open>The server closes only what has been shut down.\<close>

definition quic_inv :: "quic_program \<Rightarrow> quic \<Rightarrow> bool" where
  "quic_inv prog st \<longleftrightarrow> mset (q_alloc st) = mset (q_sending st) \<and>
     (prog = Svr_quic \<longrightarrow> q_streams_closing st = [] \<and> q_conns_closing st = [])"

lemma buffers_remove: "mset al = mset se \<Longrightarrow> p \<in># mset se \<Longrightarrow> p \<in> set al \<and> mset (remove1 p al) = mset (remove1 p se)"
  by (metis mset_remove1 set_mset_mset)

lemma callback_svr_ok:
  assumes "possible ev st" and "quic_inv Svr_quic st"
  shows "\<exists>st'. callback Svr_quic e ev (arrive ev st) = Some st' \<and> quic_inv Svr_quic st'"
proof -
  have m: "mset (q_alloc st) = mset (q_sending st)" using assms(2) by (simp add: quic_inv_def)
  have s: "\<exists>st'. Send_svr e h st = Some st' \<and> quic_inv Svr_quic st'" for h
    using assms(2)
    by (auto simp: Send_svr_def quic_called_def stream_send_def quic_free_def quic_inv_def Let_def split: option.splits)
  show ?thesis
    using assms s buffers_remove [OF m]
    by (cases "(ev, st)" rule: possible.cases)
      (auto simp: quic_free_def stream_close_def connection_close_def quic_called_def quic_inv_def Let_def)
qed

lemma callback_cli_ok:
  assumes "possible ev st" and "quic_inv Cli_quic st"
  shows "\<exists>st'. callback Cli_quic e ev (arrive ev st) = Some st' \<and> quic_inv Cli_quic st'"
proof -
  have m: "mset (q_alloc st) = mset (q_sending st)" using assms(2) by (simp add: quic_inv_def)
  have c: "\<exists>st'. Send_cli e h st = Some st' \<and> quic_inv Cli_quic st'" for h
    using assms(2)
    by (auto simp: Send_cli_def quic_called_def stream_send_def stream_close_def quic_free_def quic_inv_def Let_def split: option.splits)
  show ?thesis
    using assms c buffers_remove [OF m]
    by (cases "(ev, st)" rule: possible.cases)
      (auto simp: quic_free_def stream_close_def connection_close_def quic_called_def quic_inv_def Let_def)
qed

lemma callback_ok:
  "possible ev st \<Longrightarrow> quic_inv prog st \<Longrightarrow> \<exists>st'. callback prog e ev (arrive ev st) = Some st' \<and> quic_inv prog st'"
  by (cases prog) (auto intro: callback_svr_ok callback_cli_ok)

definition quic_fresh :: "nat list \<Rightarrow> quic" where
  "quic_fresh conns = \<lparr>q_alloc = [], q_sending = [], q_streams = [], q_conns = conns, q_streams_down = [], q_conns_down = [],
     q_streams_closing = [], q_conns_closing = [], q_calls = []\<rparr>"

lemma quic_run_inv: "quic_run prog st0 st \<Longrightarrow> quic_inv prog st0 \<Longrightarrow> quic_inv prog st"
proof (induction rule: quic_run.induct)
  case (quic_event st st' ev e st'')
  then show ?case using callback_ok [OF quic_event.hyps(2), of prog e] by auto
next
  case (quic_main st st' c st'')
  then show ?case
    by (auto simp: main_quic_cli_end_def connection_close_def quic_called_def quic_inv_def Let_def split: if_splits)
qed

subsection \<open>Properties\<close>

text \<open>
  C34: Every buffer is freed once and every handle closed once by the callbacks: whatever events the library delivers to
  the callbacks of the server or the client, shut-downs during the program's own closing calls included, and whatever
  its functions and \<open>malloc\<close> answer, the allocated buffers are exactly those of the sends that are under way, and no
  further event makes a callback free a buffer that is not allocated or close a stream or connection that is not open.
\<close>

theorem quic_buffers_freed_once:
  assumes "quic_run prog (quic_fresh conns) st"
  shows "mset (q_alloc st) = mset (q_sending st) \<and>
    (\<forall>ev e. possible ev st \<longrightarrow> callback prog e ev (arrive ev st) \<noteq> None)"
proof -
  have i: "quic_inv prog st" using quic_run_inv [OF assms] by (simp add: quic_inv_def quic_fresh_def)
  then show ?thesis using callback_ok [OF _ i] unfolding quic_inv_def by fastforce
qed

definition quic_yes :: "nat \<Rightarrow> quic_env" where
  "quic_yes p = \<lparr>qe_malloc = Some p, qe_send = True, qe_stream = Some 5, qe_start = True, qe_configured = True\<rparr>"

text \<open>The client connects and sends, then its \<open>main\<close> closes the connection, which is shut down during that call.\<close>

theorem quic_buffers_freed_once_witness:
  "\<exists>st st'. callback Cli_quic (quic_yes 9) (Connection_Event 1 CONNECTED) (quic_fresh [1]) = Some st \<and> q_sending st = [9] \<and>
     main_quic_cli_end (Some 1) st = Some st' \<and> possible (Connection_Event 1 (CONNECTION_SHUTDOWN_COMPLETE True)) st' \<and>
     callback Cli_quic (quic_yes 0) (Connection_Event 1 (CONNECTION_SHUTDOWN_COMPLETE True))
       (arrive (Connection_Event 1 (CONNECTION_SHUTDOWN_COMPLETE True)) st') \<noteq> None"
proof -
  let ?ev = "Connection_Event 1 CONNECTED" let ?dn = "Connection_Event 1 (CONNECTION_SHUTDOWN_COMPLETE True)"
  obtain st where st: "callback Cli_quic (quic_yes 9) ?ev (quic_fresh [1]) = Some st" "q_sending st = [9]"
    "q_conns st = [1]" "q_conns_down st = []" "q_conns_closing st = []"
    by (simp add: quic_yes_def quic_fresh_def Send_cli_def quic_called_def stream_send_def)
  obtain st' where st': "main_quic_cli_end (Some 1) st = Some st'" "q_conns_closing st' = [1]"
    using st by (auto simp: main_quic_cli_end_def connection_close_def quic_called_def Let_def)
  have "possible ?ev (quic_fresh [1])" "possible ?dn st'" using st'(2) by (simp_all add: quic_fresh_def)
  note p = this
  have "callback Cli_quic (quic_yes 9) ?ev (arrive ?ev (quic_fresh [1])) = Some st" using st(1) by simp
  from quic_main [OF quic_event [OF quic_refl p(1) this] refl st'(1)] have "quic_run Cli_quic (quic_fresh [1]) st'" .
  with p show ?thesis using quic_buffers_freed_once [of Cli_quic "[1]" st'] st st' by blast
qed

text \<open>
  The client closes its connection twice: once the connection has been shut down, its callback has closed it, but
  the global variable still names it and the end of \<open>main\<close> closes it again.
\<close>

theorem quic_client_double_close:
  assumes "q_conns st = [h]"
  shows "\<exists>st'. callback Cli_quic e (Connection_Event h (CONNECTION_SHUTDOWN_COMPLETE False)) st = Some st' \<and>
    main_quic_cli_end (Some h) st' = None"
proof -
  obtain st' where "connection_close h st = Some st'" "q_conns st' = []"
    using assms by (auto simp: connection_close_def quic_called_def Let_def)
  then show ?thesis by (simp add: main_quic_cli_end_def) (simp add: connection_close_def)
qed

theorem quic_client_double_close_witness:
  "\<exists>st'. callback Cli_quic (quic_yes 9) (Connection_Event 1 (CONNECTION_SHUTDOWN_COMPLETE False)) (quic_fresh [1]) = Some st' \<and>
    main_quic_cli_end (Some 1) st' = None"
  by (rule quic_client_double_close) (simp add: quic_fresh_def)

text \<open>Only the way through leaves nothing open; every failing call leaves all that was opened before it.\<close>

lemma quic_start_left:
  "quic_start steps opened = (ok, left) \<Longrightarrow> list_all snd steps = ok \<and> (\<exists>more. left = more @ opened)"
  by (induction steps opened rule: quic_start.induct) (auto split: if_splits option.splits)

end
