(* ===== verification/Asio_Sample.thy ===== *)
theory Asio_Sample
  imports PL_Prelude
begin

text \<open>
  \<^verbatim>\<open>svr_asio/main.cpp\<close>: an echo session and its server, and the two servers that \<open>main\<close> starts, one that sends each
  TCP connection a greeting and one that answers each datagram.  The asynchronous operations of the library are
  outstanding until an event completes them; the handler given with the operation then runs.  Console output
  is left out.
\<close>

subsection \<open>session\<close>

datatype session_op = No_Op | Reading | Writing_out bytes

text \<open>\<open>s_read\<close> and \<open>s_written\<close> record what went through the socket.\<close>

record session =
  s_data :: bytes
  s_op :: session_op
  s_read :: bytes
  s_written :: bytes

definition session_new :: session where
  "session_new = \<lparr>s_data = replicate 1024 0, s_op = No_Op, s_read = [], s_written = []\<rparr>"

definition do_read :: "session \<Rightarrow> session" where
  "do_read s = s\<lparr>s_op := Reading\<rparr>"

definition session_start :: "session \<Rightarrow> session" where
  "session_start s = do_read s"

definition do_write :: "nat \<Rightarrow> session \<Rightarrow> session" where
  "do_write len s = s\<lparr>s_op := Writing_out (take len (s_data s))\<rparr>"

text \<open>
  Completions: a read brings at most 1024 bytes to the front of the buffer, a write has sent all its bytes; a
  handler that starts nothing lets go of the session (\<open>No_Op\<close>).
\<close>

datatype session_event = Read_Done "bytes option" | Write_Done bool

definition session_step :: "session_event \<Rightarrow> session \<Rightarrow> session option" where
  "session_step ev s =
     (case (s_op s, ev) of
        (Reading, Read_Done None) \<Rightarrow> Some (s\<lparr>s_op := No_Op\<rparr>)
      | (Reading, Read_Done (Some xs)) \<Rightarrow>
          if length xs \<le> length (s_data s)
          then Some (do_write (length xs) (s\<lparr>s_data := xs @ drop (length xs) (s_data s), s_read := s_read s @ xs\<rparr>))
          else None
      | (Writing_out ys, Write_Done True) \<Rightarrow> Some (do_read (s\<lparr>s_written := s_written s @ ys\<rparr>))
      | (Writing_out ys, Write_Done False) \<Rightarrow> Some (s\<lparr>s_op := No_Op\<rparr>)
      | _ \<Rightarrow> None)"

fun session_run :: "session_event list \<Rightarrow> session \<Rightarrow> session option" where
  "session_run [] s = Some s"
| "session_run (ev # evs) s = Option.bind (session_step ev s) (session_run evs)"

subsection \<open>The servers\<close>

record tcp_connection =
  tc_message :: string
  tc_seq :: int
  tc_sends :: "string list"

definition tcp_connection_create :: tcp_connection where
  "tcp_connection_create = \<lparr>tc_message = '''', tc_seq = 0, tc_sends = []\<rparr>"

definition tcp_connection_start :: "tcp_connection \<Rightarrow> tcp_connection" where
  "tcp_connection_start c =
     (let seq = tc_seq c + 1; m = ''tcp message send '' @ show_int seq
      in c\<lparr>tc_seq := seq, tc_message := m, tc_sends := tc_sends c @ [m]\<rparr>)"

text \<open>
  \<open>as_waiting\<close>: the connections given to outstanding accepts; \<open>as_receives\<close>: outstanding receives; \<open>as_answers\<close>: what
  was sent to which endpoint; \<open>as_echo_accepts\<close>: outstanding accepts of the class \<open>server\<close>.
\<close>

record 'ep asio =
  as_waiting :: "tcp_connection list"
  as_connections :: "tcp_connection list"
  as_receives :: nat
  as_answers :: "('ep \<times> string) list"
  as_echo_accepts :: nat
  as_sessions :: "session list"

definition start_accept :: "'ep asio \<Rightarrow> 'ep asio" where
  "start_accept a = a\<lparr>as_waiting := as_waiting a @ [tcp_connection_create]\<rparr>"

definition handle_accept :: "bool \<Rightarrow> tcp_connection \<Rightarrow> 'ep asio \<Rightarrow> 'ep asio" where
  "handle_accept failed new_connection a =
     (let a = (if \<not> failed then a\<lparr>as_connections := as_connections a @ [tcp_connection_start new_connection]\<rparr> else a)
      in start_accept a)"

definition start_receive :: "'ep asio \<Rightarrow> 'ep asio" where
  "start_receive a = a\<lparr>as_receives := as_receives a + 1\<rparr>"

definition handle_receive :: "'ep option \<Rightarrow> 'ep asio \<Rightarrow> 'ep asio" where
  "handle_receive r a =
     (case r of None \<Rightarrow> a | Some ep \<Rightarrow> start_receive (a\<lparr>as_answers := as_answers a @ [(ep, ''hello udp'')]\<rparr>))"

definition do_accept :: "'ep asio \<Rightarrow> 'ep asio" where
  "do_accept a = a\<lparr>as_echo_accepts := as_echo_accepts a + 1\<rparr>"

definition echo_accepted :: "bool \<Rightarrow> 'ep asio \<Rightarrow> 'ep asio" where
  "echo_accepted failed a =
     (if \<not> failed then do_accept (a\<lparr>as_sessions := as_sessions a @ [session_start session_new]\<rparr>) else a)"

text \<open>\<open>main\<close>: one \<open>tcp_server\<close> and one \<open>udp_server\<close>.\<close>

definition main_asio :: "'ep asio" where
  "main_asio = start_receive (start_accept
     \<lparr>as_waiting = [], as_connections = [], as_receives = 0, as_answers = [], as_echo_accepts = 0, as_sessions = []\<rparr>)"

datatype 'ep asio_event = Accepted bool | Received "'ep option"

definition asio_step :: "'ep asio_event \<Rightarrow> 'ep asio \<Rightarrow> 'ep asio option" where
  "asio_step ev a =
     (case ev of
        Accepted failed \<Rightarrow>
          (case as_waiting a of [] \<Rightarrow> None | c # cs \<Rightarrow> Some (handle_accept failed c (a\<lparr>as_waiting := cs\<rparr>)))
      | Received r \<Rightarrow> if as_receives a = 0 then None else Some (handle_receive r (a\<lparr>as_receives := as_receives a - 1\<rparr>)))"

fun asio_run :: "'ep asio_event list \<Rightarrow> 'ep asio \<Rightarrow> 'ep asio option" where
  "asio_run [] a = Some a"
| "asio_run (ev # evs) a = Option.bind (asio_step ev a) (asio_run evs)"

subsection \<open>Properties\<close>

definition echo_inv :: "session \<Rightarrow> bool" where
  "echo_inv s \<longleftrightarrow> length (s_data s) = 1024 \<and>
     (case s_op s of
        No_Op \<Rightarrow> (\<exists>rest. s_read s = s_written s @ rest)
      | Reading \<Rightarrow> s_read s = s_written s
      | Writing_out ys \<Rightarrow> s_read s = s_written s @ ys)"

lemma echo_inv_step: "echo_inv s \<Longrightarrow> session_step ev s = Some s' \<Longrightarrow> echo_inv s'"
  by (auto simp: echo_inv_def session_step_def do_read_def do_write_def split: session_op.splits session_event.splits option.splits bool.splits if_splits)

lemma echo_inv_run: "echo_inv s \<Longrightarrow> session_run evs s = Some s' \<Longrightarrow> echo_inv s'"
  by (induction evs arbitrary: s) (auto split: bind_splits intro: echo_inv_step)

text \<open>
  The echo session sends back what it has read, byte for byte and in order: while it waits for input nothing is
  owed, and while it writes exactly the last input is.
\<close>

theorem session_echoes:
  assumes "session_run evs (session_start session_new) = Some s"
  shows "(s_op s = Reading \<longrightarrow> s_written s = s_read s) \<and> (\<forall>ys. s_op s = Writing_out ys \<longrightarrow> s_written s @ ys = s_read s) \<and>
    take (length (s_written s)) (s_read s) = s_written s"
proof -
  have "echo_inv (session_start session_new)" by (simp add: echo_inv_def session_start_def session_new_def do_read_def)
  then have "echo_inv s" using echo_inv_run assms by blast
  then show ?thesis by (auto simp: echo_inv_def split: session_op.splits)
qed

theorem session_echoes_witness:
  "\<exists>s. session_run [Read_Done (Some [1, 2]), Write_Done True, Read_Done (Some [3]), Write_Done True] (session_start session_new) = Some s \<and>
     s_written s = s_read s \<and> s_read s = [1, 2, 3]"
proof -
  obtain s where s: "session_run [Read_Done (Some [1, 2]), Write_Done True, Read_Done (Some [3]), Write_Done True] (session_start session_new) = Some s"
    and "s_op s = Reading" "s_read s = [1, 2, 3]"
    by (simp add: session_start_def session_new_def session_step_def do_read_def do_write_def)
  with session_echoes [OF s] show ?thesis by blast
qed

fun accept_ok :: "'ep asio_event \<Rightarrow> bool" where
  "accept_ok (Accepted failed) = (\<not> failed)"
| "accept_ok (Received r) = False"

fun senders :: "'ep asio_event \<Rightarrow> 'ep list" where
  "senders (Received (Some ep)) = [ep]"
| "senders _ = []"

fun receive_failed :: "'ep asio_event \<Rightarrow> bool" where
  "receive_failed (Received None) = True"
| "receive_failed _ = False"

definition greeted :: tcp_connection where
  "greeted = tcp_connection_start tcp_connection_create"

lemma asio_step_effect:
  assumes "asio_step ev a = Some a'" and "as_waiting a = [tcp_connection_create]" and "as_receives a \<le> 1"
  shows "as_waiting a' = [tcp_connection_create] \<and> as_receives a' = (if receive_failed ev then 0 else as_receives a) \<and>
    as_connections a' = as_connections a @ (if accept_ok ev then [greeted] else []) \<and>
    as_answers a' = as_answers a @ map (\<lambda>ep. (ep, ''hello udp'')) (senders ev)"
  using assms
  by (cases ev rule: receive_failed.cases)
    (auto simp: asio_step_def handle_accept_def handle_receive_def start_accept_def start_receive_def greeted_def Let_def split: if_splits)

lemma asio_run_effect:
  assumes "asio_run evs a = Some a'" and "as_waiting a = [tcp_connection_create]" and "as_receives a \<le> 1"
  shows "as_waiting a' = [tcp_connection_create] \<and> as_receives a' = (if list_ex receive_failed evs then 0 else as_receives a) \<and>
    as_connections a' = as_connections a @ replicate (length (filter accept_ok evs)) greeted \<and>
    as_answers a' = as_answers a @ map (\<lambda>ep. (ep, ''hello udp'')) (concat (map senders evs))"
  using assms
proof (induction evs arbitrary: a)
  case (Cons ev evs)
  then obtain a1 where s: "asio_step ev a = Some a1" "asio_run evs a1 = Some a'" by (auto split: bind_splits)
  note e = asio_step_effect [OF s(1) Cons.prems(2,3)]
  then have "as_receives a1 \<le> 1" using Cons.prems(3) by (simp split: if_splits)
  with Cons.IH [OF s(2)] e show ?case by auto
qed simp

text \<open>
  The program of \<open>main\<close> goes on accepting whatever happens: after any events exactly one accept is outstanding, every
  connection accepted so far was sent the greeting with number 1 once, and every datagram received was
  answered to its sender in order; but one failed receive ends the receiving of datagrams for good.
\<close>

theorem asio_servers_go_on:
  assumes "asio_run evs main_asio = Some a"
  shows "as_waiting a = [tcp_connection_create] \<and> as_receives a = (if list_ex receive_failed evs then 0 else 1) \<and>
    map tc_sends (as_connections a) = replicate (length (filter accept_ok evs)) [''tcp message send 1''] \<and>
    as_answers a = map (\<lambda>ep. (ep, ''hello udp'')) (concat (map senders evs))"
proof -
  have g: "tc_sends greeted = [''tcp message send 1'']" by code_simp
  show ?thesis
    using asio_run_effect [OF assms] by (simp add: main_asio_def start_accept_def start_receive_def g)
qed

theorem asio_servers_go_on_witness:
  "\<exists>a. asio_run [Accepted False, Received (Some ''x''), Accepted True, Received None] main_asio = Some a \<and>
     map tc_sends (as_connections a) = [[''tcp message send 1'']] \<and> as_answers a = [(''x'', ''hello udp'')] \<and> as_receives a = 0"
proof -
  let ?evs = "[Accepted False, Received (Some ''x''), Accepted True, Received None]"
  obtain a where a: "asio_run ?evs main_asio = Some a"
    by (simp add: asio_step_def main_asio_def start_accept_def start_receive_def handle_accept_def handle_receive_def Let_def)
  show ?thesis using asio_servers_go_on [OF a] a by simp
qed

end
