(* ===== verification/Spec2Isabelle.thy ===== *)
theory Spec2Isabelle
  imports Server_Life Client_Props Certify Json_Simple Log_Threads Server_Locks Database_Samples Mains Net_Names
    Monitoring Quic_Sample Asio_Sample
begin

text \<open>
  \<^bold>\<open>A verification of the network library, the game server and the console client of project_pl.\<close>

  \<^bold>\<open>The program.\<close>  Under \<^verbatim>\<open>src/project_pl_cpp_20\<close>, \<^verbatim>\<open>_framework\<close> and \<^verbatim>\<open>_lib\<close> hold a network library on I/O
  completion ports, \<^verbatim>\<open>svr\<close> a server that keeps players in zones, and \<^verbatim>\<open>cli\<close> a console client.  Worker threads
  move bytes between sockets and \<^verbatim>\<open>Connector\<close> objects and push whole frames to a receive queue; one process
  thread per program pops them and calls \<^verbatim>\<open>UserSession::MessageProcess\<close>, which dispatches on the packet type;
  the handlers queue command units, which the update thread runs and which send the answers.

  \<^bold>\<open>Theories and sources.\<close>
  \<^item> \<^verbatim>\<open>PL_Prelude\<close>: words, byte encodings, blocks of memory, ordered maps, C strings; shared lemmas.
  \<^item> \<^verbatim>\<open>Buffer\<close>, \<^verbatim>\<open>Serializer\<close>: \<^verbatim>\<open>_framework/buffer.h\<close>.  The ring is refined to a byte queue; the serializer's
    two directions are the contracts \<open>sends\<close> and \<open>recvs\<close>.
  \<^item> \<^verbatim>\<open>Packet\<close>: \<^verbatim>\<open>packet.h\<close>, \<^verbatim>\<open>packet.cpp\<close>.  Framing, parsing, the functor table; the locale \<open>packet_struct\<close> is the
    contract of a packet structure.
  \<^item> \<^verbatim>\<open>Protocol_CS\<close>, \<^verbatim>\<open>Protocol_SC\<close>, \<^verbatim>\<open>Character_Base\<close>: \<^verbatim>\<open>packet_protocol_cs.h\<close>, \<^verbatim>\<open>packet_protocol_sc.h\<close>,
    \<^verbatim>\<open>character_base.h\<close>.  Every structure interprets \<open>packet_struct\<close>.
  \<^item> \<^verbatim>\<open>Object_Pool\<close>: \<^verbatim>\<open>_lib/object_pool_mgr.h\<close>.  Ownership of pooled objects.
  \<^item> \<^verbatim>\<open>Packet_Queue\<close>: \<^verbatim>\<open>packet_data_queue.h\<close>.  Producers and consumers as a step relation.
  \<^item> \<^verbatim>\<open>Connector\<close>, \<^verbatim>\<open>Network\<close>: \<^verbatim>\<open>connector.*\<close>, \<^verbatim>\<open>network.*\<close>.  The send path refines a byte stream (locale
    \<open>byte_stream\<close>), the receive path a function on streams (\<open>recv_spec\<close>).
  \<^item> \<^verbatim>\<open>Net_Names\<close>: wide-character names, name lookup, peer addresses and the raw heartbeat of the connector.
  \<^item> \<^verbatim>\<open>Net_Control\<close>: \<^verbatim>\<open>Network::Initialize\<close>, \<^verbatim>\<open>Start\<close>, \<^verbatim>\<open>Stop\<close> and \<^verbatim>\<open>App::Init\<close>, \<^verbatim>\<open>Start\<close>, \<^verbatim>\<open>Stop\<close> of both programs.
  \<^item> \<^verbatim>\<open>Mains\<close>: \<^verbatim>\<open>svr/main.cpp\<close>, \<^verbatim>\<open>cli/main.cpp\<close>, from the arguments to the exit code.
  \<^item> \<^verbatim>\<open>Config\<close>: \<^verbatim>\<open>_lib/config_loader.*\<close>, \<^verbatim>\<open>svr/config.*\<close>, \<^verbatim>\<open>cli/config.*\<close>.
  \<^item> \<^verbatim>\<open>Command_Queue\<close>: \<^verbatim>\<open>_lib/command_unit_base.*\<close>; the locale \<open>command_host\<close> is interpreted by server and client.
  \<^item> \<^verbatim>\<open>Zone\<close>, \<^verbatim>\<open>Server\<close>, \<^verbatim>\<open>Server_Props\<close>: \<^verbatim>\<open>svr/\<close>.  Zones, sessions, handlers, commands, the process and update
    threads; dispatch and what the players of a zone are sent.
  \<^item> \<^verbatim>\<open>Server_Inv\<close>, \<^verbatim>\<open>Server_Life\<close>: all threads of the server together.  One step is one round of one thread; a state
    invariant over every run, living sessions behind every request and every registered user, what becomes
    of silent, answering, re-entering and twice authenticated clients, and what a reused connector sends.
  \<^item> \<^verbatim>\<open>Client\<close>, \<^verbatim>\<open>Client_Props\<close>: \<^verbatim>\<open>cli/\<close>.  Characters, requests, handlers, the command line; the client's picture
    of the world refines an abstract one.
  \<^item> \<^verbatim>\<open>Certify\<close>: \<^verbatim>\<open>_framework/certifyData.*\<close>.  The challenge, its recovery and its check.
  \<^item> \<^verbatim>\<open>Tokenizer\<close>: the tokenizers of \<^verbatim>\<open>_lib/util_String.cpp\<close>.
  \<^item> \<^verbatim>\<open>Safe_Lock\<close>, \<^verbatim>\<open>Server_Locks\<close>: \<^verbatim>\<open>_lib/safe_lock.h\<close> and the scopes of its guards in the server.  The locale
    \<open>lock_order\<close> says that threads take locks by rising rank; the server's threads interpret it, all but the
    authentication handler, which can deadlock with the session update.
  \<^item> \<^verbatim>\<open>Time_Set\<close>: \<^verbatim>\<open>_lib/util_time.*\<close>.  Calendar fields, their round trip and the effect of daylight saving.
  \<^item> \<^verbatim>\<open>File_Log\<close>, \<^verbatim>\<open>Log_Threads\<close>: \<^verbatim>\<open>_lib/log.*\<close> and the formatting functions of \<^verbatim>\<open>util_String.cpp\<close>.  Batches of
    lines, what a logger leaves behind, and several threads at one logger.
  \<^item> \<^verbatim>\<open>Json_Simple\<close>: \<^verbatim>\<open>_lib/_json.*\<close>.  The hand-written parser; it ends on every input.
  \<^item> \<^verbatim>\<open>Database\<close>: \<^verbatim>\<open>_lib/MySQL.*\<close>.  Connections and the transaction scope over any driver.
  \<^item> \<^verbatim>\<open>Database_Samples\<close>: the sample queries of \<^verbatim>\<open>MySQL.cpp\<close>.
  \<^item> \<^verbatim>\<open>Monitoring\<close>: report strings, the monitored rounds, clock functions and stop watch of \<^verbatim>\<open>util_time.*\<close> and
    the dumps of \<^verbatim>\<open>_lib/exception_report.cpp\<close>.
  \<^item> \<^verbatim>\<open>Ini_Files\<close>: \<^verbatim>\<open>_framework/default_config.*\<close> and \<^verbatim>\<open>_lib/util_file.cpp\<close>.
  \<^item> \<^verbatim>\<open>Quic_Sample\<close>, \<^verbatim>\<open>Asio_Sample\<close>: the stand-alone samples \<^verbatim>\<open>svr_quic\<close>, \<^verbatim>\<open>cli_quic\<close> and \<^verbatim>\<open>svr_asio\<close>, as handlers of
    the events their libraries deliver.
  \<^item> This theory: properties that span the two programs.

  \<^bold>\<open>How state and operations correspond.\<close>  A class is a record, with fields named as in the source where that
  is possible; a method is a function that takes and returns the record.  Objects that are shared by pointer
  live in stores indexed by address.  \<open>None\<close> stands for undefined behaviour, a failed assertion or a call of the
  invalid-parameter handler; error codes are values of \<open>eResultCode\<close>.  Integers have their width: \<open>DWORD\<close> and
  \<open>int\<close> are 32-bit words, \<open>INT64\<close> and \<open>size_t\<close> 64-bit words, and signedness shows in \<open>sint\<close> and \<open>unat\<close>.
  Times in milliseconds are unbounded integers, since the overflow of the source's \<open>INT64\<close> times is undefined.
  What the operating system, the clock and the random numbers answer are parameters (\<open>wsa\<close>, \<open>os_env\<close>,
  \<open>svr_env\<close>, \<open>cli_env\<close>, \<open>listen_env\<close>, \<open>junk\<close> for uninitialized memory), and the calls that reach the sockets
  are recorded in the state.

  \<^bold>\<open>What is shown.\<close>  Safety and functional behaviour of each component: the ring and the queues are first-in
  first-out, pooled objects have one owner, the send path is a byte stream that drains, the receive path
  delivers frames, packets round-trip, every client packet reaches its handler, moves, entries and departures
  reach the players of a zone, and the client's characters follow the server's packets.  Every state a running
  server reaches is well-formed, and its pointers between connectors, sessions and users lead to living objects
  unless a session authenticates twice.  Client and server are composed below: a request built
  by the client is handled by the server, and a move is shown on the other clients.  The server's threads cannot block each other for good outside the authentication handler, and log
  lines are neither lost nor doubled between threads.  Error properties state precisely when the code leaves
  defined behaviour or stalls.

  \<^bold>\<open>Bounds.\<close>  A packet has at most 10240 bytes (\<open>max_packet\<close>), a handler table 8 or 9 entries.  No loop needs
  fuel: loops are recursions over data or have a measure; the parser of \<^verbatim>\<open>Json_Simple\<close> is a while loop that is
  shown to end.  Endless thread loops are modelled by one round.

  \<^bold>\<open>Not modelled.\<close>  The socket library and completion ports, the lock-free reads inside single statements, the
  parser of the JSON library (a parameter of \<^verbatim>\<open>Config\<close>), what the debug-help library writes into a dump, the
  unit tests of the utilities, which only print, and the vendored libraries in \<^verbatim>\<open>_external\<close>.  Threads
  interleave by whole rounds in \<^verbatim>\<open>Server_Inv\<close>; finer interleavings are modelled for the queues, the log and the
  locks.
\<close>

section \<open>From one program to the other\<close>

lemma server_round_dispatch:
  assumes v: "c2s_valid p" and pb: "packet_bytes pk = frame (c2s_image p) seq now"
    and n: "unat (nDataSize pk) \<le> length (pBuffer pk)"
    and c: "ps_pConnector pk = Some c" "cn_param (connectors (net st) c) = Some a"
  shows "ProcessThread_round e st pk = map_option snd (c2s_handle e a (st\<lparr>loop_pConnector := Some c\<rparr>) p)"
  using server_round_frame [OF v pb n c(1), of e st] c(2)
  by (simp add: dispatch_session_def params_def)

lemma client_round_dispatch:
  assumes v: "s2c_valid p" and pb: "packet_bytes pk = frame (s2c_image p) seq now"
    and n: "unat (nDataSize pk) \<le> length (pBuffer pk)"
    and c: "ps_pConnector pk = Some c" "cn_param (connectors (cl_net cl) c) = Some a"
    and h: "s2c_handle e a (cl\<lparr>cl_loop_pConnector := Some c\<rparr>) p = Some (True, cl')"
  shows "ProcessThread_cli_round e cl pk = client_Tick cl'"
proof -
  obtain rest tl where r: "pBuffer pk = frame (s2c_image p) seq now @ rest" "unat (nDataSize pk) = length (s2c_image p) + 20"
    "mem_read (pBuffer pk) 0 8 = Some (take 8 (pBuffer pk))"
    "uint (ui32Length (head_of (take 8 (pBuffer pk)))) - 12 = int (length (s2c_image p) + 8)"
    "mem_read (pBuffer pk) (length (s2c_image p) + 8) 4 = Some tl" "le_word tl = PACKET_CHECK_TAIL_KEY"
    using frame_packet_read [OF pb n s2c_image_fits [OF v]] by blast
  have m: "MessageProcess_cli e a (cl\<lparr>cl_loop_pConnector := Some c\<rparr>) (pBuffer pk) (nDataSize pk) = Some (1, cl')"
    unfolding r(1) using MessageProcess_cli_dispatch [OF v r(2), of e a "cl\<lparr>cl_loop_pConnector := Some c\<rparr>"] h by auto
  show ?thesis
    unfolding ProcessThread_cli_round_def r(3) bind.bind_lunit Let_def r(4)
    by (auto simp: r(5,6) c m nat_add_distrib)
qed

lemma S2C_Move_queue: "S2C_Move e a cl packet = Some (r, cl') \<Longrightarrow> cl_queue cl' = cl_queue cl"
  by (auto simp: S2C_Move_def say_def Let_def split: option.splits)

lemma set_net_sel [simp]:
  "charMgr (set_net nt cl) = charMgr cl" "cl_queue (set_net nt cl) = cl_queue cl" "cl_net (set_net nt cl) = nt"
  by (simp_all add: set_net_def)

text \<open>
  C1: A request reaches its handler.  The client's \<open>SendPacket\<close> on an idle, healthy connection sends one
  frame; when these bytes arrive at the server's connector, \<open>DoRecv\<close> queues one packet, and the process
  thread, given that packet, does exactly what the handler for the request does with the request the client
  built, on the session bound to the connector.
\<close>

theorem request_reaches_handler:
  assumes v: "c2s_valid p"
    and client: "cs_pConnector (cl_sessions cl s) = Some d" "send_live (connectors (cl_net cl) d)"
      "outstanding (connectors (cl_net cl) d) = []" "ce_wsa ce \<noteq> WSA_FAILED"
    and server: "recv_ok (connectors (net st) c)" "unparsed (connectors (net st) c) = []"
      "queue_ok (recvPacketQueue (net st))" "cn_param (connectors (net st) c) = Some a" "w \<noteq> WSA_FAILED"
  shows "\<exists>cl'. SendPacket_cli ce s cl p = Some (succ, cl') \<and>
    outstanding (connectors (cl_net cl') d) = c2s_frame (ce_now ce) p \<and>
    (\<forall>n. unat n \<le> max_packet \<longrightarrow> received (connectors (net st) c) n = outstanding (connectors (cl_net cl') d) \<longrightarrow>
      (\<exists>nt pk. DoRecv junk w (net st) c n = Some nt \<and>
        waiting (recvPacketQueue nt) 0 = waiting (recvPacketQueue (net st)) 0 @ [pk] \<and>
        ProcessThread_round e (st\<lparr>net := nt\<rparr>) pk =
          map_option snd (c2s_handle e a (st\<lparr>net := nt, loop_pConnector := Some c\<rparr>) p)))"
proof -
  obtain nt0 where nt0: "SendPacket_cli ce s cl p = Some (succ, set_net nt0 cl)"
    "outstanding (connectors nt0 d) = c2s_frame (ce_now ce) p"
    using SendPacket_cli_ok [OF v client(1,2,4)] client(3) by auto
  have "\<exists>nt pk. DoRecv junk w (net st) c n = Some nt \<and>
      waiting (recvPacketQueue nt) 0 = waiting (recvPacketQueue (net st)) 0 @ [pk] \<and>
      ProcessThread_round e (st\<lparr>net := nt\<rparr>) pk =
        map_option snd (c2s_handle e a (st\<lparr>net := nt, loop_pConnector := Some c\<rparr>) p)"
    if n: "unat n \<le> max_packet" "received (connectors (net st) c) n = c2s_frame (ce_now ce) p" for n
  proof -
    have s: "unparsed (connectors (net st) c) @ received (connectors (net st) c) n = frame (c2s_image p) 0 (ce_now ce) @ []"
      using n(2) server(2) by (simp add: c2s_frame_def)
    have l: "length (unparsed (connectors (net st) c) @ received (connectors (net st) c) n) \<le> max_packet"
      using s c2s_image_fits [OF v] by simp
    obtain nt pk where nt: "DoRecv junk w (net st) c n = Some nt" "packet_bytes pk = frame (c2s_image p) 0 (ce_now ce)"
      "ps_pConnector pk = Some c" "waiting (recvPacketQueue nt) 0 = waiting (recvPacketQueue (net st)) 0 @ [pk]"
      "cn_param (connectors nt c) = Some a" "unat (nDataSize pk) \<le> length (pBuffer pk)"
      using DoRecv_packet [OF server(1) n(1) server(3) recv_spec_frame [OF s l] server(5), of junk] server(4) by auto
    then show ?thesis
      using server_round_dispatch [OF v nt(2,6,3), of "st\<lparr>net := nt\<rparr>" a e] by auto
  qed
  then show ?thesis using nt0 by (intro exI [of _ "set_net nt0 cl"]) simp
qed

text \<open>A connection bound to session 0 whose receive request holds the given bytes.\<close>

definition demo_bound :: "bytes \<Rightarrow> network" where
  "demo_bound xs = upd_connector (demo_filled xs) 0 ((connectors (demo_filled xs) 0)\<lparr>cn_param := Some 0\<rparr>)"

lemma demo_bound_ok:
  assumes "length xs \<le> max_packet"
  shows "recv_ok (connectors (demo_bound xs) 0)" "unparsed (connectors (demo_bound xs) 0) = []"
    "received (connectors (demo_bound xs) 0) (of_nat (length xs)) = xs"
    "queue_ok (recvPacketQueue (demo_bound xs))" "waiting (recvPacketQueue (demo_bound xs)) 0 = []"
    "cn_param (connectors (demo_bound xs) 0) = Some 0" "unat (of_nat (length xs) :: u32) \<le> max_packet"
  using demo_filled_ok [OF assms] assms by (simp_all add: demo_bound_def recv_ok_def received_def unat_of_nat)

theorem request_reaches_handler_witness:
  "\<exists>cl' nt pk. SendPacket_cli demo_cli_env 0 demo_client (P_CS_HEARTBEAT CS_P_HEARTBEAT) = Some (succ, cl') \<and>
    DoRecv (\<lambda>_. 0) WSA_OK (demo_bound (c2s_frame 9 (P_CS_HEARTBEAT CS_P_HEARTBEAT))) 0 24 = Some nt \<and>
    waiting (recvPacketQueue nt) 0 = [pk] \<and>
    ProcessThread_round demo_env (demo_svr\<lparr>net := nt\<rparr>) pk =
      map_option snd (C2S_Heartbeat demo_env 0 (demo_svr\<lparr>net := nt, loop_pConnector := Some 0\<rparr>) CS_P_HEARTBEAT)"
proof -
  let ?p = "P_CS_HEARTBEAT CS_P_HEARTBEAT"
  let ?st = "demo_svr\<lparr>net := demo_bound (c2s_frame 9 ?p)\<rparr>"
  have s: "(7 :: SOCKET) \<noteq> INVALID_SOCKET" by (simp add: INVALID_SOCKET_def)
  have v: "c2s_valid ?p" by (simp add: cs_typed_def CS_P_HEARTBEAT_def)
  have n: "length (c2s_frame 9 ?p) = 24" by (simp add: c2s_frame_def body_image_def)
  have "length (c2s_frame 9 ?p) \<le> max_packet" using n by simp
  note b = demo_bound_ok [OF this]
  have c: "cs_pConnector (cl_sessions demo_client 0) = Some 0" "send_live (connectors (cl_net demo_client) 0)"
    "outstanding (connectors (cl_net demo_client) 0) = []" "ce_wsa demo_cli_env \<noteq> WSA_FAILED" "ce_now demo_cli_env = 9"
    using demo_net_ok(1,2) [OF s] by (simp_all add: demo_client_def demo_cli_env_def App_def)
  have st: "recv_ok (connectors (net ?st) 0)" "unparsed (connectors (net ?st) 0) = []"
    "queue_ok (recvPacketQueue (net ?st))" "cn_param (connectors (net ?st) 0) = Some 0" "WSA_OK \<noteq> WSA_FAILED"
    using b by simp_all
  obtain cl' where cl': "SendPacket_cli demo_cli_env 0 demo_client ?p = Some (succ, cl')"
    "outstanding (connectors (cl_net cl') 0) = c2s_frame 9 ?p"
    and step: "\<And>n. unat n \<le> max_packet \<Longrightarrow> received (connectors (net ?st) 0) n = outstanding (connectors (cl_net cl') 0) \<Longrightarrow>
      \<exists>nt pk. DoRecv (\<lambda>_. 0) WSA_OK (net ?st) 0 n = Some nt \<and>
        waiting (recvPacketQueue nt) 0 = waiting (recvPacketQueue (net ?st)) 0 @ [pk] \<and>
        ProcessThread_round demo_env (?st\<lparr>net := nt\<rparr>) pk =
          map_option snd (c2s_handle demo_env 0 (?st\<lparr>net := nt, loop_pConnector := Some 0\<rparr>) ?p)"
    using request_reaches_handler [OF v c(1,2,3,4) st, of "\<lambda>_. 0" demo_env] unfolding c(5) by blast
  have "unat (24 :: u32) \<le> max_packet" "received (connectors (net ?st) 0) 24 = outstanding (connectors (cl_net cl') 0)"
    using b(3) cl'(2) n by simp_all
  then show ?thesis using step [of 24] cl'(1) b(5) by auto
qed

text \<open>
  C2: A move is shown on the screens.  After \<open>C2S_Move\<close> and two ticks the connection of every member of the
  zone that was idle carries one frame; when a client at the other end receives these bytes, its process
  thread handles one packet after which its picture of the world is the old one with the mover, if it knows
  it, at the new position.
\<close>

theorem move_shown_on_clients:
  assumes us: "sessions st a = Some us" "zid = zoneId (ch_pos (nub us))"
    and zc: "zone_consistent st zid" and ru: "reachable_users st (map fst (members (zoneMgr st) zid))"
    and q: "cmds (commandQueue st) = []" and w: "e_wsa e \<noteq> WSA_FAILED"
    and d: "Some d \<in> session_conn st ` fst ` set (members (zoneMgr st) zid)" "conn_out st d = []"
    and cm: "allocator_ok (ce_base ce)" "cm_ok (ce_base ce) (charMgr cl)" "cmds (cl_queue cl) = []"
    and client: "recv_ok (connectors (cl_net cl) c)" "unparsed (connectors (cl_net cl) c) = []"
      "queue_ok (recvPacketQueue (cl_net cl))" "cn_param (connectors (cl_net cl) c) = Some s" "w' \<noteq> WSA_FAILED"
  shows "\<exists>st0 st1 st2. C2S_Move e a st packet = Some (True, st0) \<and>
    server_Tick e st0 = Some st1 \<and> server_Tick e st1 = Some st2 \<and>
    conn_out st2 d = s2c_frame (e_now e)
      (P_SC_MOVE (SC_P_MOVE_SetPos SC_P_MOVE (ch_token (nub us)) (move_x packet) (move_y packet))) \<and>
    (\<forall>n. unat n \<le> max_packet \<longrightarrow> received (connectors (cl_net cl) c) n = conn_out st2 d \<longrightarrow>
      (\<exists>nt pk cl'. DoRecv junk w' (cl_net cl) c n = Some nt \<and>
        waiting (recvPacketQueue nt) 0 = waiting (recvPacketQueue (cl_net cl)) 0 @ [pk] \<and>
        ProcessThread_cli_round ce (set_net nt cl) pk = Some cl' \<and> cm_ok (ce_base ce) (charMgr cl') \<and>
        world_of (charMgr cl') = world_step
          (P_SC_MOVE (SC_P_MOVE_SetPos SC_P_MOVE (ch_token (nub us)) (move_x packet) (move_y packet)))
          (world_of (charMgr cl))))"
proof -
  let ?q = "SC_P_MOVE_SetPos SC_P_MOVE (ch_token (nub us)) (move_x packet) (move_y packet)"
  let ?p = "P_SC_MOVE ?q"
  have v: "s2c_valid ?p" "plain ?p" by (simp_all add: sc_typed_def SC_P_MOVE_SetPos_def SC_P_MOVE_def plain_def)
  obtain st0 st1 st2 where st: "C2S_Move e a st packet = Some (True, st0)"
    "server_Tick e st0 = Some st1" "server_Tick e st1 = Some st2" "conn_out st2 d = s2c_frame (e_now e) ?p"
    using move_broadcast [OF us zc ru q w, of packet] d by (metis append_Nil)
  have "\<exists>nt pk cl'. DoRecv junk w' (cl_net cl) c n = Some nt \<and>
      waiting (recvPacketQueue nt) 0 = waiting (recvPacketQueue (cl_net cl)) 0 @ [pk] \<and>
      ProcessThread_cli_round ce (set_net nt cl) pk = Some cl' \<and> cm_ok (ce_base ce) (charMgr cl') \<and>
      world_of (charMgr cl') = world_step ?p (world_of (charMgr cl))"
    if n: "unat n \<le> max_packet" "received (connectors (cl_net cl) c) n = s2c_frame (e_now e) ?p" for n
  proof -
    have s: "unparsed (connectors (cl_net cl) c) @ received (connectors (cl_net cl) c) n = frame (s2c_image ?p) 0 (e_now e) @ []"
      using n(2) client(2) by (simp add: s2c_frame_def)
    have l: "length (unparsed (connectors (cl_net cl) c) @ received (connectors (cl_net cl) c) n) \<le> max_packet"
      using s s2c_image_fits [OF v(1)] by simp
    obtain nt pk where nt: "DoRecv junk w' (cl_net cl) c n = Some nt" "packet_bytes pk = frame (s2c_image ?p) 0 (e_now e)"
      "ps_pConnector pk = Some c" "waiting (recvPacketQueue nt) 0 = waiting (recvPacketQueue (cl_net cl)) 0 @ [pk]"
      "cn_param (connectors nt c) = Some s" "unat (nDataSize pk) \<le> length (pBuffer pk)"
      using DoRecv_packet [OF client(1) n(1) client(3) recv_spec_frame [OF s l] client(5), of junk] client(4) by auto
    let ?cl = "(set_net nt cl)\<lparr>cl_loop_pConnector := Some c\<rparr>"
    have "cm_ok (ce_base ce) (charMgr ?cl)" using cm(2) by simp
    then obtain cl' where cl': "s2c_handle ce s ?cl ?p = Some (True, cl')" "cm_ok (ce_base ce) (charMgr cl')"
      "world_of (charMgr cl') = world_step ?p (world_of (charMgr cl))"
      using s2c_handle_world [OF cm(1) _ v, of ?cl s] by auto
    have "cl_queue cl' = cl_queue ?cl" using cl'(1) by (intro S2C_Move_queue [of ce s ?cl ?q True cl']) simp
    then have "client_Tick cl' = Some cl'" using cm(3) by (intro client_Tick_idle) simp
    then show ?thesis
      using nt(1,4) client_round_dispatch [OF v(1) nt(2,6,3) _ cl'(1)] nt(5) cl'(2,3) by auto
  qed
  then show ?thesis using st by (intro exI [of _ st0] exI [of _ st1] exI [of _ st2]) simp
qed

theorem move_shown_on_clients_witness:
  "\<exists>nt pk cl'. DoRecv (\<lambda>_. 0) WSA_OK (demo_bound (s2c_frame 9 (P_SC_MOVE (SC_P_MOVE_SetPos SC_P_MOVE 5 11 12)))) 0 40 = Some nt \<and>
    waiting (recvPacketQueue nt) 0 = [pk] \<and>
    ProcessThread_cli_round demo_cli_env (set_net nt demo_client) pk = Some cl'"
proof -
  let ?p = "P_SC_MOVE (SC_P_MOVE_SetPos SC_P_MOVE 5 11 12)"
  let ?cl = "set_net (demo_bound (s2c_frame 9 ?p)) demo_client"
  have s: "(7 :: SOCKET) \<noteq> INVALID_SOCKET" by (simp add: INVALID_SOCKET_def)
  have n: "length (s2c_frame 9 ?p) = 40" by (simp add: s2c_frame_def body_image_def)
  have "length (s2c_frame 9 ?p) \<le> max_packet" using n by simp
  note b = demo_bound_ok [OF this]
  have d: "zoneId (ch_pos (nub (demo_user 5 0))) = 1" "ch_token (nub (demo_user 5 0)) = 5" "e_now demo_env = 9"
    "move_x (CS_P_MOVE_SetPos CS_P_MOVE 11 12) = 11" "move_y (CS_P_MOVE_SetPos CS_P_MOVE 11 12) = 12"
    by (simp_all add: demo_user_def demo_env_def CS_P_MOVE_SetPos_def)
  have mem: "Some 1 \<in> session_conn demo_svr ` fst ` set (members (zoneMgr demo_svr) 1)" "conn_out demo_svr 1 = []"
    using demo_net_ok(2) [OF s] by (simp_all add: demo_members demo_sessions)
  have cm: "cm_ok (ce_base demo_cli_env) (charMgr ?cl)" "cmds (cl_queue ?cl) = []"
    using CharacterMgr_new(1) [OF demo_allocator] by (simp_all add: demo_client_def CommandUnitQueue_def)
  have rc: "recv_ok (connectors (cl_net ?cl) 0)" "unparsed (connectors (cl_net ?cl) 0) = []"
    "queue_ok (recvPacketQueue (cl_net ?cl))" "cn_param (connectors (cl_net ?cl) 0) = Some 0" "WSA_OK \<noteq> WSA_FAILED"
    using b by simp_all
  have idem: "set_net nt ?cl = set_net nt demo_client" for nt by (simp add: set_net_def)
  obtain st2 :: server where st2: "conn_out st2 1 = s2c_frame 9 ?p"
    and step: "\<And>n. unat n \<le> max_packet \<Longrightarrow> received (connectors (cl_net ?cl) 0) n = conn_out st2 1 \<Longrightarrow>
      \<exists>nt pk cl'. DoRecv (\<lambda>_. 0) WSA_OK (cl_net ?cl) 0 n = Some nt \<and>
        waiting (recvPacketQueue nt) 0 = waiting (recvPacketQueue (cl_net ?cl)) 0 @ [pk] \<and>
        ProcessThread_cli_round demo_cli_env (set_net nt ?cl) pk = Some cl'"
    using move_shown_on_clients [OF demo_sessions(1) d(1) [symmetric] demo_consistent demo_sessions(5,6) mem
        demo_allocator cm rc, of "CS_P_MOVE_SetPos CS_P_MOVE 11 12" "\<lambda>_. 0"]
    unfolding d by blast
  have "unat (40 :: u32) \<le> max_packet" "received (connectors (cl_net ?cl) 0) 40 = conn_out st2 1"
    using b(3) st2 n by simp_all
  then show ?thesis using step [of 40] b(5) unfolding idem by auto
qed

end
